(* ===== verification/Prelude.thy ===== *)
theory Prelude
  imports Main "HOL-Library.Word" "HOL-Library.Sublist"
begin

text \<open>
  Shared vocabulary of the development: the machine integer types of the Rust code, the
  outcome type that makes a panic a value, the result sum, bytes and characters, the
  lemma collections, and two generic interfaces. \<open>transition_system\<close> is the invariant
  rule used by every state machine; \<open>prefix_parser\<close> is the contract of a parser that is
  fed from a growing receive buffer, from which independence of the chunking of the
  input follows once and for all.
\<close>

unbundle bit_operations_syntax

section \<open>Machine integers, outcomes, results\<close>

type_synonym u8 = "8 word"
type_synonym u16 = "16 word"
type_synonym u32 = "32 word"
type_synonym u64 = "64 word"
type_synonym bytes = "8 word list"

named_theorems unat_simps \<open>readings of word operations through unat\<close>
named_theorems inv_intros \<open>preservation lemmas of the component invariants\<close>
named_theorems decode_simps \<open>decoders applied to encoder output\<close>

text \<open>A Rust panic is a value: \<open>Panic\<close> unwinds the task, \<open>Ret\<close> is a normal return.\<close>

datatype 'a outcome = Panic | Ret (returned: 'a)

fun obind :: "'a outcome \<Rightarrow> ('a \<Rightarrow> 'b outcome) \<Rightarrow> 'b outcome" where
  "obind Panic f = Panic"
| "obind (Ret x) f = f x"

lemma obind_Ret_iff: "obind m f = Ret y \<longleftrightarrow> (\<exists>x. m = Ret x \<and> f x = Ret y)"
  by (cases m) auto

text \<open>The \<open>?\<close> operator on \<open>Result<T, E>\<close>, with \<open>Inl\<close> for \<open>Err\<close> and \<open>Inr\<close> for \<open>Ok\<close>.\<close>

fun rbind :: "'e + 'a \<Rightarrow> ('a \<Rightarrow> 'e + 'b) \<Rightarrow> 'e + 'b" where
  "rbind (Inl e) f = Inl e"
| "rbind (Inr x) f = f x"

lemma rbind_Inr_iff: "rbind m f = Inr y \<longleftrightarrow> (\<exists>x. m = Inr x \<and> f x = Inr y)"
  by (cases m) auto

lemma rbind_Inl_iff: "rbind m f = Inl e \<longleftrightarrow> m = Inl e \<or> (\<exists>x. m = Inr x \<and> f x = Inl e)"
  by (cases m) auto

definition map_err :: "('e \<Rightarrow> 'f) \<Rightarrow> 'e + 'a \<Rightarrow> 'f + 'a" where
  "map_err f r = (case r of Inl e \<Rightarrow> Inl (f e) | Inr x \<Rightarrow> Inr x)"

lemma map_err_simps [simp]: "map_err f (Inl e) = Inl (f e)" "map_err f (Inr x) = Inr x"
  by (simp_all add: map_err_def)

definition ok_or :: "'e \<Rightarrow> 'a option \<Rightarrow> 'e + 'a" where
  "ok_or e v = (case v of None \<Rightarrow> Inl e | Some x \<Rightarrow> Inr x)"

lemma ok_or_simps [simp]: "ok_or e None = Inl e" "ok_or e (Some x) = Inr x"
  by (simp_all add: ok_or_def)

lemma ok_or_Inr_iff: "ok_or e v = Inr x \<longleftrightarrow> v = Some x"
  by (cases v) auto

section \<open>Words\<close>

lemma unat_min [unat_simps]: "unat (min a b) = min (unat a) (unat b)"
  by (simp add: min_def word_le_nat_alt)

lemma unat_add_no_wrap [unat_simps]:
  fixes a b :: "'a::len word"
  assumes "unat a + unat b < 2 ^ LENGTH('a)"
  shows "unat (a + b) = unat a + unat b"
  using assms by (simp add: unat_word_ariths)

lemma unat_Suc_no_wrap [unat_simps]:
  fixes a b :: "'a::len word"
  assumes "a < b"
  shows "unat (a + 1) = Suc (unat a)"
proof -
  have "Suc (unat a) \<le> unat b" using assms by (simp add: word_less_nat_alt)
  also have "unat b < 2 ^ LENGTH('a)" by simp
  finally show ?thesis by (simp add: unat_word_ariths)
qed

lemma unat_dec [unat_simps]:
  fixes a :: "'a::len word"
  assumes "0 < a"
  shows "unat (a - 1) = unat a - 1"
  using assms by (metis not_less_iff_gr_or_eq unat_minus_one word_not_simps(1))

text \<open>\<open>saturating_sub\<close> and \<open>saturating_add\<close> of the standard library.\<close>

definition sat_sub :: "'a::len word \<Rightarrow> 'a word \<Rightarrow> 'a word" where
  "sat_sub a b = (if a < b then 0 else a - b)"

definition sat_add :: "'a::len word \<Rightarrow> 'a word \<Rightarrow> 'a word" where
  "sat_add a b = (if 2 ^ LENGTH('a) \<le> unat a + unat b then - 1 else a + b)"

lemma unat_sat_sub [unat_simps]: "unat (sat_sub a b) = unat a - unat b"
  by (simp add: sat_sub_def word_less_nat_alt unat_sub word_le_nat_alt)

lemma unat_sat_add_le: "unat a \<le> unat (sat_add a b)"
  for a b :: "'a::len word"
proof (cases "2 ^ LENGTH('a) \<le> unat a + unat b")
  case True
  have "a \<le> - 1" by simp
  then have "unat a \<le> unat (- 1 :: 'a word)" unfolding word_le_nat_alt .
  with True show ?thesis by (simp add: sat_add_def)
qed (simp add: sat_add_def unat_add_no_wrap)

section \<open>Bytes and characters\<close>

text \<open>
  A Rust \<open>String\<close> is its UTF-8 bytes. The model writes it as a HOL string, one \<open>char\<close>
  per byte; \<open>of_bytes\<close> and \<open>to_bytes\<close> convert between the two readings.
\<close>

definition byte_of_char :: "char \<Rightarrow> u8" where
  "byte_of_char c = word_of_nat (of_char c)"

definition char_of_byte :: "u8 \<Rightarrow> char" where
  "char_of_byte b = char_of (unat b)"

definition of_bytes :: "bytes \<Rightarrow> string" where
  "of_bytes = map char_of_byte"

definition to_bytes :: "string \<Rightarrow> bytes" where
  "to_bytes = map byte_of_char"

lemma char_of_byte_of_char [simp]: "char_of_byte (byte_of_char c) = c"
  by (simp add: char_of_byte_def byte_of_char_def unat_of_nat)

lemma byte_of_char_of_byte [simp]: "byte_of_char (char_of_byte b) = b"
proof -
  have "unat b < 256" using unsigned_less [of b] by simp
  then show ?thesis by (simp add: char_of_byte_def byte_of_char_def)
qed

lemma of_to_bytes [simp]: "of_bytes (to_bytes s) = s"
  by (simp add: of_bytes_def to_bytes_def o_def)

lemma to_of_bytes [simp]: "to_bytes (of_bytes b) = b"
  by (simp add: of_bytes_def to_bytes_def o_def)

lemma of_bytes_simps [simp]:
  "of_bytes [] = []" "of_bytes (x # xs) = char_of_byte x # of_bytes xs"
  "of_bytes (xs @ ys) = of_bytes xs @ of_bytes ys" "length (of_bytes xs) = length xs"
  by (simp_all add: of_bytes_def)

lemma to_bytes_simps [simp]:
  "to_bytes [] = []" "to_bytes (x # xs') = byte_of_char x # to_bytes xs'"
  "to_bytes (xs' @ ys') = to_bytes xs' @ to_bytes ys'" "length (to_bytes xs') = length xs'"
  by (simp_all add: to_bytes_def)

text \<open>Big-endian bytes, as \<open>to_be_bytes\<close> of \<open>u16\<close> and \<open>u32\<close> writes them.\<close>

definition be16 :: "u16 \<Rightarrow> bytes" where
  "be16 w = [ucast (drop_bit 8 w), ucast w]"

definition be32 :: "u32 \<Rightarrow> bytes" where
  "be32 w = [ucast (drop_bit 24 w), ucast (drop_bit 16 w), ucast (drop_bit 8 w), ucast w]"

definition of_be16 :: "u8 \<Rightarrow> u8 \<Rightarrow> u16" where
  "of_be16 a b = push_bit 8 (ucast a) OR ucast b"

definition of_be32 :: "u8 \<Rightarrow> u8 \<Rightarrow> u8 \<Rightarrow> u8 \<Rightarrow> u32" where
  "of_be32 a b c d =
     push_bit 24 (ucast a) OR push_bit 16 (ucast b) OR push_bit 8 (ucast c) OR ucast d"

lemma of_be16_be16 [simp, decode_simps]: "of_be16 (ucast (drop_bit 8 w)) (ucast w) = w"
  by (rule bit_word_eqI) (auto simp: of_be16_def bit_simps)

lemma of_be32_be32 [simp, decode_simps]:
  "of_be32 (ucast (drop_bit 24 w)) (ucast (drop_bit 16 w)) (ucast (drop_bit 8 w)) (ucast w) = w"
proof (rule bit_word_eqI)
  fix n assume "n < LENGTH(32)"
  then consider "n < 8" | "8 \<le> n \<and> n < 16" | "16 \<le> n \<and> n < 24" | "24 \<le> n \<and> n < 32"
    by fastforce
  then show "bit (of_be32 (ucast (drop_bit 24 w)) (ucast (drop_bit 16 w)) (ucast (drop_bit 8 w))
      (ucast w)) n = bit w n"
    by cases (auto simp: of_be32_def bit_simps)
qed

lemma length_be [simp]: "length (be16 w) = 2" "length (be32 v) = 4"
  by (simp_all add: be16_def be32_def)

section \<open>Lists and options\<close>

lemma filter_update_length:
  assumes "i < length xs"
  shows "length (filter P (xs[i := y])) + (if P (xs ! i) then 1 else 0)
       = length (filter P xs) + (if P y then 1 else 0)"
  using assms
proof (induction xs arbitrary: i)
  case (Cons x xs)
  then show ?case by (cases i) auto
qed simp

lemma take_append_le: "n \<le> length xs \<Longrightarrow> take n (xs @ ys) = take n xs"
  by simp

section \<open>Transition systems\<close>

text \<open>
  The reachable states of a machine with start states \<open>init\<close> and labelled steps, and the
  invariant rule every state machine of the development is an instance of.
\<close>

inductive reach :: "('s \<Rightarrow> bool) \<Rightarrow> ('s \<Rightarrow> 'e \<Rightarrow> 's \<Rightarrow> bool) \<Rightarrow> 's \<Rightarrow> bool"
  for init step where
  reach_init: "init s \<Longrightarrow> reach init step s"
| reach_step: "reach init step s \<Longrightarrow> step s e t \<Longrightarrow> reach init step t"

locale transition_system =
  fixes init :: "'s \<Rightarrow> bool"
    and step :: "'s \<Rightarrow> 'e \<Rightarrow> 's \<Rightarrow> bool"
    and inv :: "'s \<Rightarrow> bool"
  assumes inv_init: "init s \<Longrightarrow> inv s"
    and inv_step: "inv s \<Longrightarrow> step s e t \<Longrightarrow> inv t"
begin

lemma inv_reach: "reach init step s \<Longrightarrow> inv s"
  by (induction rule: reach.induct) (auto intro: inv_init inv_step)

end

text \<open>Reachability along a list of labels, for runs of a deterministic step function.\<close>

fun run :: "('s \<Rightarrow> 'e \<Rightarrow> 's) \<Rightarrow> 's \<Rightarrow> 'e list \<Rightarrow> 's" where
  "run f s [] = s"
| "run f s (e # es) = run f (f s e) es"

lemma run_append: "run f s (es @ fs) = run f (run f s es) fs"
  by (induction es arbitrary: s) auto

lemma reach_run:
  assumes "init s"
  shows "reach init (\<lambda>s e t. t = f s e) (run f s es)"
proof (induction es rule: rev_induct)
  case Nil
  show ?case using assms by (simp add: reach_init)
next
  case (snoc e es)
  then show ?case by (auto simp: run_append intro: reach_step)
qed

section \<open>Parsers over a growing receive buffer\<close>

text \<open>
  \<open>feed\<close> is the inner loop of a connection handler: parse one message off the front of
  the buffer, hand it to the handler, go on with the rest until the parser asks for more
  bytes, fails, or the handler stops. The parser answers \<open>Some (Inr (m, n))\<close> for a
  message that took \<open>n\<close> bytes, \<open>Some (Inl e)\<close> for an error and \<open>None\<close> for
  "need more bytes". The handler returns the new state and whether to go on.
\<close>

datatype ('s, 'e) fed = More (fed_state: 's) bytes | Stopped (fed_state: 's) | Failed (fed_state: 's) 'e

function feed ::
  "(bytes \<Rightarrow> ('e + 'm \<times> nat) option) \<Rightarrow> ('s \<Rightarrow> 'm \<Rightarrow> 's \<times> bool) \<Rightarrow> 's \<Rightarrow> bytes \<Rightarrow> ('s, 'e) fed"
where
  "feed p h s buf =
     (case p buf of
        None \<Rightarrow> More s buf
      | Some (Inl e) \<Rightarrow> Failed s e
      | Some (Inr (m, n)) \<Rightarrow>
          (let (s', go) = h s m in
           if \<not> go then Stopped s'
           else if n = 0 \<or> length buf < n then More s' buf
           else feed p h s' (drop n buf)))"
  by pat_completeness auto
termination
  by (relation "measure (\<lambda>(p, h, s, buf). length buf)") auto

declare feed.simps [simp del]

text \<open>The outer loop: append each received chunk to the buffer and feed it.\<close>

fun feed_chunks ::
  "(bytes \<Rightarrow> ('e + 'm \<times> nat) option) \<Rightarrow> ('s \<Rightarrow> 'm \<Rightarrow> 's \<times> bool) \<Rightarrow> ('s, 'e) fed \<Rightarrow> bytes list
   \<Rightarrow> ('s, 'e) fed"
where
  "feed_chunks p h r [] = r"
| "feed_chunks p h (More s buf) (c # cs) = feed_chunks p h (feed p h s (buf @ c)) cs"
| "feed_chunks p h r (c # cs) = r"

locale prefix_parser =
  fixes p :: "bytes \<Rightarrow> ('e + 'm \<times> nat) option"
  assumes consumes: "p buf = Some (Inr (m, n)) \<Longrightarrow> 0 < n \<and> n \<le> length buf"
    and stable: "p buf = Some r \<Longrightarrow> p (buf @ more) = Some r"
begin

text \<open>Under the contract the loop always advances inside the buffer: the guard of \<open>feed\<close>
  that keeps it total never fires.\<close>

lemma feed_unfold:
  "feed p h s buf =
     (case p buf of
        None \<Rightarrow> More s buf
      | Some (Inl e) \<Rightarrow> Failed s e
      | Some (Inr (m, n)) \<Rightarrow>
          (case h s m of (s', go) \<Rightarrow> if go then feed p h s' (drop n buf) else Stopped s'))"
proof (cases "p buf")
  case (Some r)
  show ?thesis
  proof (cases r)
    case (Inr mn)
    then obtain m n where mn: "r = Inr (m, n)" by (cases mn) auto
    with Some consumes have "0 < n" "n \<le> length buf" by auto
    with Some mn show ?thesis
      by (simp add: feed.simps [of p h s buf] split: prod.split)
  qed (simp add: Some feed.simps [of p h s buf])
qed (simp add: feed.simps [of p h s buf])

lemma feed_induct [case_names feed]:
  assumes "\<And>s buf. (\<And>s' m n. p buf = Some (Inr (m, n)) \<Longrightarrow> P s' (drop n buf)) \<Longrightarrow> P s buf"
  shows "P s buf"
proof (induction "length buf" arbitrary: s buf rule: less_induct)
  case less
  show ?case
  proof (rule assms)
    fix s' m n assume "p buf = Some (Inr (m, n))"
    with consumes have "length (drop n buf) < length buf" by fastforce
    then show "P s' (drop n buf)" by (rule less)
  qed
qed

lemma feed_append:
  "feed p h s (buf @ c) =
     (case feed p h s buf of More s' rest \<Rightarrow> feed p h s' (rest @ c) | r \<Rightarrow> r)"
proof (induction s buf rule: feed_induct)
  case (feed s buf)
  show ?case
  proof (cases "p buf")
    case None
    then show ?thesis by (simp add: feed_unfold [of h s buf])
  next
    case (Some r)
    then have more: "p (buf @ c) = Some r" by (rule stable)
    show ?thesis
    proof (cases r)
      case (Inl e)
      with Some more show ?thesis
        by (simp add: feed_unfold [of h s buf] feed_unfold [of h s "buf @ c"])
    next
      case (Inr mn)
      obtain m n where mn: "mn = (m, n)" by force
      with Some Inr consumes have n: "n \<le> length buf" by simp
      obtain s' go where h: "h s m = (s', go)" by force
      from Some Inr mn have IH: "feed p h s' (drop n buf @ c) =
          (case feed p h s' (drop n buf) of More s' rest \<Rightarrow> feed p h s' (rest @ c) | r \<Rightarrow> r)"
        by (intro feed) simp
      from Some more Inr mn h n IH show ?thesis
        by (simp add: feed_unfold [of h s buf] feed_unfold [of h s "buf @ c"])
    qed
  qed
qed

text \<open>An invariant of the handler holds of the state the loop ends in, however it ends.\<close>

lemma feed_invariant:
  assumes "I s"
    and "\<And>s m n b s' go. I s \<Longrightarrow> p b = Some (Inr (m, n)) \<Longrightarrow> h s m = (s', go) \<Longrightarrow> I s'"
  shows "I (fed_state (feed p h s buf))"
  using assms(1)
proof (induction s buf rule: feed_induct)
  case (feed s buf)
  show ?case
  proof (cases "p buf")
    case (Some r)
    show ?thesis
    proof (cases r)
      case (Inr mn)
      obtain m n where mn: "mn = (m, n)" by force
      obtain s' go where h: "h s m = (s', go)" by force
      have "I s'" by (rule assms(2) [OF feed.prems _ h]) (use Some Inr mn in simp)
      with feed.IH Some Inr mn h show ?thesis by (simp add: feed_unfold [of h s buf])
    qed (use Some feed.prems in \<open>simp add: feed_unfold [of h s buf]\<close>)
  qed (use feed.prems in \<open>simp add: feed_unfold [of h s buf]\<close>)
qed

text \<open>How the network cuts the byte stream into reads does not matter.\<close>

lemma feed_chunks_concat:
  "feed_chunks p h (feed p h s buf) cs = feed p h s (buf @ concat cs)"
proof (induction cs arbitrary: s buf)
  case Nil
  show ?case by simp
next
  case (Cons c cs)
  show ?case
  proof (cases "feed p h s buf")
    case (More s' rest)
    then have "feed p h s (buf @ c @ concat cs) = feed p h s' (rest @ c @ concat cs)"
      by (simp add: feed_append [of h s buf])
    with More Cons [of s' "rest @ c"] show ?thesis by simp
  next
    case (Stopped s')
    then show ?thesis by (simp add: feed_append [of h s buf])
  next
    case (Failed s' e)
    then show ?thesis by (simp add: feed_append [of h s buf])
  qed
qed

end

section \<open>Codecs that leave a remainder\<close>

text \<open>
  An encoder and a decoder that reads one value off the front of a byte stream and
  returns the rest. The law is the one-value round trip; the client's lemma is the round
  trip of a whole sequence.
\<close>

fun decode_all :: "(bytes \<Rightarrow> ('a \<times> bytes) option) \<Rightarrow> nat \<Rightarrow> bytes \<Rightarrow> 'a list option" where
  "decode_all d fuel [] = Some []"
| "decode_all d 0 (b # bs) = None"
| "decode_all d (Suc fuel) (b # bs) =
     (case d (b # bs) of None \<Rightarrow> None
      | Some (x, rest) \<Rightarrow> map_option ((#) x) (decode_all d fuel rest))"

locale stream_codec =
  fixes enc :: "'a \<Rightarrow> bytes"
    and dec :: "bytes \<Rightarrow> ('a \<times> bytes) option"
    and valid :: "'a \<Rightarrow> bool"
  assumes dec_enc: "valid x \<Longrightarrow> dec (enc x @ rest) = Some (x, rest)"
    and enc_nonempty: "valid x \<Longrightarrow> enc x \<noteq> []"
begin

lemma decode_all_enc:
  "\<forall>x\<in>set xs. valid x \<Longrightarrow> length xs \<le> fuel
   \<Longrightarrow> decode_all dec fuel (concat (map enc xs)) = Some xs"
proof (induction xs arbitrary: fuel)
  case Nil
  then show ?case by (cases fuel) simp_all
next
  case (Cons x xs)
  then obtain f where f: "fuel = Suc f" "length xs \<le> f" by (cases fuel) auto
  from Cons.prems enc_nonempty obtain b bs where e: "enc x = b # bs"
    by (cases "enc x") auto
  from Cons.prems have "dec (enc x @ concat (map enc xs)) = Some (x, concat (map enc xs))"
    by (simp add: dec_enc)
  with Cons f e show ?case by simp
qed

end

end
