(* ===== verification/Bucket.thy ===== *)
theory Bucket
  imports Prelude
begin

text \<open>
  The contract that the two token buckets of the proxy share: the HTTP rate limiter
  (\<open>src/rate_limit.rs\<close>) and the reconnect budget (\<open>src/reconnect_budget.rs\<close>). A bucket has
  a level and a capacity; refilling never takes tokens away, spending takes exactly one
  and earning gives back at most one. Times and durations are nanoseconds.
\<close>

type_synonym time = nat

abbreviation ns_per_sec :: nat where "ns_per_sec \<equiv> 1000000000"
abbreviation ns_per_ms :: nat where "ns_per_ms \<equiv> 1000000"

definition secs :: "nat \<Rightarrow> nat" where
  "secs n = n * ns_per_sec"

text \<open>\<open>Duration::as_secs\<close> drops the fraction.\<close>

definition as_secs :: "nat \<Rightarrow> nat" where
  "as_secs d = d div ns_per_sec"

lemma as_secs_mono: "a \<le> b \<Longrightarrow> as_secs a \<le> as_secs b"
  by (simp add: as_secs_def div_le_mono)

datatype bucket_op = Refill time | Spend | Earn

fun bucket_step ::
  "(time \<Rightarrow> 'b \<Rightarrow> 'b outcome) \<Rightarrow> ('b \<Rightarrow> 'b) \<Rightarrow> ('b \<Rightarrow> 'b) \<Rightarrow> ('b \<Rightarrow> nat) \<Rightarrow> 'b \<Rightarrow> bucket_op \<Rightarrow> 'b outcome"
where
  "bucket_step refill spend earn level b (Refill t) = refill t b"
| "bucket_step refill spend earn level b Spend =
     (if 0 < level b then Ret (spend b) else Ret b)"
| "bucket_step refill spend earn level b Earn = Ret (earn b)"

fun bucket_run ::
  "(time \<Rightarrow> 'b \<Rightarrow> 'b outcome) \<Rightarrow> ('b \<Rightarrow> 'b) \<Rightarrow> ('b \<Rightarrow> 'b) \<Rightarrow> ('b \<Rightarrow> nat) \<Rightarrow> 'b \<Rightarrow> bucket_op list
   \<Rightarrow> 'b outcome"
where
  "bucket_run refill spend earn level b [] = Ret b"
| "bucket_run refill spend earn level b (x # xs) =
     obind (bucket_step refill spend earn level b x)
       (\<lambda>b'. bucket_run refill spend earn level b' xs)"

locale token_bucket =
  fixes ok :: "'b \<Rightarrow> bool"
    and level :: "'b \<Rightarrow> nat"
    and cap :: "'b \<Rightarrow> nat"
    and refill :: "time \<Rightarrow> 'b \<Rightarrow> 'b outcome"
    and spend :: "'b \<Rightarrow> 'b"
    and earn :: "'b \<Rightarrow> 'b"
  assumes level_le_cap: "ok b \<Longrightarrow> level b \<le> cap b"
    and refill_law: "ok b \<Longrightarrow>
          \<exists>b'. refill t b = Ret b' \<and> ok b' \<and> cap b' = cap b \<and> level b \<le> level b'"
    and spend_law: "ok b \<Longrightarrow> 0 < level b \<Longrightarrow>
          ok (spend b) \<and> cap (spend b) = cap b \<and> level (spend b) = level b - 1"
    and earn_law: "ok b \<Longrightarrow>
          ok (earn b) \<and> cap (earn b) = cap b \<and> level (earn b) = min (cap b) (level b + 1)"
begin

lemma step_ok:
  assumes "ok b"
  shows "\<exists>b'. bucket_step refill spend earn level b x = Ret b' \<and> ok b' \<and> cap b' = cap b"
  using assms refill_law [OF assms] spend_law [OF assms] earn_law [OF assms]
  by (cases x) auto

lemma run_ok:
  "ok b \<Longrightarrow> \<exists>b'. bucket_run refill spend earn level b xs = Ret b' \<and> ok b' \<and> cap b' = cap b"
proof (induction xs arbitrary: b)
  case (Cons x xs)
  obtain b1 where b1: "bucket_step refill spend earn level b x = Ret b1" "ok b1" "cap b1 = cap b"
    using step_ok [OF Cons.prems, of x] by blast
  with Cons.IH [OF b1(2)] show ?case by auto
qed simp

text \<open>No sequence of operations panics or lifts the level above the capacity.\<close>

lemma run_level_le_cap:
  "ok b \<Longrightarrow> \<exists>b'. bucket_run refill spend earn level b xs = Ret b' \<and> level b' \<le> cap b"
  using run_ok [of b xs] level_le_cap by force

lemma run_spends:
  "ok b \<Longrightarrow> n \<le> level b \<Longrightarrow>
   \<exists>b'. bucket_run refill spend earn level b (replicate n Spend) = Ret b' \<and> ok b' \<and>
        level b' = level b - n"
proof (induction n arbitrary: b)
  case (Suc n)
  then have sp: "ok (spend b)" "level (spend b) = level b - 1" "0 < level b"
    using spend_law [of b] by auto
  with Suc.IH [of "spend b"] Suc.prems show ?case by auto
qed simp

end

end
