(* ===== verification/ReconnectBudget.thy ===== *)
theory ReconnectBudget
  imports Bucket
begin

text \<open>
  The reconnect budget (\<open>src/reconnect_budget.rs\<close>): a token bucket that paces WebRTC connect
  attempts. Every operation first refills from the clock, which the model takes as the
  argument \<open>now\<close>. \<open>refill\<close> divides by the period, so a zero period is a panic.
\<close>

section \<open>State and operations\<close>

record reconnect_budget =
  rb_tokens :: u32
  rb_capacity :: u32
  rb_period :: nat
  rb_last :: time

definition default_capacity :: u32 where "default_capacity = 10"
definition default_refill_period :: nat where "default_refill_period = secs (5 * 60)"

definition rb_new :: "u32 \<Rightarrow> nat \<Rightarrow> time \<Rightarrow> reconnect_budget" where
  "rb_new capacity period now =
     \<lparr>rb_tokens = capacity, rb_capacity = capacity, rb_period = period, rb_last = now\<rparr>"

definition rb_default :: "time \<Rightarrow> reconnect_budget" where
  "rb_default now = rb_new default_capacity default_refill_period now"

definition rb_refill :: "time \<Rightarrow> reconnect_budget \<Rightarrow> reconnect_budget outcome" where
  "rb_refill now b =
     (if rb_capacity b \<le> rb_tokens b then Ret (b\<lparr>rb_last := now\<rparr>)
      else if rb_period b = 0 then Panic
      else
        let earned = (now - rb_last b) div rb_period b in
        if earned = 0 then Ret b
        else
          let earned32 = (word_of_nat (min earned (unat (rb_capacity b))) :: u32);
              b1 = b\<lparr>rb_tokens := min (rb_tokens b + earned32) (rb_capacity b)\<rparr>
          in if rb_capacity b1 \<le> rb_tokens b1 then Ret (b1\<lparr>rb_last := now\<rparr>)
             else Ret (b1\<lparr>rb_last := rb_last b1 + rb_period b * unat earned32\<rparr>))"

definition rb_wait_time :: "time \<Rightarrow> reconnect_budget \<Rightarrow> (nat \<times> reconnect_budget) outcome" where
  "rb_wait_time now b =
     obind (rb_refill now b) (\<lambda>b1.
       if 0 < rb_tokens b1 then Ret (0, b1)
       else Ret (rb_period b1 - (now - rb_last b1), b1))"

definition rb_earn :: "reconnect_budget \<Rightarrow> reconnect_budget" where
  "rb_earn b = b\<lparr>rb_tokens := min (rb_tokens b + 1) (rb_capacity b)\<rparr>"

definition rb_spend :: "reconnect_budget \<Rightarrow> reconnect_budget" where
  "rb_spend b = b\<lparr>rb_tokens := sat_sub (rb_tokens b) 1\<rparr>"

definition rb_record_success :: "time \<Rightarrow> reconnect_budget \<Rightarrow> reconnect_budget outcome" where
  "rb_record_success now b = obind (rb_refill now b) (\<lambda>b1. Ret (rb_earn b1))"

definition rb_record_failure :: "time \<Rightarrow> reconnect_budget \<Rightarrow> reconnect_budget outcome" where
  "rb_record_failure now b = obind (rb_refill now b) (\<lambda>b1. Ret (rb_spend b1))"

definition rb_read_tokens :: "time \<Rightarrow> reconnect_budget \<Rightarrow> (u32 \<times> reconnect_budget) outcome" where
  "rb_read_tokens now b = obind (rb_refill now b) (\<lambda>b1. Ret (rb_tokens b1, b1))"

section \<open>Well-formedness\<close>

text \<open>The capacity is small enough that \<open>tokens + earned\<close> and \<open>tokens + 1\<close> do not wrap.\<close>

definition rb_ok :: "reconnect_budget \<Rightarrow> bool" where
  "rb_ok b \<longleftrightarrow> unat (rb_tokens b) \<le> unat (rb_capacity b) \<and> 0 < rb_period b \<and>
              2 * unat (rb_capacity b) < 2 ^ 32"

abbreviation rb_level :: "reconnect_budget \<Rightarrow> nat" where
  "rb_level b \<equiv> unat (rb_tokens b)"

abbreviation rb_cap :: "reconnect_budget \<Rightarrow> nat" where
  "rb_cap b \<equiv> unat (rb_capacity b)"

lemma rb_ok_new: "0 < period \<Longrightarrow> 2 * unat capacity < 2 ^ 32 \<Longrightarrow> rb_ok (rb_new capacity period now)"
  by (simp add: rb_ok_def rb_new_def)

lemma rb_ok_default [simp]: "rb_ok (rb_default now)"
  by (simp add: rb_default_def default_capacity_def default_refill_period_def secs_def rb_ok_new)

text \<open>The refill on natural numbers: \<open>k\<close> whole periods are credited, capped.\<close>

lemma rb_refill_cases:
  assumes "rb_ok b"
  obtains
    (full) "rb_level b = rb_cap b" "rb_refill now b = Ret (b\<lparr>rb_last := now\<rparr>)"
  | (none) "rb_level b < rb_cap b" "now - rb_last b < rb_period b" "rb_refill now b = Ret b"
  | (top) b' where "rb_level b < rb_cap b" "rb_refill now b = Ret b'" "rb_ok b'"
      "rb_level b' = rb_cap b" "rb_capacity b' = rb_capacity b" "rb_period b' = rb_period b"
      "rb_last b' = now" "rb_cap b \<le> rb_level b + (now - rb_last b) div rb_period b"
  | (part) b' k where "rb_level b < rb_cap b" "rb_refill now b = Ret b'" "rb_ok b'"
      "k = (now - rb_last b) div rb_period b" "0 < k" "rb_level b' = rb_level b + k"
      "rb_level b' < rb_cap b" "rb_capacity b' = rb_capacity b" "rb_period b' = rb_period b"
      "rb_last b' = rb_last b + rb_period b * k"
proof -
  define k where "k = (now - rb_last b) div rb_period b"
  define e where "e = (word_of_nat (min k (rb_cap b)) :: u32)"
  define b1 where "b1 = b\<lparr>rb_tokens := min (rb_tokens b + e) (rb_capacity b)\<rparr>"
  have cap: "2 * rb_cap b < 2 ^ 32" and lev: "rb_level b \<le> rb_cap b" and P: "0 < rb_period b"
    using assms by (auto simp: rb_ok_def)
  have ue: "unat e = min k (rb_cap b)"
    using cap by (simp add: e_def unat_of_nat)
  have "unat (rb_tokens b + e) = rb_level b + min k (rb_cap b)"
    using cap lev ue by (simp add: unat_add_no_wrap)
  then have t1: "rb_level b1 = min (rb_level b + k) (rb_cap b)"
    by (simp add: b1_def unat_min)
  have b1 [simp]: "rb_capacity b1 = rb_capacity b" "rb_period b1 = rb_period b"
    "rb_last b1 = rb_last b" by (simp_all add: b1_def)
  have "rb_refill now b =
      (if rb_capacity b \<le> rb_tokens b then Ret (b\<lparr>rb_last := now\<rparr>)
       else if rb_period b = 0 then Panic
       else if k = 0 then Ret b
       else if rb_capacity b1 \<le> rb_tokens b1 then Ret (b1\<lparr>rb_last := now\<rparr>)
       else Ret (b1\<lparr>rb_last := rb_last b1 + rb_period b * unat e\<rparr>))"
    unfolding rb_refill_def Let_def k_def e_def b1_def ..
  then have unfold: "rb_refill now b =
      (if rb_cap b \<le> rb_level b then Ret (b\<lparr>rb_last := now\<rparr>)
       else if k = 0 then Ret b
       else if rb_cap b \<le> rb_level b1 then Ret (b1\<lparr>rb_last := now\<rparr>)
       else Ret (b1\<lparr>rb_last := rb_last b + rb_period b * unat e\<rparr>))"
    using P by (simp add: word_le_nat_alt)
  consider "rb_cap b \<le> rb_level b" | "rb_level b < rb_cap b" "k = 0"
    | "rb_level b < rb_cap b" "k \<noteq> 0" "rb_cap b \<le> rb_level b + k"
    | "rb_level b < rb_cap b" "k \<noteq> 0" "rb_level b + k < rb_cap b"
    by linarith
  then show thesis
  proof cases
    case 1
    with lev unfold show ?thesis by (intro full) auto
  next
    case 2
    then have "now - rb_last b < rb_period b" using P by (simp add: k_def div_eq_0_iff)
    with 2 unfold show ?thesis by (intro none) auto
  next
    case 3
    with unfold t1 cap P show ?thesis
      by (intro top [of "b1\<lparr>rb_last := now\<rparr>"]) (auto simp: rb_ok_def k_def)
  next
    case 4
    with unfold t1 ue cap P show ?thesis
      by (intro part [of "b1\<lparr>rb_last := rb_last b + rb_period b * k\<rparr>" k])
         (auto simp: rb_ok_def k_def [symmetric])
  qed
qed

lemma rb_refill_ok:
  assumes "rb_ok b"
  shows "\<exists>b'. rb_refill now b = Ret b' \<and> rb_ok b' \<and> rb_capacity b' = rb_capacity b \<and>
              rb_period b' = rb_period b \<and> rb_level b \<le> rb_level b' \<and>
              (rb_last b \<le> now \<longrightarrow> rb_last b \<le> rb_last b' \<and> rb_last b' \<le> now)"
  using assms
proof (cases rule: rb_refill_cases [OF assms, of now, case_names full none top part])
  case (part b' k)
  then have "rb_period b * k \<le> now - rb_last b"
    by (simp add: times_div_less_eq_dividend)
  then have "rb_last b \<le> now \<Longrightarrow> rb_last b' \<le> now" using part(10) by linarith
  with part(2,3,6,8,9,10) show ?thesis by simp
qed (use assms in \<open>auto simp: rb_ok_def\<close>)

interpretation budget: token_bucket rb_ok rb_level rb_cap rb_refill rb_spend rb_earn
proof unfold_locales
  fix b :: reconnect_budget and t
  assume ok: "rb_ok b"
  then show "rb_level b \<le> rb_cap b" by (simp add: rb_ok_def)
  from rb_refill_ok [OF ok, of t]
  show "\<exists>b'. rb_refill t b = Ret b' \<and> rb_ok b' \<and> rb_cap b' = rb_cap b \<and> rb_level b \<le> rb_level b'"
    by auto
  have "unat (rb_tokens b + 1) = rb_level b + 1"
    using ok by (subst unat_add_no_wrap) (auto simp: rb_ok_def)
  then show "rb_ok (rb_earn b) \<and> rb_cap (rb_earn b) = rb_cap b \<and>
      rb_level (rb_earn b) = min (rb_cap b) (rb_level b + 1)"
    using ok by (auto simp: rb_earn_def rb_ok_def unat_min)
  show "rb_ok (rb_spend b) \<and> rb_cap (rb_spend b) = rb_cap b \<and> rb_level (rb_spend b) = rb_level b - 1"
    using ok by (auto simp: rb_spend_def rb_ok_def unat_sat_sub)
qed

section \<open>Pacing\<close>

text \<open>
  The time value of a bucket at \<open>now\<close>: a token is worth one period, and progress towards
  the next one is worth the time since the refill clock was last advanced. Refilling never
  creates value, a failure destroys one period of it, a success adds at most one.
\<close>

definition rb_value :: "reconnect_budget \<Rightarrow> time \<Rightarrow> nat" where
  "rb_value b now =
     rb_level b * rb_period b + (if rb_level b < rb_cap b then now - rb_last b else 0)"

lemma rb_value_later: "now \<le> now' \<Longrightarrow> rb_value b now' \<le> rb_value b now + (now' - now)"
  by (auto simp: rb_value_def)

lemma rb_refill_value:
  assumes ok: "rb_ok b" and "rb_last b \<le> now" and r: "rb_refill now b = Ret b'"
  shows "rb_value b' now \<le> rb_value b now"
  using ok
proof (cases rule: rb_refill_cases [OF ok, of now, case_names full none top part])
  case (top b1)
  let ?P = "rb_period b" and ?k = "(now - rb_last b) div rb_period b"
  have "rb_cap b * ?P \<le> (rb_level b + ?k) * ?P"
    using top(8) by (rule mult_le_mono1)
  also have "\<dots> \<le> rb_level b * ?P + (now - rb_last b)"
    by (simp add: add_mult_distrib)
  finally show ?thesis using top r by (simp add: rb_value_def)
next
  case (part b1 k)
  let ?P = "rb_period b"
  have le: "?P * k \<le> now - rb_last b"
    by (simp add: part(4) times_div_less_eq_dividend)
  have "rb_value b1 now = (rb_level b + k) * ?P + (now - (rb_last b + ?P * k))"
    using part by (simp add: rb_value_def)
  also have "\<dots> = rb_level b * ?P + (now - rb_last b)"
    using le \<open>rb_last b \<le> now\<close> by (simp add: algebra_simps)
  finally show ?thesis using part r by (simp add: rb_value_def)
qed (use r in \<open>auto simp: rb_value_def\<close>)

lemma rb_refill_full_clock:
  assumes ok: "rb_ok b" and r: "rb_refill now b = Ret b'" and "rb_level b' = rb_cap b'"
  shows "rb_last b' = now"
  using ok
  by (cases rule: rb_refill_cases [OF ok, of now, case_names full none top part])
     (use assms in auto)

lemma rb_spend_value:
  assumes ok: "rb_ok b" and r: "rb_refill now b = Ret b'" and t: "0 < rb_level b'"
  shows "rb_value (rb_spend b') now + rb_period b = rb_value b' now"
proof -
  from rb_refill_ok [OF ok, of now] r have ok': "rb_ok b'" and P: "rb_period b' = rb_period b"
    by auto
  obtain n where n: "rb_level b' = Suc n" using t by (cases "rb_level b'") auto
  have lev: "rb_level (rb_spend b') = n" "rb_cap (rb_spend b') = rb_cap b'"
    "rb_period (rb_spend b') = rb_period b" "rb_last (rb_spend b') = rb_last b'"
    using n P by (simp_all add: rb_spend_def unat_sat_sub)
  have "Suc n \<le> rb_cap b'" using ok' n by (simp add: rb_ok_def)
  moreover have "rb_level b' = rb_cap b' \<Longrightarrow> rb_last b' = now"
    by (rule rb_refill_full_clock [OF ok r])
  ultimately show ?thesis
    using n lev P by (auto simp: rb_value_def)
qed

lemma rb_earn_value:
  assumes ok: "rb_ok b"
  shows "rb_value (rb_earn b) now \<le> rb_value b now + rb_period b"
proof -
  have "rb_level (rb_earn b) = min (rb_cap b) (rb_level b + 1)" "rb_cap (rb_earn b) = rb_cap b"
    using budget.earn_law [OF ok] by auto
  moreover have "rb_period (rb_earn b) = rb_period b" "rb_last (rb_earn b) = rb_last b"
    by (simp_all add: rb_earn_def)
  moreover have "rb_level b \<le> rb_cap b" using ok by (simp add: rb_ok_def)
  moreover from this have "rb_level b < rb_cap b \<Longrightarrow> min (rb_cap b) (rb_level b + 1) = Suc (rb_level b)"
    by simp
  ultimately show ?thesis
    by (cases "rb_level b = rb_cap b") (simp_all add: rb_value_def)
qed

text \<open>
  A history of connect attempts: at each time the outcome of an attempt is charged. The
  attempt is admissible when \<open>wait_time\<close> is zero at that moment, as \<open>subscribe\<close> checks and
  as the watchdog's sleep ensures.
\<close>

datatype attempt = Attempt (att_at: time) (succeeded: bool)

definition rb_charge :: "attempt \<Rightarrow> reconnect_budget \<Rightarrow> reconnect_budget outcome" where
  "rb_charge a b =
     (if succeeded a then rb_record_success (att_at a) b else rb_record_failure (att_at a) b)"

fun rb_history :: "reconnect_budget \<Rightarrow> time \<Rightarrow> attempt list \<Rightarrow> reconnect_budget outcome" where
  "rb_history b t [] = Ret b"
| "rb_history b t (a # as) = obind (rb_charge a b) (\<lambda>b'. rb_history b' (att_at a) as)"

fun admissible :: "reconnect_budget \<Rightarrow> time \<Rightarrow> attempt list \<Rightarrow> bool" where
  "admissible b t [] = True"
| "admissible b t (a # as) =
     (t \<le> att_at a \<and>
      (case rb_wait_time (att_at a) b of Ret (w, b1) \<Rightarrow> w = 0 \<and> 0 < rb_level b1 | Panic \<Rightarrow> False) \<and>
      (case rb_charge a b of Ret b' \<Rightarrow> admissible b' (att_at a) as | Panic \<Rightarrow> False))"

abbreviation failures :: "attempt list \<Rightarrow> nat" where
  "failures as \<equiv> length (filter (\<lambda>a. \<not> succeeded a) as)"

abbreviation successes :: "attempt list \<Rightarrow> nat" where
  "successes as \<equiv> length (filter succeeded as)"

lemma rb_charge_value:
  assumes ok: "rb_ok b" and last: "rb_last b \<le> att_at a"
    and w: "rb_wait_time (att_at a) b = Ret (0, b0)" "0 < rb_level b0"
  obtains b' where "rb_charge a b = Ret b'" "rb_ok b'" "rb_last b' \<le> att_at a"
    "rb_period b' = rb_period b" "rb_capacity b' = rb_capacity b"
    "rb_value b' (att_at a) + (if succeeded a then 0 else rb_period b)
       \<le> rb_value b (att_at a) + (if succeeded a then rb_period b else 0)"
proof -
  obtain b1 where r: "rb_refill (att_at a) b = Ret b1" and ok1: "rb_ok b1"
    and k: "rb_capacity b1 = rb_capacity b" "rb_period b1 = rb_period b" "rb_last b1 \<le> att_at a"
    using rb_refill_ok [OF ok, of "att_at a"] last by auto
  have v: "rb_value b1 (att_at a) \<le> rb_value b (att_at a)"
    by (rule rb_refill_value [OF ok last r])
  have t: "0 < rb_level b1"
    using w r by (auto simp: rb_wait_time_def split: if_splits)
  have e: "rb_value (rb_earn b1) (att_at a) \<le> rb_value b1 (att_at a) + rb_period b"
    using rb_earn_value [OF ok1] k by simp
  have s: "rb_value (rb_spend b1) (att_at a) + rb_period b = rb_value b1 (att_at a)"
    by (rule rb_spend_value [OF ok r t])
  have f: "rb_last (rb_earn b1) = rb_last b1" "rb_last (rb_spend b1) = rb_last b1"
    "rb_period (rb_earn b1) = rb_period b1" "rb_period (rb_spend b1) = rb_period b1"
    "rb_capacity (rb_earn b1) = rb_capacity b1" "rb_capacity (rb_spend b1) = rb_capacity b1"
    by (simp_all add: rb_earn_def rb_spend_def)
  show ?thesis
  proof (cases "succeeded a")
    case True
    then show ?thesis
      using r k v e f budget.earn_law [OF ok1]
      by (intro that [of "rb_earn b1"]) (auto simp: rb_charge_def rb_record_success_def)
  next
    case False
    then show ?thesis
      using r k v s f t budget.spend_law [OF ok1]
      by (intro that [of "rb_spend b1"]) (auto simp: rb_charge_def rb_record_failure_def)
  qed
qed

lemma rb_history_value:
  assumes "rb_ok b" "rb_last b \<le> t" "admissible b t as" "\<forall>a\<in>set as. att_at a \<le> T" "t \<le> T"
  shows "failures as * rb_period b \<le> rb_value b t + (T - t) + successes as * rb_period b"
  using assms
proof (induction as arbitrary: b t)
  case (Cons a as)
  from Cons.prems have ta: "t \<le> att_at a" and aT: "att_at a \<le> T" by auto
  from Cons.prems(3) obtain b0 where w: "rb_wait_time (att_at a) b = Ret (0, b0)" "0 < rb_level b0"
    by (auto split: outcome.splits)
  from Cons.prems(2) ta have la: "rb_last b \<le> att_at a" by simp
  obtain b' where b': "rb_charge a b = Ret b'" "rb_ok b'" "rb_last b' \<le> att_at a"
    "rb_period b' = rb_period b"
    "rb_value b' (att_at a) + (if succeeded a then 0 else rb_period b)
       \<le> rb_value b (att_at a) + (if succeeded a then rb_period b else 0)"
    using rb_charge_value [OF Cons.prems(1) la w] by metis
  have "failures as * rb_period b'
      \<le> rb_value b' (att_at a) + (T - att_at a) + successes as * rb_period b'"
    using Cons.prems(3,4) b' aT by (intro Cons.IH) auto
  moreover have "rb_value b (att_at a) \<le> rb_value b t + (att_at a - t)"
    by (rule rb_value_later [OF ta])
  ultimately show ?case
    using b' ta aT by (auto split: if_splits)
qed simp

text \<open>The pacing law of the reconnect budget: over any admissible history of connect
  attempts, the failed ones number at most the capacity, plus one per refill period that
  has passed, plus one per successful attempt.\<close>

theorem reconnect_pacing:
  assumes "0 < period" "2 * unat capacity < 2 ^ 32"
    and "admissible (rb_new capacity period t0) t0 as"
    and "\<forall>a\<in>set as. att_at a \<le> T" "t0 \<le> T"
  shows "failures as \<le> unat capacity + (T - t0) div period + successes as"
proof -
  let ?b = "rb_new capacity period t0"
  have "failures as * period \<le> rb_value ?b t0 + (T - t0) + successes as * period"
    using rb_history_value [of ?b t0 as T] assms rb_ok_new [OF assms(1,2)]
    by (simp add: rb_new_def)
  also have "rb_value ?b t0 = unat capacity * period"
    by (simp add: rb_value_def rb_new_def)
  finally have "failures as * period \<le> (unat capacity + successes as) * period + (T - t0)"
    by (simp add: algebra_simps)
  then have "failures as \<le> ((unat capacity + successes as) * period + (T - t0)) div period"
    using assms(1) by (metis div_le_mono nonzero_mult_div_cancel_right not_gr_zero)
  also have "\<dots> = unat capacity + successes as + (T - t0) div period"
    using assms(1) by simp
  finally show ?thesis by simp
qed

theorem reconnect_pacing_witness:
  "failures [Attempt 0 False, Attempt 0 True, Attempt 0 False, Attempt 0 False, Attempt 7 False]
     \<le> unat (2 :: u32) + (7 - 0) div 5 + 1"
proof -
  let ?h = "[Attempt 0 False, Attempt 0 True, Attempt 0 False, Attempt 0 False, Attempt 7 False]"
  have "admissible (rb_new 2 5 0) 0 ?h"
    by (simp add: rb_new_def rb_wait_time_def rb_refill_def rb_charge_def rb_record_success_def
        rb_record_failure_def rb_earn_def rb_spend_def sat_sub_def min_def)
  from reconnect_pacing [OF _ _ this, of 7] show ?thesis by simp
qed

text \<open>\<open>wait_time\<close> is exact: when it answers a positive duration, an unused bucket keeps
  refusing strictly before that duration has passed and grants from that moment on.\<close>

theorem wait_time_exact:
  assumes ok: "rb_ok b" "rb_last b \<le> now" "0 < rb_cap b"
    and w: "rb_wait_time now b = Ret (w, b1)" "0 < w" and "now \<le> t"
  shows "\<exists>w' b2. rb_wait_time t b1 = Ret (w', b2) \<and> (w' = 0 \<longleftrightarrow> now + w \<le> t)"
proof -
  obtain br where r: "rb_refill now b = Ret br" and ok1: "rb_ok br"
    and l: "rb_last br \<le> now" and c: "rb_capacity br = rb_capacity b"
    using rb_refill_ok [OF ok(1), of now] ok(2) by auto
  with w have b1: "b1 = br" "\<not> 0 < rb_tokens br" "w = rb_period br - (now - rb_last br)"
    by (auto simp: rb_wait_time_def split: if_splits)
  then have z: "rb_level b1 = 0" by (simp add: word_less_nat_alt)
  have cmp: "now + w \<le> t \<longleftrightarrow> rb_period b1 \<le> t - rb_last b1"
    using b1 w(2) l \<open>now \<le> t\<close> by auto
  have ok': "rb_ok b1" using ok1 b1 by simp
  show ?thesis
    using ok'
  proof (cases rule: rb_refill_cases [OF ok', of t, case_names full none top part])
    case full
    with z b1 c ok(3) show ?thesis by simp
  next
    case none
    with z b1 cmp show ?thesis by (auto simp: rb_wait_time_def)
  next
    case (top b2)
    then have "rb_period b1 \<le> t - rb_last b1" using z by (cases "t - rb_last b1 < rb_period b1") auto
    with top cmp show ?thesis by (auto simp: rb_wait_time_def word_less_nat_alt)
  next
    case (part b2 k)
    then have "rb_period b1 \<le> t - rb_last b1" by (cases "t - rb_last b1 < rb_period b1") auto
    with part cmp show ?thesis by (auto simp: rb_wait_time_def word_less_nat_alt)
  qed
qed

theorem wait_time_exact_witness:
  "\<exists>w' b2. rb_wait_time 300 (\<lparr>rb_tokens = 0, rb_capacity = 3, rb_period = 300, rb_last = 0\<rparr>)
     = Ret (w', b2) \<and> (w' = 0 \<longleftrightarrow> (100::nat) + 200 \<le> 300)"
proof -
  let ?b = "\<lparr>rb_tokens = 0, rb_capacity = 3, rb_period = 300, rb_last = 0\<rparr>"
  have ok: "rb_ok ?b" "rb_last ?b \<le> 100" "0 < rb_cap ?b" by (simp_all add: rb_ok_def)
  have w: "rb_wait_time 100 ?b = Ret (200, ?b)"
    by (simp add: rb_wait_time_def rb_refill_def)
  show ?thesis using wait_time_exact [OF ok w, of 300] by simp
qed

end
