(* ===== verification/Backoff.thy ===== *)
theory Backoff
  imports Complex_Main Bucket
begin

text \<open>
  The capped exponential backoff (\<open>src/backoff.rs\<close>). The delay is computed in \<open>f64\<close>:
  finite doubles are rationals, and a multiplication is the exact product followed by a
  rounding \<open>rnd\<close>, which is a parameter of the model. What the code relies on is
  \<open>f64_rounding\<close>: IEEE 754 rounding is monotone and leaves integers below 2^53 alone.
  The jitter is the random factor drawn from \<open>0.8..=1.2\<close>.
\<close>

record exp_backoff =
  eb_attempt :: u32
  eb_base_secs :: "nat list"
  eb_cap_secs :: nat

definition eb_new :: exp_backoff where
  "eb_new = \<lparr>eb_attempt = 0, eb_base_secs = [1, 2, 4, 8, 16], eb_cap_secs = 30\<rparr>"

definition eb_reset :: "exp_backoff \<Rightarrow> exp_backoff" where
  "eb_reset b = b\<lparr>eb_attempt := 0\<rparr>"

definition eb_raw :: "exp_backoff \<Rightarrow> nat" where
  "eb_raw b = (if unat (eb_attempt b) < length (eb_base_secs b)
               then eb_base_secs b ! unat (eb_attempt b) else eb_cap_secs b)"

definition eb_next_delay :: "(rat \<Rightarrow> rat) \<Rightarrow> rat \<Rightarrow> exp_backoff \<Rightarrow> nat \<times> exp_backoff" where
  "eb_next_delay rnd jitter b =
     (let raw = eb_raw b;
          ms = nat \<lfloor>rnd (rnd (of_nat raw * 1000) * jitter)\<rfloor>
      in (ms * ns_per_ms, b\<lparr>eb_attempt := sat_add (eb_attempt b) 1\<rparr>))"

definition f64_rounding :: "(rat \<Rightarrow> rat) \<Rightarrow> bool" where
  "f64_rounding rnd \<longleftrightarrow>
     (\<forall>x y. x \<le> y \<longrightarrow> rnd x \<le> rnd y) \<and> (\<forall>n::nat. n < 2 ^ 53 \<longrightarrow> rnd (of_nat n) = of_nat n)"

text \<open>The schedule of the module comment: 1, 2, 4, 8, 16, then 30 seconds.\<close>

fun eb_schedule :: "nat \<Rightarrow> nat" where
  "eb_schedule n = (if n < 5 then 2 ^ n else 30)"

text \<open>The state after \<open>length js\<close> calls, each with its own jitter.\<close>

definition eb_after :: "(rat \<Rightarrow> rat) \<Rightarrow> rat list \<Rightarrow> exp_backoff \<Rightarrow> exp_backoff" where
  "eb_after rnd js b = fold (\<lambda>j b. snd (eb_next_delay rnd j b)) js b"

lemma eb_next_state:
  "snd (eb_next_delay rnd j b) = b\<lparr>eb_attempt := sat_add (eb_attempt b) 1\<rparr>"
  by (simp add: eb_next_delay_def Let_def)

lemma unat_sat_add1: "unat (sat_add a 1) = min (Suc (unat a)) (2 ^ 32 - 1)"
  for a :: u32
proof (cases "2 ^ 32 \<le> unat a + 1")
  case True
  have "unat a < 2 ^ 32" using unsigned_less [of a] by simp
  with True have "unat a = 2 ^ 32 - 1" by simp
  moreover have "unat (- 1 :: u32) = 2 ^ 32 - 1"
    by (simp add: unsigned_minus_1_eq_mask mask_eq_exp_minus_1)
  ultimately show ?thesis by (simp add: sat_add_def)
next
  case False
  then show ?thesis by (simp add: sat_add_def unat_add_no_wrap)
qed

lemma eb_after_Cons:
  "eb_after rnd (j # js) b = eb_after rnd js (b\<lparr>eb_attempt := sat_add (eb_attempt b) 1\<rparr>)"
  by (simp add: eb_after_def eb_next_state)

lemma eb_after_fields:
  "eb_base_secs (eb_after rnd js b) = eb_base_secs b"
  "eb_cap_secs (eb_after rnd js b) = eb_cap_secs b"
  by (induction js arbitrary: b) (simp_all add: eb_after_Cons, simp_all add: eb_after_def)

lemma eb_after_attempt:
  "unat (eb_attempt (eb_after rnd js b)) = min (unat (eb_attempt b) + length js) (2 ^ 32 - 1)"
proof (induction js arbitrary: b)
  case Nil
  have "unat (eb_attempt b) < 2 ^ 32" using unsigned_less [of "eb_attempt b"] by simp
  then show ?case by (simp add: eb_after_def)
next
  case (Cons j js)
  show ?case by (simp add: eb_after_Cons Cons.IH unat_sat_add1)
qed

lemma less_five: "n < 5 \<Longrightarrow> n = 0 \<or> n = 1 \<or> n = 2 \<or> n = 3 \<or> n = (4::nat)"
  by arith

lemma eb_raw_after: "eb_raw (eb_after rnd js eb_new) = eb_schedule (length js)"
proof -
  let ?b = "eb_after rnd js eb_new"
  have a: "unat (eb_attempt ?b) = min (length js) (2 ^ 32 - 1)"
    by (simp add: eb_after_attempt eb_new_def)
  have base: "eb_base_secs ?b = [1, 2, 4, 8, 16]" "eb_cap_secs ?b = 30"
    by (simp_all add: eb_after_fields eb_new_def)
  show ?thesis
  proof (cases "length js < 5")
    case True
    with a base less_five [OF True] show ?thesis by (auto simp: eb_raw_def)
  next
    case False
    with a base show ?thesis by (simp add: eb_raw_def)
  qed
qed

lemma f64_delay_bounds:
  assumes f: "f64_rounding rnd" and j: "8 / 10 \<le> j" "j \<le> 12 / 10" and raw: "raw \<le> 30"
  shows "800 * raw \<le> nat \<lfloor>rnd (rnd (of_nat raw * 1000) * j)\<rfloor>"
    and "nat \<lfloor>rnd (rnd (of_nat raw * 1000) * j)\<rfloor> \<le> 1200 * raw"
proof -
  have ex: "rnd (of_nat n) = of_nat n" if "n \<le> 36000" for n
    using f that by (simp add: f64_rounding_def)
  have mono: "rnd x \<le> rnd y" if "x \<le> y" for x y
    using f that by (simp add: f64_rounding_def)
  have m: "rnd (of_nat raw * 1000) = of_nat (raw * 1000)"
    using ex [of "raw * 1000"] raw by simp
  have "of_nat (800 * raw) \<le> (of_nat (raw * 1000) :: rat) * j"
    using mult_left_mono [OF j(1), of "of_nat (raw * 1000)"] by simp
  from mono [OF this] ex [of "800 * raw"] raw m
  have lo: "of_nat (800 * raw) \<le> rnd (rnd (of_nat raw * 1000) * j)" by simp
  have "(of_nat (raw * 1000) :: rat) * j \<le> of_nat (1200 * raw)"
    using mult_left_mono [OF j(2), of "of_nat (raw * 1000)"] by simp
  from mono [OF this] ex [of "1200 * raw"] raw m
  have hi: "rnd (rnd (of_nat raw * 1000) * j) \<le> of_nat (1200 * raw)" by simp
  show "800 * raw \<le> nat \<lfloor>rnd (rnd (of_nat raw * 1000) * j)\<rfloor>"
    using lo by (simp add: le_nat_iff le_floor_iff)
  show "nat \<lfloor>rnd (rnd (of_nat raw * 1000) * j)\<rfloor> \<le> 1200 * raw"
    using hi by (simp add: nat_le_iff floor_le_iff)
qed

text \<open>The delay after any number of earlier calls since the last reset lies within 20
  percent of the documented schedule, whatever jitters were drawn and however \<open>f64\<close> rounds.\<close>

theorem backoff_delay_bounds:
  assumes "f64_rounding rnd" "8 / 10 \<le> j" "j \<le> 12 / 10"
  shows "eb_schedule (length js) * 800 * ns_per_ms
           \<le> fst (eb_next_delay rnd j (eb_after rnd js (eb_reset eb_new)))
       \<and> fst (eb_next_delay rnd j (eb_after rnd js (eb_reset eb_new)))
           \<le> eb_schedule (length js) * 1200 * ns_per_ms"
proof -
  let ?raw = "eb_schedule (length js)"
  have "?raw \<le> 30"
  proof (cases "length js < 5")
    case True
    from less_five [OF True] show ?thesis by auto
  qed simp
  then have b: "800 * ?raw \<le> nat \<lfloor>rnd (rnd (of_nat ?raw * 1000) * j)\<rfloor>"
    "nat \<lfloor>rnd (rnd (of_nat ?raw * 1000) * j)\<rfloor> \<le> 1200 * ?raw"
    by (rule f64_delay_bounds [OF assms])+
  have n: "eb_reset eb_new = eb_new" by (simp add: eb_reset_def eb_new_def)
  have d: "fst (eb_next_delay rnd j (eb_after rnd js eb_new)) =
      nat \<lfloor>rnd (rnd (of_nat ?raw * 1000) * j)\<rfloor> * ns_per_ms"
    by (simp add: eb_next_delay_def Let_def eb_raw_after del: eb_schedule.simps)
  show ?thesis
    unfolding n d using b by (simp del: eb_schedule.simps)
qed

theorem backoff_delay_bounds_witness:
  "eb_schedule 2 * 800 * ns_per_ms
     \<le> fst (eb_next_delay (\<lambda>x. x) 1 (eb_after (\<lambda>x. x) [1, 1] (eb_reset eb_new)))"
proof -
  have "f64_rounding (\<lambda>x. x)" by (simp add: f64_rounding_def)
  from backoff_delay_bounds [OF this, of 1 "[1, 1]"]
  show ?thesis by (simp del: eb_schedule.simps add: numeral_2_eq_2)
qed

end
