(* ===== verification/RateLimit.thy ===== *)
theory RateLimit
  imports Bucket
begin

text \<open>
  The rate limiter of the Prusa HTTPS calls (\<open>src/rate_limit.rs\<close>). One pass of the loop of
  \<open>acquire\<close> is \<open>rl_try_acquire\<close>; \<open>rl_acquire\<close> iterates it, sleeping for the wait it was
  told. \<open>tick\<close> divides whole seconds by the whole seconds of the period, which panics
  for a period below one second, and narrows the quotient to \<open>u32\<close>.
\<close>

section \<open>State and operations\<close>

datatype http_outcome = Success | ClientError | ServerOrNetworkError

record rate_limiter =
  rl_tokens :: u32
  rl_last :: time
  rl_cap :: u32
  rl_period :: nat

definition rl_new :: "u32 \<Rightarrow> nat \<Rightarrow> time \<Rightarrow> rate_limiter" where
  "rl_new cap period now = \<lparr>rl_tokens = cap, rl_last = now, rl_cap = cap, rl_period = period\<rparr>"

definition rl_tick :: "time \<Rightarrow> rate_limiter \<Rightarrow> rate_limiter outcome" where
  "rl_tick now l =
     (let elapsed = now - rl_last l in
      if rl_period l \<le> elapsed \<and> rl_tokens l < rl_cap l then
        if as_secs (rl_period l) = 0 then Panic
        else
          let earned = (word_of_nat (as_secs elapsed div as_secs (rl_period l)) :: u32) in
          Ret (l\<lparr>rl_tokens := min (rl_tokens l + earned) (rl_cap l), rl_last := now\<rparr>)
      else Ret l)"

datatype acquired = Granted rate_limiter | Wait nat rate_limiter

definition rl_try_acquire :: "time \<Rightarrow> rate_limiter \<Rightarrow> acquired outcome" where
  "rl_try_acquire now l =
     obind (rl_tick now l) (\<lambda>l1.
       if 0 < rl_tokens l1 then Ret (Granted (l1\<lparr>rl_tokens := rl_tokens l1 - 1\<rparr>))
       else Ret (Wait (rl_period l1 - (now - rl_last l1)) l1))"

text \<open>The loop with nobody else using the bucket; the result carries the time of the grant.
  Running out of fuel is \<open>None\<close>.\<close>

fun rl_acquire :: "nat \<Rightarrow> time \<Rightarrow> rate_limiter \<Rightarrow> (time \<times> rate_limiter) option outcome" where
  "rl_acquire 0 now l = Ret None"
| "rl_acquire (Suc fuel) now l =
     (case rl_try_acquire now l of
        Panic \<Rightarrow> Panic
      | Ret (Granted l1) \<Rightarrow> Ret (Some (now, l1))
      | Ret (Wait w l1) \<Rightarrow> rl_acquire fuel (now + w) l1)"

definition rl_refund :: "rate_limiter \<Rightarrow> rate_limiter" where
  "rl_refund l = (if rl_tokens l < rl_cap l then l\<lparr>rl_tokens := rl_tokens l + 1\<rparr> else l)"

text \<open>\<open>Permit::complete\<close>; a permit that is dropped instead counts as consumed.\<close>

definition rl_complete :: "http_outcome \<Rightarrow> rate_limiter \<Rightarrow> rate_limiter" where
  "rl_complete out l =
     (let consume = (out = ServerOrNetworkError) in if \<not> consume then rl_refund l else l)"

definition rl_drop :: "rate_limiter \<Rightarrow> rate_limiter" where
  "rl_drop l = l"

definition rl_read_tokens :: "time \<Rightarrow> rate_limiter \<Rightarrow> (u32 \<times> rate_limiter) outcome" where
  "rl_read_tokens now l = obind (rl_tick now l) (\<lambda>l1. Ret (rl_tokens l1, l1))"

section \<open>Well-formedness and the bucket contract\<close>

definition rl_ok :: "rate_limiter \<Rightarrow> bool" where
  "rl_ok l \<longleftrightarrow> unat (rl_tokens l) \<le> unat (rl_cap l) \<and> 0 < as_secs (rl_period l)"

abbreviation rl_level :: "rate_limiter \<Rightarrow> nat" where
  "rl_level l \<equiv> unat (rl_tokens l)"

definition rl_spend :: "rate_limiter \<Rightarrow> rate_limiter" where
  "rl_spend l = l\<lparr>rl_tokens := rl_tokens l - 1\<rparr>"

text \<open>\<open>rl_tick\<close> never wraps while the clock has advanced by fewer than 2^32 - cap periods
  since the last refill (8166 years for the configured minute); the contract is stated on
  such refills.\<close>

definition rl_recent :: "time \<Rightarrow> rate_limiter \<Rightarrow> bool" where
  "rl_recent now l \<longleftrightarrow>
     as_secs (now - rl_last l) div as_secs (rl_period l) + unat (rl_cap l) < 2 ^ 32"

definition rl_refill :: "time \<Rightarrow> rate_limiter \<Rightarrow> rate_limiter outcome" where
  "rl_refill now l = (if rl_recent now l then rl_tick now l else Ret l)"

lemma rl_tick_level:
  assumes ok: "rl_ok l" and rec: "rl_recent now l"
  shows "\<exists>l'. rl_tick now l = Ret l' \<and> rl_ok l' \<and> rl_cap l' = rl_cap l \<and> rl_period l' = rl_period l \<and>
     rl_level l' =
       (if rl_period l \<le> now - rl_last l
        then min (rl_level l + as_secs (now - rl_last l) div as_secs (rl_period l)) (unat (rl_cap l))
        else rl_level l) \<and>
     rl_last l' = (if rl_period l \<le> now - rl_last l \<and> rl_level l < unat (rl_cap l) then now else rl_last l)"
proof (cases "rl_period l \<le> now - rl_last l \<and> rl_tokens l < rl_cap l")
  case True
  define k where "k = as_secs (now - rl_last l) div as_secs (rl_period l)"
  have b: "k + unat (rl_cap l) < 2 ^ 32" using rec by (simp add: rl_recent_def k_def)
  then have "unat (word_of_nat k :: u32) = k" by (simp add: unat_of_nat)
  moreover have "rl_level l \<le> unat (rl_cap l)" using ok by (simp add: rl_ok_def)
  ultimately have "unat (rl_tokens l + word_of_nat k) = rl_level l + k"
    using b by (simp add: unat_add_no_wrap)
  with True ok show ?thesis
    by (simp add: rl_tick_def Let_def rl_ok_def unat_min k_def [symmetric] word_less_nat_alt)
next
  case False
  with ok show ?thesis
    by (auto simp: rl_tick_def Let_def rl_ok_def word_less_nat_alt)
qed

lemma rl_refund_level:
  assumes "rl_ok l"
  shows "rl_ok (rl_refund l) \<and> rl_cap (rl_refund l) = rl_cap l \<and>
         rl_level (rl_refund l) = min (unat (rl_cap l)) (rl_level l + 1)"
proof (cases "rl_tokens l < rl_cap l")
  case True
  then have "unat (rl_tokens l + 1) = Suc (rl_level l)" by (rule unat_Suc_no_wrap)
  with True assms show ?thesis by (simp add: rl_refund_def rl_ok_def word_less_nat_alt)
next
  case False
  with assms show ?thesis by (auto simp: rl_refund_def rl_ok_def word_less_nat_alt)
qed

interpretation limiter: token_bucket rl_ok rl_level "\<lambda>l. unat (rl_cap l)" rl_refill rl_spend rl_refund
proof unfold_locales
  fix l :: rate_limiter and t
  assume ok: "rl_ok l"
  then show "rl_level l \<le> unat (rl_cap l)" by (simp add: rl_ok_def)
  show "\<exists>l'. rl_refill t l = Ret l' \<and> rl_ok l' \<and> unat (rl_cap l') = unat (rl_cap l) \<and> rl_level l \<le> rl_level l'"
    using ok rl_tick_level [OF ok, of t] by (auto simp: rl_refill_def rl_ok_def)
  from ok show "rl_ok (rl_refund l) \<and> unat (rl_cap (rl_refund l)) = unat (rl_cap l) \<and>
      rl_level (rl_refund l) = min (unat (rl_cap l)) (rl_level l + 1)"
    using rl_refund_level [OF ok] by simp
  assume "0 < rl_level l"
  then have "unat (rl_tokens l - 1) = rl_level l - 1"
    by (simp add: unat_dec word_less_nat_alt)
  with ok show "rl_ok (rl_spend l) \<and> unat (rl_cap (rl_spend l)) = unat (rl_cap l) \<and>
      rl_level (rl_spend l) = rl_level l - 1"
    by (auto simp: rl_spend_def rl_ok_def)
qed

section \<open>Properties\<close>

text \<open>C36. A lone caller of \<open>acquire\<close> is served: on a bucket with some capacity and a period of at
  least a second, it returns without a panic, at once when the refill at that instant leaves a
  token and otherwise after one sleep, exactly at the end of the current refill period; and it
  takes one token: the bucket is left at one below what the refill at the instant of the grant
  makes of it, everything else as that refill left it.\<close>

theorem acquire_returns:
  assumes ok: "rl_ok l" and cap: "0 < rl_cap l" and "rl_last l \<le> now"
    and rec: "rl_recent (now + rl_period l) l"
  shows "\<exists>t l1 l'. rl_acquire 2 now l = Ret (Some (t, l')) \<and> rl_tick t l = Ret l1 \<and>
           t = (if 0 < rl_level l \<or> rl_period l \<le> now - rl_last l then now else rl_last l + rl_period l) \<and>
           t \<le> now + rl_period l \<and> rl_level l' + 1 = rl_level l1 \<and> l' = l1\<lparr>rl_tokens := rl_tokens l'\<rparr> \<and>
           rl_level l1 = (if rl_period l \<le> t - rl_last l
             then min (rl_level l + as_secs (t - rl_last l) div as_secs (rl_period l)) (unat (rl_cap l))
             else rl_level l)"
proof -
  have mono: "rl_recent t l" if "t \<le> now + rl_period l" for t
    using rec that unfolding rl_recent_def
    by (meson add_le_mono1 as_secs_mono diff_le_mono div_le_mono le_less_trans)
  have P: "0 < as_secs (rl_period l)" "0 < unat (rl_cap l)"
    using ok cap by (auto simp: rl_ok_def word_less_nat_alt)
  have earns: "0 < as_secs d div as_secs (rl_period l)" if "rl_period l \<le> d" for d
    using as_secs_mono [OF that] P by (simp add: div_greater_zero_iff)
  have grant: "rl_try_acquire t l = Ret (Granted (rl_spend m)) \<and> rl_level (rl_spend m) + 1 = rl_level m"
    if "rl_tick t l = Ret m" "rl_ok m" "0 < rl_level m" for t m
  proof -
    have "rl_level (rl_spend m) = rl_level m - 1" using limiter.spend_law [OF that(2,3)] by simp
    with that show ?thesis by (simp add: rl_try_acquire_def rl_spend_def word_less_nat_alt)
  qed
  show ?thesis
  proof (cases "0 < rl_level l \<or> rl_period l \<le> now - rl_last l")
    case True
    obtain m where m: "rl_tick now l = Ret m" "rl_ok m"
      "rl_level m = (if rl_period l \<le> now - rl_last l
         then min (rl_level l + as_secs (now - rl_last l) div as_secs (rl_period l)) (unat (rl_cap l))
         else rl_level l)"
      using rl_tick_level [OF ok mono, of now] by auto
    have "0 < rl_level m" using True m(3) P earns [of "now - rl_last l"] by (auto split: if_splits)
    note g = grant [OF m(1,2) this]
    then have "rl_acquire 2 now l = Ret (Some (now, rl_spend m))" by (simp add: numeral_2_eq_2)
    with True m g show ?thesis
      by (intro exI [of _ now] exI [of _ m] exI [of _ "rl_spend m"]) (simp add: rl_spend_def)
  next
    case False
    define t where "t = rl_last l + rl_period l"
    have t: "t - rl_last l = rl_period l" "t \<le> now + rl_period l" using \<open>rl_last l \<le> now\<close> by (simp_all add: t_def)
    have w: "rl_try_acquire now l = Ret (Wait (rl_period l - (now - rl_last l)) l)"
      using False by (simp add: rl_try_acquire_def rl_tick_def Let_def word_less_nat_alt)
    have sleep: "now + (rl_period l - (now - rl_last l)) = t" using False \<open>rl_last l \<le> now\<close> by (auto simp: t_def)
    obtain m where m: "rl_tick t l = Ret m" "rl_ok m"
      "rl_level m = min (rl_level l + as_secs (rl_period l) div as_secs (rl_period l)) (unat (rl_cap l))"
      using rl_tick_level [OF ok mono [OF t(2)]] t(1) by auto
    then have "0 < rl_level m" using P by simp
    note g = grant [OF m(1,2) this]
    then have "rl_acquire 2 now l = Ret (Some (t, rl_spend m))" using w sleep by (simp add: numeral_2_eq_2)
    with False m g t show ?thesis
      by (intro exI [of _ t] exI [of _ m] exI [of _ "rl_spend m"]) (simp add: rl_spend_def t_def)
  qed
qed

theorem acquire_returns_witness:
  "\<exists>l1 l'. rl_acquire 2 (secs 10) (\<lparr>rl_tokens = 0, rl_last = 0, rl_cap = 3, rl_period = secs 60\<rparr>)
       = Ret (Some (secs 60, l')) \<and> rl_level l' + 1 = rl_level l1 \<and> rl_level l1 = 1"
  using acquire_returns [of "\<lparr>rl_tokens = 0, rl_last = 0, rl_cap = 3, rl_period = secs 60\<rparr>" "secs 10"]
  by (auto simp: rl_ok_def rl_recent_def as_secs_def secs_def)

text \<open>Only server and network failures cost a token: after a granted permit, completing
  with a success or a client error restores the level the refill had left, and completing
  with a server or network error (or dropping the permit) leaves it one lower.\<close>

theorem outcome_accounting:
  assumes ok: "rl_ok l" and tick: "rl_tick now l = Ret l1" "rl_ok l1"
    and g: "rl_try_acquire now l = Ret (Granted l2)"
  shows "rl_level (rl_complete Success l2) = rl_level l1 \<and>
         rl_level (rl_complete ClientError l2) = rl_level l1 \<and>
         rl_level (rl_complete ServerOrNetworkError l2) + 1 = rl_level l1 \<and>
         rl_level (rl_drop l2) + 1 = rl_level l1"
proof -
  have pos: "0 < rl_level l1" and l2: "l2 = rl_spend l1"
    using g tick by (auto simp: rl_try_acquire_def rl_spend_def word_less_nat_alt split: if_splits)
  have s: "rl_ok l2" "rl_level l2 = rl_level l1 - 1" "rl_cap l2 = rl_cap l1"
    using limiter.spend_law [OF tick(2) pos] l2 by (auto simp: rl_spend_def)
  have "rl_level (rl_refund l2) = rl_level l1"
    using rl_refund_level [OF s(1)] s pos tick(2) by (simp add: rl_ok_def)
  with s(2) pos show ?thesis by (simp add: rl_complete_def rl_drop_def)
qed

theorem outcome_accounting_witness:
  "rl_level (rl_complete ServerOrNetworkError (\<lparr>rl_tokens = 2, rl_last = 0, rl_cap = 3, rl_period = secs 60\<rparr>)) + 1 = 3"
  using outcome_accounting [of "rl_new 3 (secs 60) 0" 0 "rl_new 3 (secs 60) 0"
      "\<lparr>rl_tokens = 2, rl_last = 0, rl_cap = 3, rl_period = secs 60\<rparr>"]
  by (simp add: rl_new_def rl_ok_def as_secs_def secs_def rl_tick_def rl_try_acquire_def)

text \<open>A permit taken and consumed at one instant.\<close>

definition rl_consume :: "time \<Rightarrow> rate_limiter \<Rightarrow> rate_limiter option" where
  "rl_consume now l =
     (case rl_try_acquire now l of
        Ret (Granted l1) \<Rightarrow> Some (rl_complete ServerOrNetworkError l1) | _ \<Rightarrow> None)"

text \<open>Idle time in front of a full bucket is banked: the bucket that has been full for one
  period grants \<open>cap + 1\<close> permits at one instant, all of them consumed, because \<open>tick\<close>
  leaves the refill clock behind while the bucket is full. (The reconnect budget restarts
  its clock instead.)\<close>

theorem full_bucket_banks_idle_time:
  "(\<exists>l. fold (\<lambda>_ m. Option.bind m (rl_consume (secs 60))) [1..<5 :: nat]
          (Some (rl_new 3 (secs 60) 0)) = Some l \<and> rl_tokens l = 0)
   \<and> fold (\<lambda>_ m. Option.bind m (rl_consume (secs 59))) [1..<5 :: nat]
          (Some (rl_new 3 (secs 60) 0)) = None"
  by (simp add: rl_new_def rl_consume_def rl_complete_def rl_try_acquire_def rl_tick_def
      Let_def secs_def as_secs_def upt_rec min_def)

section \<open>Any number of tasks\<close>

text \<open>The tasks that share the limiter: passes of \<open>acquire\<close>, completions and readings in the order
  in which they hold the lock. The run counts the permits granted.\<close>

datatype limiter_op = Acquire time | Complete http_outcome | ReadTokens time

fun rl_run :: "limiter_op list \<Rightarrow> nat \<Rightarrow> rate_limiter \<Rightarrow> (nat \<times> rate_limiter) outcome" where
  "rl_run [] n l = Ret (n, l)"
| "rl_run (Acquire t # ops) n l =
     obind (rl_try_acquire t l) (\<lambda>a. case a of
       Granted l1 \<Rightarrow> rl_run ops (n + 1) l1 | Wait w l1 \<Rightarrow> rl_run ops n l1)"
| "rl_run (Complete out # ops) n l = rl_run ops n (rl_complete out l)"
| "rl_run (ReadTokens t # ops) n l = obind (rl_read_tokens t l) (\<lambda>(_, l1). rl_run ops n l1)"

fun op_times :: "limiter_op list \<Rightarrow> time list" where
  "op_times [] = []"
| "op_times (Acquire t # ops) = t # op_times ops"
| "op_times (ReadTokens t # ops) = t # op_times ops"
| "op_times (Complete out # ops) = op_times ops"

definition refunds :: "limiter_op list \<Rightarrow> nat" where
  "refunds ops = length (filter (\<lambda>x. x = Complete Success \<or> x = Complete ClientError) ops)"

text \<open>What the bucket can still hand out, in time: overflows of the 32-bit sums only lower it.\<close>

definition rl_value :: "rate_limiter \<Rightarrow> time \<Rightarrow> nat" where
  "rl_value l T = rl_level l * secs (as_secs (rl_period l)) + (T - rl_last l)"

lemma unat_add_le: "unat (a + b) \<le> unat (a :: 'a::len word) + unat b"
  by (simp add: unat_word_ariths)

lemma rl_tick_value:
  assumes P: "0 < as_secs (rl_period l)" and t: "rl_last l \<le> t" "t \<le> T"
  shows "\<exists>l'. rl_tick t l = Ret l' \<and> rl_value l' T \<le> rl_value l T \<and> rl_last l' \<le> t \<and>
              rl_period l' = rl_period l"
proof (cases "rl_period l \<le> t - rl_last l \<and> rl_tokens l < rl_cap l")
  case True
  let ?S = "as_secs (rl_period l)" and ?e = "as_secs (t - rl_last l)"
  let ?k = "word_of_nat (?e div ?S) :: u32"
  have "unat ?k \<le> ?e div ?S" by (simp add: unat_of_nat)
  moreover have "unat (min (rl_tokens l + ?k) (rl_cap l)) \<le> rl_level l + unat ?k"
    using unat_add_le [of "rl_tokens l" ?k] by (simp add: unat_min)
  ultimately have "unat (min (rl_tokens l + ?k) (rl_cap l)) \<le> rl_level l + ?e div ?S" by linarith
  then have "unat (min (rl_tokens l + ?k) (rl_cap l)) * secs ?S \<le> rl_level l * secs ?S + (?e div ?S) * secs ?S"
    by (metis add_mult_distrib mult_le_mono1)
  moreover have "(?e div ?S) * secs ?S \<le> t - rl_last l"
  proof -
    have "(?e div ?S) * ?S \<le> ?e" by (rule div_times_less_eq_dividend)
    then have "(?e div ?S) * secs ?S \<le> secs ?e" by (simp add: secs_def)
    also have "\<dots> \<le> t - rl_last l" unfolding secs_def as_secs_def by (rule div_times_less_eq_dividend)
    finally show ?thesis .
  qed
  ultimately show ?thesis
    using True P t by (simp add: rl_tick_def Let_def rl_value_def)
qed (use t in \<open>auto simp: rl_tick_def Let_def\<close>)

lemma rl_refund_value:
  "rl_value (rl_refund l) T \<le> rl_value l T + secs (as_secs (rl_period l))"
  "rl_last (rl_refund l) = rl_last l" "rl_period (rl_refund l) = rl_period l"
  by (auto simp: rl_refund_def rl_value_def unat_Suc_no_wrap)

lemma rl_run_value:
  assumes "0 < as_secs (rl_period l)" "sorted (rl_last l # op_times ops @ [T])"
  shows "\<exists>m l'. rl_run ops n l = Ret (m, l') \<and>
     m * secs (as_secs (rl_period l)) \<le>
       n * secs (as_secs (rl_period l)) + rl_value l T + refunds ops * secs (as_secs (rl_period l))"
  using assms
proof (induction ops arbitrary: n l)
  case Nil
  then show ?case by simp
next
  case (Cons op ops)
  let ?S = "secs (as_secs (rl_period l))"
  have tick: "\<exists>l1. rl_tick t l = Ret l1 \<and> rl_value l1 T \<le> rl_value l T \<and> rl_period l1 = rl_period l \<and>
      sorted (rl_last l1 # op_times ops @ [T])"
    if t: "op = Acquire t \<or> op = ReadTokens t" for t
  proof -
    have "rl_last l \<le> t" "t \<le> T" "sorted (t # op_times ops @ [T])" using Cons.prems(2) t by auto
    with rl_tick_value [OF Cons.prems(1), of t T] show ?thesis by fastforce
  qed
  show ?case
  proof (cases op)
    case (Acquire t)
    then obtain l1 where l1: "rl_tick t l = Ret l1" "rl_value l1 T \<le> rl_value l T" "rl_period l1 = rl_period l"
      "sorted (rl_last l1 # op_times ops @ [T])"
      using tick by blast
    show ?thesis
    proof (cases "0 < rl_tokens l1")
      case True
      let ?l = "rl_spend l1"
      have "rl_level l1 = Suc (rl_level ?l)"
        using True by (simp add: rl_spend_def unat_dec word_less_nat_alt)
      then have "rl_value ?l T + ?S = rl_value l1 T"
        using l1(3) by (simp add: rl_value_def rl_spend_def)
      with Cons.IH [of ?l "n + 1"] Cons.prems(1) l1 True Acquire show ?thesis
        by (fastforce simp: rl_try_acquire_def rl_spend_def refunds_def)
    next
      case False
      with Cons.IH [of l1 n] Cons.prems(1) l1 Acquire show ?thesis
        by (fastforce simp: rl_try_acquire_def refunds_def)
    qed
  next
    case (Complete out)
    then have so: "sorted (rl_last l # op_times ops @ [T])" using Cons.prems(2) by simp
    show ?thesis
    proof (cases "out = ServerOrNetworkError")
      case True
      with Cons.IH [of l n] Cons.prems(1) so Complete show ?thesis
        by (simp add: rl_complete_def refunds_def)
    next
      case False
      then have "refunds (op # ops) = Suc (refunds ops)"
        using Complete by (cases out) (simp_all add: refunds_def)
      with Cons.IH [of "rl_refund l" n] Cons.prems(1) so Complete False rl_refund_value(1) [of l T] rl_refund_value(2,3) [of l] show ?thesis
        by (fastforce simp: rl_complete_def)
    qed
  next
    case (ReadTokens t)
    then obtain l1 where "rl_tick t l = Ret l1" "rl_value l1 T \<le> rl_value l T" "rl_period l1 = rl_period l"
      "sorted (rl_last l1 # op_times ops @ [T])"
      using tick by blast
    with Cons.IH [of l1 n] Cons.prems(1) ReadTokens show ?thesis
      by (fastforce simp: rl_read_tokens_def refunds_def)
  qed
qed

text \<open>C28. What the limiter lets through, for any number of tasks and any interleaving: it never
  panics, and from its creation to any later time the permits it has granted number at most the
  capacity, plus one per refill period that has passed (in whole seconds), plus one per request
  that ended in a success or a client error. Requests that fail on the server or the network are
  what is paced.\<close>

theorem limiter_paced:
  assumes "0 < as_secs period" "sorted (t0 # op_times ops @ [T])"
  shows "\<exists>granted l. rl_run ops 0 (rl_new cap period t0) = Ret (granted, l) \<and>
     granted \<le> unat cap + (T - t0) div secs (as_secs period) + refunds ops"
proof -
  let ?l = "rl_new cap period t0" and ?S = "secs (as_secs period)"
  have S: "0 < ?S" using assms(1) by (simp add: secs_def)
  obtain m l' where m: "rl_run ops 0 ?l = Ret (m, l')"
    "m * ?S \<le> rl_value ?l T + refunds ops * ?S"
    using rl_run_value [of ?l ops T 0] assms by (auto simp: rl_new_def)
  have "rl_value ?l T = unat cap * ?S + (T - t0)" by (simp add: rl_value_def rl_new_def)
  with m(2) have "m * ?S \<le> (unat cap + refunds ops) * ?S + (T - t0)" by (simp add: add_mult_distrib)
  then have "m \<le> ((unat cap + refunds ops) * ?S + (T - t0)) div ?S"
    using S by (metis div_le_mono nonzero_mult_div_cancel_right not_gr_zero)
  also have "\<dots> = unat cap + refunds ops + (T - t0) div ?S" using S by simp
  finally have "m \<le> unat cap + (T - t0) div ?S + refunds ops" by simp
  with m(1) show ?thesis by blast
qed

text \<open>The configured limiter, four failures in the first minute: the fourth has to wait.\<close>

definition busy_minute :: "limiter_op list" where
  "busy_minute = [Acquire 0, Acquire 0, Complete ServerOrNetworkError, Complete Success,
     Acquire 0, Acquire 0, Acquire 0, Complete ServerOrNetworkError]"

theorem limiter_paced_witness:
  "\<exists>granted l. rl_run busy_minute 0 (rl_new 3 (secs 60) 0) = Ret (granted, l) \<and>
     granted \<le> 3 + (secs 59 - 0) div secs 60 + 1 \<and> granted = 4"
proof -
  have "sorted (0 # op_times busy_minute @ [secs 59])" "refunds busy_minute = 1"
    by (simp_all add: busy_minute_def refunds_def)
  moreover have "as_secs (secs 60) = 60" by (simp add: as_secs_def secs_def)
  ultimately obtain g l where "rl_run busy_minute 0 (rl_new 3 (secs 60) 0) = Ret (g, l)"
    "g \<le> 3 + (secs 59 - 0) div secs 60 + 1"
    using limiter_paced [of "secs 60" 0 busy_minute "secs 59" 3] by auto
  moreover from this(1) have "g = 4"
    by (auto simp: busy_minute_def rl_new_def rl_try_acquire_def rl_tick_def rl_complete_def rl_refund_def
        Let_def secs_def)
  ultimately show ?thesis by blast
qed

end
