(* ===== verification/RustStr.thy ===== *)
theory RustStr
  imports Prelude
begin

text \<open>
  The string operations of the Rust standard library that the sources use, on the byte
  reading of \<open>str\<close> (one \<open>char\<close> per UTF-8 byte): \<open>split\<close>, \<open>splitn\<close>, \<open>split_once\<close>,
  \<open>rsplit_once\<close>, \<open>strip_prefix\<close>, \<open>find\<close>, \<open>contains\<close>, \<open>lines\<close>, \<open>trim\<close> and its kin,
  \<open>to_ascii_lowercase\<close>, \<open>parse\<close> on the unsigned types and their \<open>Display\<close>, and
  \<open>str::from_utf8\<close>.
\<close>

section \<open>Searching and splitting\<close>

text \<open>\<open>haystack.windows(n).position(|w| w == needle)\<close> and \<open>str::find\<close>: the first index.\<close>

fun find_sub :: "'a list \<Rightarrow> 'a list \<Rightarrow> nat option" where
  "find_sub p [] = (if p = [] then Some 0 else None)"
| "find_sub p (x # xs) =
     (if prefix p (x # xs) then Some 0 else map_option Suc (find_sub p xs))"

lemma find_sub_bound: "find_sub p s = Some i \<Longrightarrow> i + length p \<le> length s"
  by (induction s arbitrary: i) (auto split: if_splits dest: prefix_length_le)

lemma find_sub_at: "find_sub p s = Some i \<Longrightarrow> take (length p) (drop i s) = p"
proof (induction s arbitrary: i)
  case (Cons x xs)
  then show ?case
    by (auto split: if_splits simp: prefix_def)
qed (simp split: if_splits)

lemma find_sub_append: "find_sub p s = Some i \<Longrightarrow> find_sub p (s @ t) = Some i"
proof (induction s arbitrary: i)
  case Nil
  then show ?case by (cases t) (auto split: if_splits)
next
  case (Cons x xs)
  show ?case
  proof (cases "prefix p (x # xs)")
    case True
    then have "prefix p ((x # xs) @ t)" by (rule prefix_prefix)
    with Cons.prems True show ?thesis by simp
  next
    case False
    with Cons.prems obtain j where j: "find_sub p xs = Some j" "i = Suc j" by auto
    from j find_sub_bound have "length p \<le> length (x # xs)" by fastforce
    then have "\<not> prefix p (x # xs @ t)"
      using False prefix_length_prefix [of p "x # xs @ t" "x # xs"] by auto
    with j Cons.IH [OF j(1)] show ?thesis by simp
  qed
qed

definition str_contains :: "string \<Rightarrow> string \<Rightarrow> bool" where
  "str_contains s p = (find_sub p s \<noteq> None)"

text \<open>\<open>str::split(c)\<close>: always at least one piece.\<close>

fun split_on :: "char \<Rightarrow> string \<Rightarrow> string list" where
  "split_on c [] = [[]]"
| "split_on c (x # xs) =
     (if x = c then [] # split_on c xs
      else (case split_on c xs of [] \<Rightarrow> [[x]] | p # ps \<Rightarrow> (x # p) # ps))"

lemma split_on_nonempty [simp]: "split_on c s \<noteq> []"
  by (induction s) (auto split: list.splits)

lemma split_on_none: "c \<notin> set s \<Longrightarrow> split_on c s = [s]"
  by (induction s) auto

lemma split_on_append: "c \<notin> set a \<Longrightarrow> split_on c (a @ c # b) = a # split_on c b"
  by (induction a) auto

lemma hd_split_on: "hd (split_on c s) = takeWhile (\<lambda>x. x \<noteq> c) s"
  by (induction s) (auto split: list.splits)

lemma split_on_pieces: "p \<in> set (split_on c s) \<Longrightarrow> c \<notin> set p"
proof (induction s arbitrary: p)
  case (Cons x xs)
  then show ?case
    by (cases "split_on c xs") (auto split: if_splits)
qed simp

text \<open>\<open>str::split("..")\<close> with a two-byte separator, as the header parser uses it.\<close>

fun split_str2 :: "char \<Rightarrow> char \<Rightarrow> string \<Rightarrow> string list" where
  "split_str2 a b (x # y # xs) =
     (if x = a \<and> y = b then [] # split_str2 a b xs
      else (case split_str2 a b (y # xs) of [] \<Rightarrow> [[x]] | p # ps \<Rightarrow> (x # p) # ps))"
| "split_str2 a b s = [s]"

lemma split_str2_nonempty [simp]: "split_str2 a b s \<noteq> []"
  by (induction a b s rule: split_str2.induct) (auto split: list.splits)

text \<open>\<open>split_once\<close> at the first occurrence, \<open>rsplit_once\<close> at the last.\<close>

fun split_once :: "char \<Rightarrow> string \<Rightarrow> (string \<times> string) option" where
  "split_once c [] = None"
| "split_once c (x # xs) =
     (if x = c then Some ([], xs)
      else map_option (\<lambda>(a, b). (x # a, b)) (split_once c xs))"

lemma split_once_append: "c \<notin> set a \<Longrightarrow> split_once c (a @ c # b) = Some (a, b)"
  by (induction a) auto

lemma split_once_Some: "split_once c s = Some (a, b) \<Longrightarrow> s = a @ c # b \<and> c \<notin> set a"
  by (induction s arbitrary: a b) (auto split: if_splits)

lemma split_once_None: "split_once c s = None \<longleftrightarrow> c \<notin> set s"
  by (induction s) auto

definition rsplit_once :: "char \<Rightarrow> string \<Rightarrow> (string \<times> string) option" where
  "rsplit_once c s = map_option (\<lambda>(a, b). (rev b, rev a)) (split_once c (rev s))"

lemma rsplit_once_append: "c \<notin> set b \<Longrightarrow> rsplit_once c (a @ c # b) = Some (a, b)"
  using split_once_append [of c "rev b" "rev a"] by (simp add: rsplit_once_def)

text \<open>\<open>splitn(n, c)\<close>: at most \<open>n\<close> pieces, the last one holds the rest.\<close>

fun splitn :: "nat \<Rightarrow> char \<Rightarrow> string \<Rightarrow> string list" where
  "splitn 0 c s = []"
| "splitn (Suc 0) c s = [s]"
| "splitn (Suc (Suc n)) c s =
     (case split_once c s of None \<Rightarrow> [s] | Some (a, b) \<Rightarrow> a # splitn (Suc n) c b)"

fun strip_prefix :: "string \<Rightarrow> string \<Rightarrow> string option" where
  "strip_prefix [] s = Some s"
| "strip_prefix (p # ps) [] = None"
| "strip_prefix (p # ps) (x # xs) = (if p = x then strip_prefix ps xs else None)"

lemma strip_prefix_append [simp]: "strip_prefix p (p @ s) = Some s"
  by (induction p) auto

lemma strip_prefix_Some: "strip_prefix p s = Some r \<longleftrightarrow> s = p @ r"
  by (induction p s rule: strip_prefix.induct) auto

text \<open>\<open>str::lines\<close>: pieces ended by a newline, without it and without one carriage return
  before it; a last piece without a newline counts if it is not empty, and keeps its
  carriage return.\<close>

definition strip_cr :: "string \<Rightarrow> string" where
  "strip_cr l = (if l \<noteq> [] \<and> last l = CHR 0x0D then butlast l else l)"

definition str_lines :: "string \<Rightarrow> string list" where
  "str_lines s =
     (let ps = split_on (CHR 0x0A) s
      in map strip_cr (butlast ps) @ (if last ps = [] then [] else [last ps]))"

section \<open>Trimming and case\<close>

text \<open>
  \<open>str::trim\<close> removes the characters with the Unicode property White_Space. Their UTF-8
  encodings: the six ASCII ones, U+0085 and U+00A0, U+1680, U+2000 to U+200A, U+2028,
  U+2029, U+202F, U+205F and U+3000.
\<close>

definition ws_seqs :: "string list" where
  "ws_seqs =
     [[CHR 0x09], [CHR 0x0A], [CHR 0x0B], [CHR 0x0C], [CHR 0x0D], [CHR 0x20],
      [CHR 0xC2, CHR 0x85], [CHR 0xC2, CHR 0xA0], [CHR 0xE1, CHR 0x9A, CHR 0x80]]
     @ map (\<lambda>b. [CHR 0xE2, CHR 0x80, char_of (b :: nat)])
         [0x80, 0x81, 0x82, 0x83, 0x84, 0x85, 0x86, 0x87, 0x88, 0x89, 0x8A, 0xA8, 0xA9, 0xAF]
     @ [[CHR 0xE2, CHR 0x81, CHR 0x9F], [CHR 0xE3, CHR 0x80, CHR 0x80]]"

text \<open>Drop one of the given non-empty prefixes, as often as one matches.\<close>

fun drop_seqs :: "nat \<Rightarrow> string list \<Rightarrow> string \<Rightarrow> string" where
  "drop_seqs 0 ps s = s"
| "drop_seqs (Suc n) ps s =
     (case List.find (\<lambda>p. prefix p s) ps of
        None \<Rightarrow> s
      | Some p \<Rightarrow> drop_seqs n ps (drop (length p) s))"

definition trim_start :: "string \<Rightarrow> string" where
  "trim_start s = drop_seqs (length s) ws_seqs s"

definition trim_end :: "string \<Rightarrow> string" where
  "trim_end s = rev (drop_seqs (length s) (map rev ws_seqs) (rev s))"

definition trim :: "string \<Rightarrow> string" where
  "trim s = trim_end (trim_start s)"

text \<open>\<open>trim_start_matches(c)\<close>, \<open>trim_end_matches(c)\<close>, \<open>trim_matches(c)\<close> on one ASCII
  character.\<close>

definition trim_start_char :: "char \<Rightarrow> string \<Rightarrow> string" where
  "trim_start_char c s = dropWhile (\<lambda>x. x = c) s"

definition trim_end_char :: "char \<Rightarrow> string \<Rightarrow> string" where
  "trim_end_char c s = rev (dropWhile (\<lambda>x. x = c) (rev s))"

definition trim_char :: "char \<Rightarrow> string \<Rightarrow> string" where
  "trim_char c s = trim_end_char c (trim_start_char c s)"

text \<open>A string neither of whose ends is a byte that begins or ends a white space sequence is
  not changed by \<open>trim\<close>; printable ASCII ends are such bytes.\<close>

definition solid :: "char \<Rightarrow> bool" where
  "solid c \<longleftrightarrow> 0x21 \<le> (of_char c :: nat) \<and> (of_char c :: nat) \<le> 0x7E"

lemma ws_seqs_ends:
  "list_all (\<lambda>p. p \<noteq> [] \<and> \<not> solid (hd p) \<and> \<not> solid (last p)) ws_seqs"
  by code_simp

lemma find_ws_solid: "solid c \<Longrightarrow> List.find (\<lambda>p. prefix p (c # s)) ws_seqs = None"
  using ws_seqs_ends by (fastforce simp: find_None_iff list_all_iff prefix_Cons)

lemma find_ws_rev_solid: "solid c \<Longrightarrow> List.find (\<lambda>p. prefix p (c # s)) (map rev ws_seqs) = None"
  using ws_seqs_ends by (fastforce simp: find_None_iff list_all_iff prefix_Cons hd_rev)

lemma trim_start_solid: "solid c \<Longrightarrow> trim_start (c # s) = c # s"
  by (simp add: trim_start_def find_ws_solid del: drop_seqs.simps(1))

lemma trim_end_solid: "solid c \<Longrightarrow> trim_end (s @ [c]) = s @ [c]"
  by (simp add: trim_end_def find_ws_rev_solid)

lemma trim_solid:
  assumes "s \<noteq> []" "solid (hd s)" "solid (last s)"
  shows "trim s = s"
proof -
  from assms have "trim_start s = s" by (cases s) (simp_all add: trim_start_solid)
  moreover from assms have "trim_end s = s"
    using trim_end_solid [of "last s" "butlast s"] by simp
  ultimately show ?thesis by (simp add: trim_def)
qed

lemma trim_start_space: "solid c \<Longrightarrow> trim_start (CHR '' '' # c # s) = c # s"
  using find_ws_solid [of c s] by (simp add: trim_start_def ws_seqs_def)

lemma trim_space:
  assumes "s \<noteq> []" "solid (hd s)" "solid (last s)"
  shows "trim (CHR '' '' # s) = s"
proof -
  from assms have "trim_start (CHR '' '' # s) = s" by (cases s) (simp_all add: trim_start_space)
  moreover from assms have "trim_end s = s"
    using trim_end_solid [of "last s" "butlast s"] by simp
  ultimately show ?thesis by (simp add: trim_def)
qed

lemma trim_Nil [simp]: "trim [] = []"
  by (simp add: trim_def trim_start_def trim_end_def)

definition ascii_lower :: "char \<Rightarrow> char" where
  "ascii_lower c =
     (if 0x41 \<le> (of_char c :: nat) \<and> (of_char c :: nat) \<le> 0x5A
      then char_of ((of_char c :: nat) + 32) else c)"

definition to_ascii_lowercase :: "string \<Rightarrow> string" where
  "to_ascii_lowercase = map ascii_lower"

definition is_ascii_digit :: "char \<Rightarrow> bool" where
  "is_ascii_digit c \<longleftrightarrow> 0x30 \<le> (of_char c :: nat) \<and> (of_char c :: nat) \<le> 0x39"

definition is_ascii_alphanumeric :: "char \<Rightarrow> bool" where
  "is_ascii_alphanumeric c \<longleftrightarrow>
     is_ascii_digit c \<or>
     (0x41 \<le> (of_char c :: nat) \<and> (of_char c :: nat) \<le> 0x5A) \<or>
     (0x61 \<le> (of_char c :: nat) \<and> (of_char c :: nat) \<le> 0x7A)"

lemma ascii_lower_idem [simp]: "ascii_lower (ascii_lower c) = ascii_lower c"
  by (auto simp: ascii_lower_def)

section \<open>Unsigned integers as text\<close>

definition digit_val :: "char \<Rightarrow> nat" where
  "digit_val c = of_char c - 0x30"

definition digit_chr :: "nat \<Rightarrow> char" where
  "digit_chr d = char_of (d + 0x30)"

fun digits_val :: "nat \<Rightarrow> string \<Rightarrow> nat option" where
  "digits_val acc [] = Some acc"
| "digits_val acc (c # cs) =
     (if is_ascii_digit c then digits_val (10 * acc + digit_val c) cs else None)"

text \<open>
  \<open>s.parse::<uN>()\<close> with the largest value \<open>mx\<close> of the type: an optional plus sign, then
  at least one decimal digit, then nothing; \<open>None\<close> stands for the \<open>ParseIntError\<close>, for the
  empty string, an invalid digit or an overflow.
\<close>

definition parse_uint :: "nat \<Rightarrow> string \<Rightarrow> nat option" where
  "parse_uint mx s =
     (let ds = (case s of [] \<Rightarrow> [] | c # cs \<Rightarrow> if c = CHR ''+'' then cs else s)
      in if ds = [] then None
         else case digits_val 0 ds of
                None \<Rightarrow> None
              | Some n \<Rightarrow> if n \<le> mx then Some n else None)"

abbreviation u8_max :: nat where "u8_max \<equiv> 255"
abbreviation u16_max :: nat where "u16_max \<equiv> 65535"
abbreviation u32_max :: nat where "u32_max \<equiv> 4294967295"
abbreviation u64_max :: nat where "u64_max \<equiv> 18446744073709551615"

lemma parse_uint_le: "parse_uint mx s = Some n \<Longrightarrow> n \<le> mx"
  by (auto simp: parse_uint_def Let_def split: option.splits if_splits)

text \<open>\<open>Display\<close> of an unsigned integer: its decimal digits without leading zeros.\<close>

fun show_nat :: "nat \<Rightarrow> string" where
  "show_nat n =
     (if n < 10 then [digit_chr n] else show_nat (n div 10) @ [digit_chr (n mod 10)])"

declare show_nat.simps [simp del]

lemma digit_chr_props:
  assumes "d < 10"
  shows "is_ascii_digit (digit_chr d)" "digit_val (digit_chr d) = d"
  using assms by (simp_all add: is_ascii_digit_def digit_val_def digit_chr_def)

lemma digits_val_append:
  "digits_val a (s @ t) = (case digits_val a s of None \<Rightarrow> None | Some b \<Rightarrow> digits_val b t)"
  by (induction a s rule: digits_val.induct) auto

lemma digits_val_show: "digits_val 0 (show_nat n) = Some n"
proof (induction n rule: show_nat.induct)
  case (1 n)
  then show ?case
    by (subst show_nat.simps) (auto simp: digits_val_append digit_chr_props)
qed

lemma show_nat_digits: "c \<in> set (show_nat n) \<Longrightarrow> is_ascii_digit c"
proof (induction n rule: show_nat.induct)
  case (1 n)
  show ?case
  proof (cases "n < 10")
    case True
    with "1.prems" show ?thesis by (subst (asm) show_nat.simps) (simp add: digit_chr_props)
  next
    case False
    with "1.prems" have "c \<in> set (show_nat (n div 10)) \<or> c = digit_chr (n mod 10)"
      by (subst (asm) show_nat.simps) auto
    with "1.IH" [OF False] show ?thesis by (auto simp: digit_chr_props)
  qed
qed

lemma show_nat_nonempty [simp]: "show_nat n \<noteq> []"
  by (subst show_nat.simps) simp

lemma digit_not_plus: "is_ascii_digit c \<Longrightarrow> c \<noteq> CHR ''+''"
  by (auto simp: is_ascii_digit_def)

lemma is_digit_solid: "is_ascii_digit c \<Longrightarrow> solid c"
  by (simp add: is_ascii_digit_def solid_def)

lemma parse_show [simp]: "n \<le> mx \<Longrightarrow> parse_uint mx (show_nat n) = Some n"
proof -
  assume n: "n \<le> mx"
  obtain c cs where s: "show_nat n = c # cs" by (cases "show_nat n") simp_all
  then have "is_ascii_digit c" using show_nat_digits [of c n] by simp
  then have "c \<noteq> CHR ''+''" by (rule digit_not_plus)
  then have "parse_uint mx (show_nat n) =
      (case digits_val 0 (show_nat n) of None \<Rightarrow> None | Some k \<Rightarrow> if k \<le> mx then Some k else None)"
    by (simp add: parse_uint_def s del: digits_val.simps)
  with n show ?thesis by (simp add: digits_val_show)
qed

lemma show_nat_inj: "show_nat m = show_nat n \<Longrightarrow> m = n"
  by (metis digits_val_show option.inject)

lemma trim_show_nat [simp]: "trim (show_nat n) = show_nat n"
proof (rule trim_solid)
  have "hd (show_nat n) \<in> set (show_nat n)" "last (show_nat n) \<in> set (show_nat n)"
    by (rule hd_in_set last_in_set, rule show_nat_nonempty)+
  then show "solid (hd (show_nat n))" "solid (last (show_nat n))"
    by (blast intro: is_digit_solid show_nat_digits)+
qed (rule show_nat_nonempty)

section \<open>UTF-8 validity\<close>

text \<open>\<open>str::from_utf8\<close> accepts exactly the well-formed sequences of the Unicode standard
  (no overlong forms, no surrogates, nothing above U+10FFFF).\<close>

definition in_rng :: "nat \<Rightarrow> nat \<Rightarrow> u8 \<Rightarrow> bool" where
  "in_rng lo hi b \<longleftrightarrow> lo \<le> unat b \<and> unat b \<le> hi"

definition utf8_2 :: "u8 \<Rightarrow> u8 \<Rightarrow> bool" where
  "utf8_2 a b \<longleftrightarrow> in_rng 0xC2 0xDF a \<and> in_rng 0x80 0xBF b"

definition utf8_3 :: "u8 \<Rightarrow> u8 \<Rightarrow> u8 \<Rightarrow> bool" where
  "utf8_3 a b c \<longleftrightarrow>
     in_rng 0x80 0xBF c \<and>
     (in_rng 0xE0 0xE0 a \<and> in_rng 0xA0 0xBF b \<or>
      (in_rng 0xE1 0xEC a \<or> in_rng 0xEE 0xEF a) \<and> in_rng 0x80 0xBF b \<or>
      in_rng 0xED 0xED a \<and> in_rng 0x80 0x9F b)"

definition utf8_4 :: "u8 \<Rightarrow> u8 \<Rightarrow> u8 \<Rightarrow> u8 \<Rightarrow> bool" where
  "utf8_4 a b c d \<longleftrightarrow>
     in_rng 0x80 0xBF c \<and> in_rng 0x80 0xBF d \<and>
     (in_rng 0xF0 0xF0 a \<and> in_rng 0x90 0xBF b \<or>
      in_rng 0xF1 0xF3 a \<and> in_rng 0x80 0xBF b \<or>
      in_rng 0xF4 0xF4 a \<and> in_rng 0x80 0x8F b)"

fun utf8_tail :: "nat \<Rightarrow> bytes \<Rightarrow> bool" where
  "utf8_tail 0 bs = (bs = [])"
| "utf8_tail (Suc n) [] = True"
| "utf8_tail (Suc n) (a # bs) =
     (if in_rng 0 0x7F a then utf8_tail n bs
      else case bs of
        [] \<Rightarrow> False
      | b # bs1 \<Rightarrow>
          if utf8_2 a b then utf8_tail n bs1
          else (case bs1 of
            [] \<Rightarrow> False
          | c # bs2 \<Rightarrow>
              if utf8_3 a b c then utf8_tail n bs2
              else (case bs2 of
                [] \<Rightarrow> False
              | d # bs3 \<Rightarrow> utf8_4 a b c d \<and> utf8_tail n bs3)))"

definition from_utf8_ok :: "bytes \<Rightarrow> bool" where
  "from_utf8_ok bs = utf8_tail (length bs) bs"

lemma from_utf8_ascii: "list_all (in_rng 0 0x7F) bs \<Longrightarrow> from_utf8_ok bs"
proof -
  have "list_all (in_rng 0 0x7F) bs \<Longrightarrow> length bs \<le> n \<Longrightarrow> utf8_tail n bs" for n
    by (induction n bs rule: utf8_tail.induct) auto
  then show "list_all (in_rng 0 0x7F) bs \<Longrightarrow> from_utf8_ok bs"
    by (simp add: from_utf8_ok_def)
qed

text \<open>The first character of a string, as its UTF-8 bytes.\<close>

definition first_char :: "string \<Rightarrow> string" where
  "first_char s = (let b = of_char (hd s) :: nat in
     take (if b < 0x80 then 1 else if b < 0xE0 then 2 else if b < 0xF0 then 3 else 4) s)"

end
