(* ===== verification/H264.thy ===== *)
theory H264
  imports Prelude
begin

text \<open>
  RTP to H.264 NAL unit reassembly (\<open>src/snapshot/h264.rs\<close>). The sender's side, the
  packetisation of RFC 6184, is the specification: single NAL unit packets, STAP-A
  aggregates and FU-A fragments under consecutive sequence numbers that wrap at 2^16.
\<close>

section \<open>NAL units and the reassembler\<close>

definition nal_unit_type :: "bytes \<Rightarrow> u8" where
  "nal_unit_type d = (case d of [] \<Rightarrow> 0 | b # _ \<Rightarrow> b) AND 0x1F"

definition nal_is_idr :: "bytes \<Rightarrow> bool" where
  "nal_is_idr d \<longleftrightarrow> nal_unit_type d = 5"

record reassembler =
  fu_a_buf :: "bytes option"
  fu_a_nal_header :: u8
  last_seq :: "u16 option"

definition reassembler_new :: reassembler where
  "reassembler_new = \<lparr>fu_a_buf = None, fu_a_nal_header = 0, last_seq = None\<rparr>"

text \<open>The gap check at the head of \<open>push\<close>.\<close>

definition check_gap :: "u16 \<Rightarrow> reassembler \<Rightarrow> reassembler" where
  "check_gap seq r =
     (case last_seq r of
        None \<Rightarrow> r
      | Some prev \<Rightarrow> if seq \<noteq> prev + 1 \<and> fu_a_buf r \<noteq> None then r\<lparr>fu_a_buf := None\<rparr> else r)"

text \<open>The STAP-A loop over the bytes after the aggregate's header byte.\<close>

fun stap_units :: "bytes \<Rightarrow> bytes list" where
  "stap_units (hi # lo # rest) =
     (let len = unat (of_be16 hi lo) in
      if length rest < len then [] else take len rest # stap_units (drop len rest))"
| "stap_units _ = []"

text \<open>\<open>push\<close>: the complete NAL units this packet yields, and the new state.\<close>

definition push :: "bytes \<Rightarrow> u16 \<Rightarrow> reassembler \<Rightarrow> bytes list \<times> reassembler" where
  "push payload seq r0 =
     (case payload of
        [] \<Rightarrow> ([], r0)
      | nal_header # rest \<Rightarrow>
          let r = (check_gap seq r0)\<lparr>last_seq := Some seq\<rparr>;
              unit_type = nal_header AND 0x1F
          in if 1 \<le> unit_type \<and> unit_type \<le> 23 then ([payload], r)
             else if unit_type = 24 then (stap_units rest, r)
             else if unit_type = 28 then
               (case rest of
                  [] \<Rightarrow> ([], r)
                | fu_header # frag \<Rightarrow>
                    let start = fu_header AND 0x80 \<noteq> 0; end' = fu_header AND 0x40 \<noteq> 0;
                        original_type = fu_header AND 0x1F
                    in if start then
                         let h = (nal_header AND 0xE0) OR original_type
                         in ([], r\<lparr>fu_a_nal_header := h, fu_a_buf := Some (h # frag)\<rparr>)
                       else (case fu_a_buf r of
                               None \<Rightarrow> ([], r)
                             | Some buf \<Rightarrow>
                                 if end' then ([buf @ frag], r\<lparr>fu_a_buf := None\<rparr>)
                                 else ([], r\<lparr>fu_a_buf := Some (buf @ frag)\<rparr>)))
             else ([], r))"

fun push_all :: "(bytes \<times> u16) list \<Rightarrow> reassembler \<Rightarrow> bytes list \<times> reassembler" where
  "push_all [] r = ([], r)"
| "push_all ((p, q) # ps) r =
     (let (ns, r1) = push p q r; (ms, r2) = push_all ps r1 in (ns @ ms, r2))"

lemma push_all_append:
  "push_all (ps @ qs) r =
     (let (ns, r1) = push_all ps r; (ms, r2) = push_all qs r1 in (ns @ ms, r2))"
  by (induction ps r rule: push_all.induct) (simp_all add: Let_def split: prod.split)

section \<open>The sender: RFC 6184 packetisation\<close>

text \<open>A NAL unit with its header byte separated.\<close>

datatype sent = Single u8 bytes | Aggregate u8 "bytes list" | Fragments u8 "bytes list"

text \<open>The fragments after the first; the last one carries the end bit.\<close>

fun fu_rest :: "u8 \<Rightarrow> bytes list \<Rightarrow> bytes list" where
  "fu_rest h [] = []"
| "fu_rest h [c] = [[(h AND 0xE0) OR 28, 0x40 OR (h AND 0x1F)] @ c]"
| "fu_rest h (c # cs) = ([(h AND 0xE0) OR 28, h AND 0x1F] @ c) # fu_rest h cs"

fun payloads :: "sent \<Rightarrow> bytes list" where
  "payloads (Single h d) = [h # d]"
| "payloads (Aggregate h ns) =
     [((h AND 0xE0) OR 24) # concat (map (\<lambda>n. be16 (word_of_nat (length n)) @ n) ns)]"
| "payloads (Fragments h []) = []"
| "payloads (Fragments h (c # cs)) =
     ([(h AND 0xE0) OR 28, 0x80 OR (h AND 0x1F)] @ c) # fu_rest h cs"

fun nals_of :: "sent \<Rightarrow> bytes list" where
  "nals_of (Single h d) = [h # d]"
| "nals_of (Aggregate h ns) = ns"
| "nals_of (Fragments h cs) = [h # concat cs]"

fun sendable :: "sent \<Rightarrow> bool" where
  "sendable (Single h d) \<longleftrightarrow> 1 \<le> h AND 0x1F \<and> h AND 0x1F \<le> 23"
| "sendable (Aggregate h ns) \<longleftrightarrow> (\<forall>n\<in>set ns. length n < 2 ^ 16)"
| "sendable (Fragments h cs) \<longleftrightarrow> 2 \<le> length cs"

text \<open>Consecutive sequence numbers from \<open>q\<close> on.\<close>

fun number :: "u16 \<Rightarrow> bytes list \<Rightarrow> (bytes \<times> u16) list" where
  "number q [] = []"
| "number q (p # ps) = (p, q) # number (q + 1) ps"

definition packetise :: "u16 \<Rightarrow> sent list \<Rightarrow> (bytes \<times> u16) list" where
  "packetise q ss = number q (concat (map payloads ss))"

lemma number_append: "number q (ps @ qs) = number q ps @ number (q + word_of_nat (length ps)) qs"
  by (induction ps arbitrary: q) (simp_all add: add.assoc [symmetric] add.commute)

section \<open>Header bytes\<close>

lemma fu_bits:
  fixes h :: u8
  shows "((h AND 0xE0) OR 24) AND 0x1F = 24" "((h AND 0xE0) OR 28) AND 0x1F = 28"
    "((h AND 0xE0) OR 28) AND 0xE0 = h AND 0xE0"
    "(0x80 OR (h AND 0x1F)) AND 0x1F = h AND 0x1F" "(0x80 OR (h AND 0x1F)) AND 0x80 \<noteq> 0"
    "(0x40 OR (h AND 0x1F)) AND 0x80 = 0" "(0x40 OR (h AND 0x1F)) AND 0x40 \<noteq> 0"
    "(h AND 0x1F) AND 0x80 = 0" "(h AND 0x1F) AND 0x40 = 0"
    "(h AND 0xE0) OR (h AND 0x1F) = h"
proof -
  have d: "(h AND x) OR (h AND y) = h AND (x OR y)" for x y :: u8
    by (simp add: bit.conj_disj_distrib)
  show "((h AND 0xE0) OR 24) AND 0x1F = 24" "((h AND 0xE0) OR 28) AND 0x1F = 28"
    "((h AND 0xE0) OR 28) AND 0xE0 = h AND 0xE0"
    by (simp_all add: bit.conj_disj_distrib2 and.assoc)
  show "(0x80 OR (h AND 0x1F)) AND 0x1F = h AND 0x1F"
    "(0x40 OR (h AND 0x1F)) AND 0x80 = 0" "(h AND 0x1F) AND 0x80 = 0" "(h AND 0x1F) AND 0x40 = 0"
    "(0x80 OR (h AND 0x1F)) AND 0x80 \<noteq> 0" "(0x40 OR (h AND 0x1F)) AND 0x40 \<noteq> 0"
    by (simp_all add: bit.conj_disj_distrib2 and.assoc)
  have "h AND 0xFF = take_bit LENGTH(8) h"
    by (subst take_bit_eq_mask) (simp add: mask_eq_exp_minus_1)
  then have "h AND 0xFF = h" by (simp only: take_bit_length_eq)
  then show "(h AND 0xE0) OR (h AND 0x1F) = h" by (simp add: d)
qed

section \<open>Reassembly of a stream\<close>

lemma stap_units_concat:
  "\<forall>n\<in>set ns. length n < 2 ^ 16 \<Longrightarrow>
   stap_units (concat (map (\<lambda>n. be16 (word_of_nat (length n)) @ n) ns)) = ns"
  by (induction ns) (simp_all add: be16_def unat_of_nat)

lemma push_fu_start:
  "push ([(h AND 0xE0) OR 28, 0x80 OR (h AND 0x1F)] @ c) q r =
     ([], (check_gap q r)\<lparr>last_seq := Some q, fu_a_nal_header := h, fu_a_buf := Some (h # c)\<rparr>)"
  by (simp add: push_def fu_bits Let_def)

lemma check_gap_next:
  "last_seq r = Some p \<Longrightarrow> q = p + 1 \<Longrightarrow> check_gap q r = r"
  by (simp add: check_gap_def)

lemma push_fu_more:
  assumes "fu_a_buf r = Some b" "last_seq r = Some p" "q = p + 1"
  shows "push ([(h AND 0xE0) OR 28, h AND 0x1F] @ c) q r =
           ([], r\<lparr>last_seq := Some q, fu_a_buf := Some (b @ c)\<rparr>)"
    and "push ([(h AND 0xE0) OR 28, 0x40 OR (h AND 0x1F)] @ c) q r =
           ([b @ c], r\<lparr>last_seq := Some q, fu_a_buf := None\<rparr>)"
  using assms by (simp_all add: push_def fu_bits Let_def check_gap_next)

lemma push_fu_rest:
  assumes "cs \<noteq> []" "fu_a_buf r = Some b" "last_seq r = Some p" "q = p + 1"
  shows "fst (push_all (number q (fu_rest h cs)) r) = [b @ concat cs]"
  using assms
proof (induction h cs arbitrary: b p q r rule: fu_rest.induct)
  case (2 h c)
  then show ?case using push_fu_more(2) [OF 2(2-4), of h c] by simp
next
  case (3 h c d cs)
  let ?r = "r\<lparr>last_seq := Some q, fu_a_buf := Some (b @ c)\<rparr>"
  have "push ([(h AND 0xE0) OR 28, h AND 0x1F] @ c) q r = ([], ?r)"
    by (rule push_fu_more(1) [OF 3(3-5)])
  moreover have "fst (push_all (number (q + 1) (fu_rest h (d # cs))) ?r) = [(b @ c) @ concat (d # cs)]"
    by (rule 3) simp_all
  ultimately show ?case by (simp split: prod.split)
qed simp

lemma push_sent:
  assumes "sendable s"
  shows "fst (push_all (number q (payloads s)) r) = nals_of s"
proof (cases s)
  case (Single h d)
  with assms show ?thesis by (auto simp: push_def Let_def)
next
  case (Aggregate h ns)
  with assms show ?thesis
    by (simp add: push_def fu_bits Let_def stap_units_concat)
next
  case (Fragments h cs)
  with assms obtain c ds where cs: "cs = c # ds" "ds \<noteq> []"
    by (cases cs rule: list.exhaust [case_product]) (auto simp: Suc_le_eq)
  let ?r = "(check_gap q r)\<lparr>last_seq := Some q, fu_a_nal_header := h, fu_a_buf := Some (h # c)\<rparr>"
  have "fst (push_all (number (q + 1) (fu_rest h ds)) ?r) = [(h # c) @ concat ds]"
    by (rule push_fu_rest [OF cs(2)]) simp_all
  then show ?thesis
    unfolding Fragments cs payloads.simps number.simps push_all.simps push_fu_start
    by (simp add: Let_def split: prod.split)
qed

lemma fst_push_all_append:
  "fst (push_all (ps @ qs) r) = fst (push_all ps r) @ fst (push_all qs (snd (push_all ps r)))"
  by (simp add: push_all_append Let_def split: prod.split)

lemma push_all_packetise:
  assumes "\<forall>s\<in>set ss. sendable s"
  shows "fst (push_all (packetise q ss) r) = concat (map nals_of ss)"
  using assms
proof (induction ss arbitrary: q r)
  case Nil
  show ?case by (simp add: packetise_def)
next
  case (Cons s ss)
  have "packetise q (s # ss) = number q (payloads s) @ packetise (q + word_of_nat (length (payloads s))) ss"
    by (simp add: packetise_def number_append)
  with Cons push_sent show ?case by (simp add: fst_push_all_append)
qed

text \<open>C23. Reassembly is inverse to RFC 6184 packetisation: whatever state the reassembler is in
  and whatever sequence number the stream starts at (so also across the wrap at 2^16), a
  stream of single NAL unit packets, aggregates and fragmented units yields exactly the
  sender's NAL units, in order.\<close>

theorem reassemble_packetise:
  assumes "\<forall>s\<in>set ss. sendable s"
  shows "fst (push_all (packetise q ss) r) = concat (map nals_of ss)"
  by (rule push_all_packetise [OF assms])

theorem reassemble_packetise_witness:
  "fst (push_all (packetise 65534 [Aggregate 0 [[0x67, 1], [0x68, 2]], Fragments 0x65 [[1], [2, 3], [4]]])
     reassembler_new) = [[0x67, 1], [0x68, 2], [0x65, 1, 2, 3, 4]]"
  using reassemble_packetise
    [of "[Aggregate 0 [[0x67, 1], [0x68, 2]], Fragments 0x65 [[1], [2, 3], [4]]]" 65534 reassembler_new]
  by simp

section \<open>No unit is assembled across a gap\<close>

definition fu_packet :: "bytes \<Rightarrow> bool" where
  "fu_packet p = (case p of a # _ # _ \<Rightarrow> a AND 0x1F = 28 | _ \<Rightarrow> False)"

definition fu_start :: "bytes \<Rightarrow> bool" where
  "fu_start p \<longleftrightarrow> fu_packet p \<and> p ! 1 AND 0x80 \<noteq> 0"

definition fu_frag :: "bytes \<Rightarrow> bytes" where
  "fu_frag p = (if fu_packet p then drop 2 p else [])"

definition fu_header :: "bytes \<Rightarrow> u8" where
  "fu_header p = (p ! 0 AND 0xE0) OR (p ! 1 AND 0x1F)"

fun consecutive :: "u16 list \<Rightarrow> bool" where
  "consecutive (a # b # qs) \<longleftrightarrow> b = a + 1 \<and> consecutive (b # qs)"
| "consecutive qs \<longleftrightarrow> True"

text \<open>The bytes \<open>b\<close> are what a run of consecutive packets at the end of the history carries, the
  first of them the only start fragment.\<close>

definition run_of :: "(bytes \<times> u16) list \<Rightarrow> bytes \<Rightarrow> bool" where
  "run_of hist b \<longleftrightarrow>
     (\<exists>pre s mid. hist = pre @ s # mid \<and> fu_start (fst s) \<and> (\<forall>m\<in>set mid. \<not> fu_start (fst m)) \<and>
        consecutive (map snd (s # mid)) \<and>
        b = fu_header (fst s) # drop 2 (fst s) @ concat (map (fu_frag \<circ> fst) mid))"

definition tracks :: "(bytes \<times> u16) list \<Rightarrow> reassembler \<Rightarrow> bool" where
  "tracks hist r \<longleftrightarrow>
     last_seq r = (if hist = [] then None else Some (snd (last hist))) \<and>
     (case fu_a_buf r of None \<Rightarrow> True | Some b \<Rightarrow> run_of hist b)"

lemma consecutive_snoc:
  "consecutive (a # qs) \<Longrightarrow> q = last (a # qs) + 1 \<Longrightarrow> consecutive (a # qs @ [q])"
  by (induction qs arbitrary: a) simp_all

lemma run_of_start: "fu_start p \<Longrightarrow> run_of (hist @ [(p, q)]) (fu_header p # drop 2 p)"
  unfolding run_of_def by (intro exI [of _ hist] exI [of _ "(p, q)"] exI [of _ "[]"]) simp

lemma run_of_snoc:
  assumes "run_of hist b" "\<not> fu_start p" "q = snd (last hist) + 1"
  shows "run_of (hist @ [(p, q)]) (b @ fu_frag p)"
proof -
  obtain pre s mid where r: "hist = pre @ s # mid" "fu_start (fst s)"
    "\<forall>m\<in>set mid. \<not> fu_start (fst m)" "consecutive (map snd (s # mid))"
    "b = fu_header (fst s) # drop 2 (fst s) @ concat (map (fu_frag \<circ> fst) mid)"
    using assms(1) by (auto simp: run_of_def)
  have "last (map snd (s # mid)) = snd (last hist)"
    using r(1) last_map [of "s # mid" snd] by simp
  with r(4) assms(3) have "consecutive (snd s # map snd mid @ [q])"
    by (intro consecutive_snoc) simp_all
  then show ?thesis
    unfolding run_of_def using r(1-3,5) assms(2)
    by (intro exI [of _ pre] exI [of _ s] exI [of _ "mid @ [(p, q)]"]) simp
qed

lemma check_gap_tracks:
  assumes "tracks hist r" "fu_a_buf (check_gap q r) = Some b"
  shows "run_of hist b \<and> q = snd (last hist) + 1"
proof -
  have "hist \<noteq> []" using assms by (auto simp: tracks_def check_gap_def run_of_def)
  with assms show ?thesis by (auto simp: tracks_def check_gap_def split: if_splits)
qed

lemma push_tracks:
  assumes t: "tracks hist r" and p: "p \<noteq> []" and push: "push p q r = (ns, r')"
  shows "tracks (hist @ [(p, q)]) r' \<and>
         (fu_packet p \<longrightarrow> (\<forall>n\<in>set ns. run_of (hist @ [(p, q)]) n))"
proof -
  obtain h rest where h: "p = h # rest" using p by (cases p) auto
  let ?g = "check_gap q r"
  let ?r = "?g\<lparr>last_seq := Some q\<rparr>"
  note gap = check_gap_tracks [OF t, of q]
  have keep: "tracks (hist @ [(p, q)]) ?r" if "\<not> fu_packet p"
  proof (cases "fu_a_buf ?g")
    case (Some b)
    from that have "\<not> fu_start p" "fu_frag p = []" by (simp_all add: fu_start_def fu_frag_def)
    with gap [OF Some] run_of_snoc [of hist b p q] Some show ?thesis by (simp add: tracks_def)
  qed (simp add: tracks_def)
  show ?thesis
  proof (cases "fu_packet p")
    case False
    then have "r' = ?r" using push h by (auto simp: push_def Let_def fu_packet_def split: if_splits list.splits)
    with keep False show ?thesis by simp
  next
    case True
    then obtain f frag where f: "rest = f # frag" "h AND 0x1F = 28"
      using h by (auto simp: fu_packet_def split: list.splits)
    have frag: "fu_frag p = frag" "fu_header p = (h AND 0xE0) OR (f AND 0x1F)"
      "fu_start p \<longleftrightarrow> f AND 0x80 \<noteq> 0"
      using True h f by (simp_all add: fu_frag_def fu_header_def fu_start_def)
    show ?thesis
    proof (cases "f AND 0x80 \<noteq> 0")
      case True
      with push h f run_of_start [of p hist q] frag show ?thesis
        by (auto simp: push_def tracks_def Let_def)
    next
      case False
      then have ns: "\<not> fu_start p" using frag by simp
      show ?thesis
      proof (cases "fu_a_buf ?g")
        case None
        with push h f False show ?thesis by (auto simp: push_def tracks_def Let_def)
      next
        case (Some b)
        with gap ns run_of_snoc [of hist b p q] frag
        have "run_of (hist @ [(p, q)]) (b @ frag)" by simp
        with push h f False Some show ?thesis
          by (auto simp: push_def tracks_def Let_def split: if_splits)
      qed
    qed
  qed
qed

definition nonempty :: "(bytes \<times> u16) list \<Rightarrow> (bytes \<times> u16) list" where
  "nonempty hist = filter (\<lambda>m. fst m \<noteq> []) hist"

lemma push_all_tracks:
  "tracks h0 r \<Longrightarrow> tracks (h0 @ nonempty hist) (snd (push_all hist r))"
proof (induction hist r arbitrary: h0 rule: push_all.induct)
  case (2 p q ps r)
  obtain ns r1 where push: "push p q r = (ns, r1)" by force
  show ?case
  proof (cases "p = []")
    case True
    with push 2 show ?thesis by (auto simp: push_def nonempty_def split: prod.split)
  next
    case False
    from push_tracks [OF 2(2) False push] have "tracks (h0 @ [(p, q)]) r1" by simp
    from 2(1) [OF push [symmetric] refl this] push False show ?thesis
      by (auto simp: nonempty_def split: prod.split)
  qed
qed (simp add: nonempty_def)

text \<open>C37. A unit put together from fragments is never assembled across a gap: whatever packets
  arrived in whatever order, the unit a fragment packet completes is the reconstructed header
  and the fragments of a run of packets with consecutive sequence numbers that ends in this
  packet and has its only start fragment at the front.\<close>

theorem fragments_contiguous:
  assumes "fu_packet p" and "n \<in> set (fst (push p q (snd (push_all hist reassembler_new))))"
  shows "run_of (nonempty hist @ [(p, q)]) n"
proof -
  have "tracks [] reassembler_new" by (simp add: tracks_def reassembler_new_def)
  from push_all_tracks [OF this, of hist] have t: "tracks (nonempty hist) (snd (push_all hist reassembler_new))"
    by simp
  have "p \<noteq> []" using assms(1) by (auto simp: fu_packet_def)
  obtain ns r' where "push p q (snd (push_all hist reassembler_new)) = (ns, r')" by force
  with push_tracks [OF t \<open>p \<noteq> []\<close> this] assms show ?thesis by simp
qed

theorem fragments_contiguous_witness:
  "run_of [([0x61, 1], 9), ([0x7C, 0x85, 1], 10), ([0x7C, 0x45, 2], 11)] [0x65, 1, 2]"
proof -
  have "[0x65, 1, 2] \<in> set (fst (push [0x7C, 0x45, 2] 11
      (snd (push_all [([0x61, 1], 9), ([], 9), ([0x7C, 0x85, 1], 10)] reassembler_new))))"
    by (simp add: push_def check_gap_def reassembler_new_def)
  from fragments_contiguous [OF _ this] show ?thesis by (simp add: fu_packet_def nonempty_def)
qed

text \<open>An empty payload inside a fragmented unit loses the unit: \<open>push\<close> returns before it
  records the packet's sequence number, so the fragment after a padding-only packet looks
  like a gap although no packet is missing.\<close>

theorem padding_loses_unit:
  "fst (push_all [([(h AND 0xE0) OR 28, 0x80 OR (h AND 0x1F)] @ c, q), ([], q + 1),
                  ([(h AND 0xE0) OR 28, 0x40 OR (h AND 0x1F)] @ d, q + 2)] r) = []"
proof -
  let ?r = "(check_gap q r)\<lparr>last_seq := Some q, fu_a_nal_header := h, fu_a_buf := Some (h # c)\<rparr>"
  have 1: "push ([(h AND 0xE0) OR 28, 0x80 OR (h AND 0x1F)] @ c) q r = ([], ?r)"
    by (rule push_fu_start)
  have 2: "push [] (q + 1) ?r = ([], ?r)" by (simp add: push_def)
  have "q + 2 \<noteq> q + 1" by simp
  then have 3: "fst (push ([(h AND 0xE0) OR 28, 0x40 OR (h AND 0x1F)] @ d) (q + 2) ?r) = []"
    by (simp add: push_def fu_bits Let_def check_gap_def)
  let ?last = "push ([(h AND 0xE0) OR 28, 0x40 OR (h AND 0x1F)] @ d) (q + 2) ?r"
  obtain ns r' where last: "?last = ([], r')" using 3 by (cases ?last) simp
  show ?thesis unfolding push_all.simps 1 2 Let_def prod.case last by simp
qed

end
