(* ===== verification/Commands.thy ===== *)
theory Commands
  imports Prelude
begin

text \<open>
  The hand-written protobuf encoder of the camera commands (\<open>src/prusa/commands.rs\<close>). The
  specification is a reader of the protobuf wire format: base-128 varints, and fields of
  wire type 0 (varint) and 2 (length-delimited).
\<close>

section \<open>The encoders\<close>

lemma unat_drop7: "unat (drop_bit 7 v) = unat v div 128" for v :: u64
  by (simp only: unat_drop_bit_eq) (simp add: drop_bit_eq_div)

function encode_varint :: "bytes \<Rightarrow> u64 \<Rightarrow> bytes" where
  "encode_varint buf value =
     (if 0x80 \<le> value
      then encode_varint (buf @ [ucast value OR 0x80]) (drop_bit 7 value)
      else buf @ [ucast value])"
  by pat_completeness auto
termination
proof (relation "measure (\<lambda>(buf, v). unat v)")
  fix v :: u64 assume "0x80 \<le> v"
  then have "128 \<le> unat v" by (simp add: word_le_nat_alt)
  then have "unat v div 128 < unat v" by simp
  then show "((buf @ [ucast v OR 0x80], drop_bit 7 v), buf, v)
      \<in> measure (\<lambda>(buf, v). unat v)" for buf
    by (simp add: unat_drop7)
qed simp

declare encode_varint.simps [simp del]

definition encode_camera_trigger :: "u32 \<Rightarrow> string \<Rightarrow> bytes" where
  "encode_camera_trigger field_num token =
     (let tag = push_bit 3 field_num;
          buf = encode_varint [] (ucast tag);
          buf = encode_varint buf 1;
          buf = encode_varint buf (push_bit 3 11 OR 2);
          buf = encode_varint buf (word_of_nat (length token))
      in buf @ to_bytes token)"

definition encode_set_mode :: "u32 \<Rightarrow> string \<Rightarrow> bytes" where
  "encode_set_mode mode token =
     (let sub = encode_varint [] (push_bit 3 4 OR 0);
          sub = encode_varint sub (ucast mode);
          buf = encode_varint [] (push_bit 3 3 OR 2);
          buf = encode_varint buf (word_of_nat (length sub));
          buf = buf @ sub;
          buf = encode_varint buf (push_bit 3 6 OR 2);
          buf = encode_varint buf (word_of_nat (length token))
      in buf @ to_bytes token)"

definition encode_set_quality :: "u32 \<Rightarrow> string \<Rightarrow> bytes" where
  "encode_set_quality quality token =
     (let sub = encode_varint [] (push_bit 3 1 OR 0);
          sub = encode_varint sub (ucast quality);
          buf = encode_varint [] (push_bit 3 4 OR 2);
          buf = encode_varint buf 0;
          buf = encode_varint buf (push_bit 3 6 OR 2);
          buf = encode_varint buf (word_of_nat (length token));
          buf = buf @ to_bytes token;
          buf = encode_varint buf (push_bit 3 8 OR 2);
          buf = encode_varint buf (word_of_nat (length sub))
      in buf @ sub)"

section \<open>The wire format\<close>

fun read_varint :: "bytes \<Rightarrow> (nat \<times> bytes) option" where
  "read_varint [] = None"
| "read_varint (b # bs) =
     (if b < 0x80 then Some (unat b, bs)
      else map_option (\<lambda>(v, r). (unat (b AND 0x7F) + 128 * v, r)) (read_varint bs))"

datatype wire_field = Varint nat nat | Len nat bytes

definition read_field :: "bytes \<Rightarrow> (wire_field \<times> bytes) option" where
  "read_field bs =
     (case read_varint bs of
        None \<Rightarrow> None
      | Some (tag, r) \<Rightarrow>
          if tag mod 8 = 0 then map_option (\<lambda>(v, r'). (Varint (tag div 8) v, r')) (read_varint r)
          else if tag mod 8 = 2 then
            (case read_varint r of
               None \<Rightarrow> None
             | Some (n, r') \<Rightarrow> if n \<le> length r' then Some (Len (tag div 8) (take n r'), drop n r') else None)
          else None)"

definition read_message :: "bytes \<Rightarrow> wire_field list option" where
  "read_message bs = decode_all read_field (length bs) bs"

abbreviation varint :: "nat \<Rightarrow> bytes" where
  "varint n \<equiv> encode_varint [] (word_of_nat n)"

fun write_field :: "wire_field \<Rightarrow> bytes" where
  "write_field (Varint f v) = varint (8 * f) @ varint v"
| "write_field (Len f bs) = varint (8 * f + 2) @ varint (length bs) @ bs"

fun wire_valid :: "wire_field \<Rightarrow> bool" where
  "wire_valid (Varint f v) \<longleftrightarrow> f < 2 ^ 61 \<and> v < 2 ^ 64"
| "wire_valid (Len f bs) \<longleftrightarrow> f < 2 ^ 61 \<and> length bs < 2 ^ 64"

section \<open>Varints\<close>

lemma encode_varint_app: "encode_varint (pre @ buf) v = pre @ encode_varint buf v"
proof (induction buf v arbitrary: pre rule: encode_varint.induct)
  case (1 buf v)
  then show ?case
    by (cases "0x80 \<le> v")
       (simp_all add: encode_varint.simps [of "pre @ buf" v] encode_varint.simps [of buf v])
qed

lemma encode_varint_append: "encode_varint buf v = buf @ encode_varint [] v"
  using encode_varint_app [of buf "[]" v] by simp

lemma encode_varint_buf: "buf \<noteq> [] \<Longrightarrow> encode_varint buf v = buf @ encode_varint [] v"
  by (rule encode_varint_append)

lemma encode_varint_step:
  "0x80 \<le> v \<Longrightarrow> encode_varint [] v = (ucast v OR 0x80) # encode_varint [] (drop_bit 7 v)"
  "v < 0x80 \<Longrightarrow> encode_varint [] v = [ucast v]"
  using encode_varint_append [of "[ucast v OR 0x80]" "drop_bit 7 v"]
  by (simp_all add: encode_varint.simps [of "[]" v] not_le [symmetric])

lemma low_bits: "unat ((ucast v OR 0x80 :: u8) AND 0x7F) = unat v mod 128" for v :: u64
proof -
  have "(ucast v OR 0x80 :: u8) AND 0x7F = ucast v AND 0x7F"
    by (simp add: bit.conj_disj_distrib2)
  also have "\<dots> = take_bit 7 (ucast v)" by (simp add: take_bit_eq_mask mask_eq_exp_minus_1)
  also have "unat \<dots> = unat v mod 128"
    by (simp add: unsigned_take_bit_eq unsigned_ucast_eq take_bit_take_bit) (simp add: take_bit_eq_mod)
  finally show ?thesis .
qed

lemma high_bit: "0x80 \<le> (ucast v OR 0x80 :: u8)" for v :: u64
  by (rule le_word_or1)

lemma read_varint_encode: "read_varint (encode_varint [] v @ rest) = Some (unat v, rest)"
proof (induction "unat v" arbitrary: v rule: less_induct)
  case less
  show ?case
  proof (cases "0x80 \<le> v")
    case True
    then have "128 \<le> unat v" by (simp add: word_le_nat_alt)
    then have d: "unat (drop_bit 7 v) < unat v" "unat (drop_bit 7 v) = unat v div 128"
      by (simp_all add: unat_drop7)
    have "\<not> (ucast v OR 0x80 :: u8) < 0x80" using high_bit [of v] by (simp add: not_less)
    with less [OF d(1)] d(2) True low_bits [of v] show ?thesis
      by (simp add: encode_varint_step(1))
  next
    case False
    then have s: "v < 0x80" by simp
    then have "unat v < 128" by (simp add: word_less_nat_alt)
    then have "unat (ucast v :: u8) = unat v"
      by (simp add: unsigned_ucast_eq take_bit_nat_eq_self)
    with s \<open>unat v < 128\<close> show ?thesis
      by (simp add: encode_varint_step(2) word_less_nat_alt)
  qed
qed

lemma varint_length:
  "length (encode_varint [] w) \<le> m \<longleftrightarrow> 0 < m \<and> unat w < 128 ^ m"
proof (induction m arbitrary: w)
  case 0
  show ?case using encode_varint.simps [of "[]" w] encode_varint_step [of w]
    by (cases "0x80 \<le> w") auto
next
  case (Suc m)
  show ?case
  proof (cases "0x80 \<le> w")
    case True
    then have "128 \<le> unat w" by (simp add: word_le_nat_alt)
    moreover have "length (encode_varint [] w) \<le> Suc m \<longleftrightarrow> 0 < m \<and> unat w div 128 < 128 ^ m"
      using True Suc [of "drop_bit 7 w"] by (simp add: encode_varint_step(1) unat_drop7)
    moreover have "unat w div 128 < 128 ^ m \<longleftrightarrow> unat w < 128 ^ Suc m"
      by (simp add: div_less_iff_less_mult mult.commute)
    moreover have "m = 0 \<Longrightarrow> unat w < 128 ^ Suc m \<Longrightarrow> False"
      using \<open>128 \<le> unat w\<close> by simp
    ultimately show ?thesis by blast
  next
    case False
    then have "unat w < 128" by (simp add: word_less_nat_alt not_le)
    moreover have "(128 :: nat) \<le> 128 ^ Suc m" by simp
    ultimately have "unat w < 128 ^ Suc m" by (rule less_le_trans)
    with False show ?thesis by (simp only: encode_varint_step(2) not_le) simp
  qed
qed

lemma varint_length_le: "length (encode_varint [] v) \<le> 10"
proof -
  have "unat v < 2 ^ 64" using unsigned_less [of v] by simp
  also have "(2 :: nat) ^ 64 < 128 ^ 10" by simp
  finally show ?thesis by (simp add: varint_length)
qed

text \<open>Varint encoding is exact and minimal: a base-128 reader gets the value back and is left
  with what follows, and \<open>n\<close> bytes are used exactly for values of \<open>n\<close> base-128 digits, so at
  most ten for 64 bits.\<close>

theorem varint_exact:
  "read_varint (encode_varint [] v @ rest) = Some (unat v, rest) \<and>
   length (encode_varint [] v) \<le> 10 \<and>
   (length (encode_varint [] v) \<le> n \<longleftrightarrow> 0 < n \<and> unat v < 128 ^ n)"
  using varint_length_le [of v] varint_length [of v n] read_varint_encode [of v rest] by simp

section \<open>Messages\<close>

lemma read_varint_nat: "n < 2 ^ 64 \<Longrightarrow> read_varint (varint n @ rest) = Some (n, rest)"
  by (simp add: read_varint_encode unat_of_nat)

lemma encode_varint_nonempty: "encode_varint [] v \<noteq> []"
  using encode_varint_step [of v] by (cases "0x80 \<le> v") auto

interpretation wire: stream_codec write_field read_field wire_valid
proof unfold_locales
  fix f rest assume v: "wire_valid f"
  show "read_field (write_field f @ rest) = Some (f, rest)"
  proof (cases f)
    case (Varint n x)
    with v have "8 * n < 2 ^ 64" "x < 2 ^ 64" by auto
    then have r: "read_varint (varint (8 * n) @ y) = Some (8 * n, y)"
      "read_varint (varint x @ y) = Some (x, y)" for y by (simp_all only: read_varint_nat)
    show ?thesis unfolding Varint write_field.simps append_assoc read_field_def r by (simp add: r)
  next
    case (Len n bs)
    with v have "8 * n + 2 < 2 ^ 64" "length bs < 2 ^ 64" by auto
    then have r: "read_varint (varint (8 * n + 2) @ y) = Some (8 * n + 2, y)"
      "read_varint (varint (length bs) @ y) = Some (length bs, y)" for y
      by (simp_all only: read_varint_nat)
    have m: "(8 * n + 2) mod 8 = 2" "(8 * n + 2) div 8 = n" by presburger+
    show ?thesis
      unfolding Len write_field.simps append_assoc read_field_def r by (simp only: option.case prod.case r m) simp
  qed
  show "write_field f \<noteq> []" by (cases f) (simp_all add: encode_varint_nonempty)
qed

lemma read_message_write:
  assumes "\<forall>f\<in>set fs. wire_valid f"
  shows "read_message (concat (map write_field fs)) = Some fs"
proof -
  have "length fs \<le> length (concat (map write_field fs))"
    using assms
  proof (induction fs)
    case (Cons f fs)
    then have "write_field f \<noteq> []" using wire.enc_nonempty by simp
    with Cons show ?case by (cases "write_field f") auto
  qed simp
  with wire.decode_all_enc [OF assms] show ?thesis by (simp add: read_message_def)
qed

lemma ucast_varint: "encode_varint [] (ucast w) = varint (unat w)" for w :: u32
proof -
  have "(ucast w :: u64) = word_of_nat (unat w)" by simp
  then show ?thesis by simp
qed

lemma varint_tag:
  fixes field_num :: u32
  assumes "unat field_num < 2 ^ 29"
  shows "encode_varint [] (ucast (push_bit 3 field_num)) = varint (8 * unat field_num)"
proof -
  have "unat (push_bit 3 field_num) = 8 * unat field_num"
    using assms by (simp only: unsigned_push_bit_eq) (simp add: take_bit_nat_eq_self push_bit_eq_mult)
  then show ?thesis by (simp only: ucast_varint)
qed

text \<open>The encoders as sequences of wire fields.\<close>

lemma encode_camera_trigger_fields:
  assumes "unat field_num < 2 ^ 29"
  shows "encode_camera_trigger field_num token =
    concat (map write_field [Varint (unat field_num) 1, Len 11 (to_bytes token)])"
  using varint_tag [OF assms]
  by (simp add: encode_camera_trigger_def encode_varint_buf encode_varint_nonempty)

lemma encode_set_mode_fields:
  "encode_set_mode mode token =
    concat (map write_field [Len 3 (write_field (Varint 4 (unat mode))), Len 6 (to_bytes token)])"
  by (simp add: encode_set_mode_def encode_varint_buf encode_varint_nonempty)

lemma encode_set_quality_fields:
  "encode_set_quality quality token =
    concat (map write_field
      [Len 4 [], Len 6 (to_bytes token), Len 8 (write_field (Varint 1 (unat quality)))])"
  by (simp add: encode_set_quality_def encode_varint_buf encode_varint_nonempty)

lemma sub_message_valid:
  fixes w :: u32
  assumes "f < 2 ^ 61"
  shows "wire_valid (Varint f (unat w))" "length (write_field (Varint f (unat w))) < 2 ^ 64"
    "read_message (write_field (Varint f (unat w))) = Some [Varint f (unat w)]"
proof -
  have "unat w < 2 ^ LENGTH(32)" by (rule unsigned_less)
  then have w: "unat w < 2 ^ 64" by simp
  with assms show v: "wire_valid (Varint f (unat w))" by simp
  show "length (write_field (Varint f (unat w))) < 2 ^ 64"
    using varint_length_le [of "word_of_nat (8 * f)"] varint_length_le [of "word_of_nat (unat w)"]
    by simp
  show "read_message (write_field (Varint f (unat w))) = Some [Varint f (unat w)]"
    using read_message_write [of "[Varint f (unat w)]"] v by simp
qed

text \<open>C32. The three camera commands are well-formed protobuf messages that say what was asked:
  a wire-format reader finds the trigger field set to 1 and the token in field 11; the mode
  in field 4 of the sub-message 3 and the token in field 6; an empty field 4, the token in
  field 6 and the quality in field 1 of the sub-message 8.\<close>

theorem camera_commands_decode:
  assumes "unat field_num < 2 ^ 29" and "length token < 2 ^ 64"
  shows "read_message (encode_camera_trigger field_num token) =
           Some [Varint (unat field_num) 1, Len 11 (to_bytes token)] \<and>
         (\<exists>sub. read_message (encode_set_mode mode token) =
            Some [Len 3 sub, Len 6 (to_bytes token)] \<and>
            read_message sub = Some [Varint 4 (unat mode)]) \<and>
         (\<exists>sub. read_message (encode_set_quality quality token) =
            Some [Len 4 [], Len 6 (to_bytes token), Len 8 sub] \<and>
            read_message sub = Some [Varint 1 (unat quality)])"
proof (intro conjI)
  show "read_message (encode_camera_trigger field_num token) =
      Some [Varint (unat field_num) 1, Len 11 (to_bytes token)]"
    unfolding encode_camera_trigger_fields [OF assms(1)]
    by (rule read_message_write) (use assms in simp)
  have "read_message (encode_set_mode mode token) =
      Some [Len 3 (write_field (Varint 4 (unat mode))), Len 6 (to_bytes token)]"
    unfolding encode_set_mode_fields
    by (rule read_message_write) (use assms sub_message_valid [of 4 mode] in simp)
  then show "\<exists>sub. read_message (encode_set_mode mode token) =
      Some [Len 3 sub, Len 6 (to_bytes token)] \<and> read_message sub = Some [Varint 4 (unat mode)]"
    using sub_message_valid(3) [of 4 mode] by auto
  have "read_message (encode_set_quality quality token) =
      Some [Len 4 [], Len 6 (to_bytes token), Len 8 (write_field (Varint 1 (unat quality)))]"
    unfolding encode_set_quality_fields
    by (rule read_message_write) (use assms sub_message_valid [of 1 quality] in simp)
  then show "\<exists>sub. read_message (encode_set_quality quality token) =
      Some [Len 4 [], Len 6 (to_bytes token), Len 8 sub] \<and> read_message sub = Some [Varint 1 (unat quality)]"
    using sub_message_valid(3) [of 1 quality] by auto
qed

theorem camera_commands_decode_witness:
  "read_message (encode_camera_trigger 9 ''I47hv'') = Some [Varint 9 1, Len 11 (to_bytes ''I47hv'')]"
  using camera_commands_decode [of 9 "''I47hv''"] by simp

end
