(* ===== verification/Sdp.thy ===== *)
theory Sdp
  imports RustStr
begin

text \<open>
  The SDP text of the DESCRIBE response and the extraction of the H.264 parameters from the
  camera's SDP (\<open>src/rtsp/sdp.rs\<close>).
\<close>

section \<open>Building and parsing\<close>

record h264_params =
  profile_level_id :: string
  sprop_parameter_sets :: string
  packetization_mode :: u8
  payload_type :: u8

abbreviation nl :: string where "nl \<equiv> [CHR 0x0D, CHR 0x0A]"

definition build_sdp :: "string \<Rightarrow> h264_params \<Rightarrow> string" where
  "build_sdp session_name p =
     (let sprop_clause = (if sprop_parameter_sets p = [] then []
                          else '';sprop-parameter-sets='' @ sprop_parameter_sets p);
          pt = show_nat (unat (payload_type p))
      in ''v=0'' @ nl @
         ''o=- 0 0 IN IP4 0.0.0.0'' @ nl @
         ''s='' @ session_name @ nl @
         ''c=IN IP4 0.0.0.0'' @ nl @
         ''t=0 0'' @ nl @
         ''m=video 0 RTP/AVP '' @ pt @ nl @
         ''a=rtpmap:'' @ pt @ '' H264/90000'' @ nl @
         ''a=fmtp:'' @ pt @ '' packetization-mode='' @ show_nat (unat (packetization_mode p)) @
           '';profile-level-id='' @ profile_level_id p @ sprop_clause @ nl @
         ''a=control:streamid=0'' @ nl)"

text \<open>The accumulator of the loop over the \<open>key=value\<close> parameters of one \<open>fmtp\<close> line.\<close>

record fmtp_acc =
  acc_profile :: "string option"
  acc_sprop :: string
  acc_mode :: u8

definition fmtp_kv :: "string \<Rightarrow> fmtp_acc \<Rightarrow> fmtp_acc" where
  "fmtp_kv kv a =
     (case split_once (CHR ''='') kv of
        None \<Rightarrow> a
      | Some (k, v) \<Rightarrow>
          if trim k = ''profile-level-id'' then a\<lparr>acc_profile := Some (trim v)\<rparr>
          else if trim k = ''sprop-parameter-sets'' then a\<lparr>acc_sprop := trim v\<rparr>
          else if trim k = ''packetization-mode'' then
            (case parse_uint u8_max (trim v) of
               None \<Rightarrow> a | Some n \<Rightarrow> a\<lparr>acc_mode := word_of_nat n\<rparr>)
          else a)"

text \<open>One line of the SDP: the parameters if it is a usable \<open>fmtp\<close> line.\<close>

definition fmtp_line :: "string \<Rightarrow> h264_params option" where
  "fmtp_line line0 =
     (let line = trim_end_char (CHR 0x0D) line0 in
      Option.bind (strip_prefix ''a=fmtp:'' line) (\<lambda>kv_part.
      Option.bind (split_once (CHR '' '') kv_part) (\<lambda>(pt_str, kv_part).
      Option.bind (parse_uint u8_max (trim pt_str)) (\<lambda>pt.
        let acc = fold fmtp_kv (split_on (CHR '';'') kv_part)
                    \<lparr>acc_profile = None, acc_sprop = [], acc_mode = 1\<rparr>
        in map_option (\<lambda>pli. \<lparr>profile_level_id = pli, sprop_parameter_sets = acc_sprop acc,
              packetization_mode = acc_mode acc, payload_type = word_of_nat pt\<rparr>) (acc_profile acc)))))"

fun first_some :: "('a \<Rightarrow> 'b option) \<Rightarrow> 'a list \<Rightarrow> 'b option" where
  "first_some f [] = None"
| "first_some f (x # xs) = (case f x of None \<Rightarrow> first_some f xs | Some y \<Rightarrow> Some y)"

definition extract_h264_params :: "string \<Rightarrow> h264_params option" where
  "extract_h264_params remote_sdp = first_some fmtp_line (str_lines remote_sdp)"

section \<open>Round trip\<close>

lemma str_lines_crlf:
  assumes "CHR 0x0A \<notin> set l"
  shows "str_lines (l @ CHR 0x0D # CHR 0x0A # s) = l # str_lines s"
proof -
  have "split_on (CHR 0x0A) ((l @ [CHR 0x0D]) @ CHR 0x0A # s) = (l @ [CHR 0x0D]) # split_on (CHR 0x0A) s"
    by (rule split_on_append) (use assms in simp)
  then have "split_on (CHR 0x0A) (l @ CHR 0x0D # CHR 0x0A # s) = (l @ [CHR 0x0D]) # split_on (CHR 0x0A) s"
    by simp
  then show ?thesis by (simp add: str_lines_def Let_def strip_cr_def)
qed

lemma str_lines_Nil [simp]: "str_lines [] = []"
  by (simp add: str_lines_def)

lemma trim_end_char_prefix: "prefix (trim_end_char c s) s"
proof -
  have "s = rev (rev s)" by simp
  also have "rev s = takeWhile (\<lambda>x. x = c) (rev s) @ dropWhile (\<lambda>x. x = c) (rev s)" by simp
  finally show ?thesis unfolding trim_end_char_def prefix_def by (metis rev_append)
qed

lemma trim_end_char_other: "s \<noteq> [] \<Longrightarrow> last s \<noteq> c \<Longrightarrow> trim_end_char c s = s"
  by (cases s rule: rev_cases) (simp_all add: trim_end_char_def)

lemma fmtp_line_other: "\<not> prefix ''a=fmtp:'' l \<Longrightarrow> fmtp_line l = None"
proof -
  assume a: "\<not> prefix ''a=fmtp:'' l"
  have "strip_prefix ''a=fmtp:'' (trim_end_char (CHR 0x0D) l) = None"
  proof (rule ccontr)
    assume "strip_prefix ''a=fmtp:'' (trim_end_char (CHR 0x0D) l) \<noteq> None"
    then obtain r where "trim_end_char (CHR 0x0D) l = ''a=fmtp:'' @ r"
      by (auto simp: strip_prefix_Some)
    with trim_end_char_prefix [of "CHR 0x0D" l] have "prefix (''a=fmtp:'' @ r) l" by simp
    with a show False by (metis append_prefixD)
  qed
  then show ?thesis by (simp add: fmtp_line_def Let_def)
qed

text \<open>A parameter value: visible characters other than the semicolon.\<close>

definition param_ok :: "string \<Rightarrow> bool" where
  "param_ok v \<longleftrightarrow> v \<noteq> [] \<and> (\<forall>c\<in>set v. solid c \<and> c \<noteq> CHR '';'')"

definition sdp_ok :: "string \<Rightarrow> h264_params \<Rightarrow> bool" where
  "sdp_ok name p \<longleftrightarrow> CHR 0x0A \<notin> set name \<and> param_ok (profile_level_id p) \<and>
     (sprop_parameter_sets p = [] \<or> param_ok (sprop_parameter_sets p))"

lemma param_ok_trim: "param_ok v \<Longrightarrow> trim v = v"
  by (rule trim_solid) (auto simp: param_ok_def)

lemma param_ok_chars: "param_ok v \<Longrightarrow> CHR '';'' \<notin> set v \<and> CHR 0x0A \<notin> set v \<and> last v \<noteq> CHR 0x0D"
proof -
  assume p: "param_ok v"
  then have "last v \<in> set v" by (simp add: param_ok_def)
  with p have "solid (last v)" by (auto simp: param_ok_def)
  moreover have "\<not> solid (CHR 0x0A)" "\<not> solid (CHR 0x0D)" by (simp_all add: solid_def)
  moreover have "\<forall>c\<in>set v. solid c \<and> c \<noteq> CHR '';''" using p by (simp add: param_ok_def)
  ultimately show ?thesis by metis
qed

lemma show_nat_not: "\<not> is_ascii_digit c \<Longrightarrow> c \<notin> set (show_nat n)"
  using show_nat_digits [of c n] by auto

lemma show_nat_free [simp]:
  "CHR '' '' \<notin> set (show_nat n)" "CHR '';'' \<notin> set (show_nat n)" "CHR 0x0A \<notin> set (show_nat n)"
  by (rule show_nat_not, simp add: is_ascii_digit_def)+

lemma trim_keys:
  "trim ''packetization-mode'' = ''packetization-mode''"
  "trim ''profile-level-id'' = ''profile-level-id''"
  "trim ''sprop-parameter-sets'' = ''sprop-parameter-sets''"
  by (rule trim_solid; simp add: solid_def)+

lemma fmtp_kv_fields:
  "fmtp_kv (''packetization-mode='' @ show_nat (unat (m :: u8))) a = a\<lparr>acc_mode := m\<rparr>"
  "param_ok v \<Longrightarrow> fmtp_kv (''profile-level-id='' @ v) a = a\<lparr>acc_profile := Some v\<rparr>"
  "param_ok v \<Longrightarrow> fmtp_kv (''sprop-parameter-sets='' @ v) a = a\<lparr>acc_sprop := v\<rparr>"
proof -
  have "unat m < 2 ^ LENGTH(8)" by (rule unsigned_less)
  then have "unat m \<le> 255" by simp
  then have "parse_uint u8_max (show_nat (unat m)) = Some (unat m)" by simp
  then show "fmtp_kv (''packetization-mode='' @ show_nat (unat m)) a = a\<lparr>acc_mode := m\<rparr>"
    using trim_keys(1) by (simp add: fmtp_kv_def del: One_nat_def)
  show "param_ok v \<Longrightarrow> fmtp_kv (''profile-level-id='' @ v) a = a\<lparr>acc_profile := Some v\<rparr>"
    using trim_keys(2) by (simp add: fmtp_kv_def param_ok_trim)
  show "param_ok v \<Longrightarrow> fmtp_kv (''sprop-parameter-sets='' @ v) a = a\<lparr>acc_sprop := v\<rparr>"
    using trim_keys(3) by (simp add: fmtp_kv_def param_ok_trim)
qed

lemma fmtp_line_built:
  assumes "param_ok pli" "sprop = [] \<or> param_ok sprop"
  shows "fmtp_line (''a=fmtp:'' @ show_nat (unat pt) @ '' packetization-mode='' @ show_nat (unat m) @
           '';profile-level-id='' @ pli @ (if sprop = [] then [] else '';sprop-parameter-sets='' @ sprop)) =
         Some \<lparr>profile_level_id = pli, sprop_parameter_sets = sprop, packetization_mode = m, payload_type = pt\<rparr>"
proof -
  define A where "A = ''packetization-mode='' @ show_nat (unat m)"
  define B where "B = ''profile-level-id='' @ pli"
  define C where "C = ''sprop-parameter-sets='' @ sprop"
  define D where "D = (if sprop = [] then [] else CHR '';'' # C)"
  let ?kvs = "A @ CHR '';'' # B @ D"
  let ?line = "''a=fmtp:'' @ show_nat (unat pt) @ CHR '' '' # ?kvs"
  note pc = param_ok_chars [OF assms(1)]
  have sc: "sprop \<noteq> [] \<Longrightarrow> CHR '';'' \<notin> set sprop \<and> last sprop \<noteq> CHR 0x0D"
    using assms(2) param_ok_chars [of sprop] by auto
  have kv: "fmtp_kv A a = a\<lparr>acc_mode := m\<rparr>" "fmtp_kv B a = a\<lparr>acc_profile := Some pli\<rparr>"
    "sprop \<noteq> [] \<Longrightarrow> fmtp_kv C a = a\<lparr>acc_sprop := sprop\<rparr>" for a
    unfolding A_def B_def C_def
    by (rule fmtp_kv_fields(1), rule fmtp_kv_fields(2) [OF assms(1)], rule fmtp_kv_fields(3))
      (use assms(2) in blast)
  have free: "CHR '';'' \<notin> set A" "CHR '';'' \<notin> set B" "sprop \<noteq> [] \<Longrightarrow> CHR '';'' \<notin> set C"
    unfolding A_def B_def C_def using pc sc by simp_all
  have "last ?line = (if sprop = [] then last pli else last sprop)"
    using assms(1) by (simp add: A_def B_def C_def D_def param_ok_def)
  then have "last ?line \<noteq> CHR 0x0D" using pc sc by (simp split: if_splits)
  then have "trim_end_char (CHR 0x0D) ?line = ?line" by (intro trim_end_char_other) simp_all
  moreover have "strip_prefix ''a=fmtp:'' ?line = Some (show_nat (unat pt) @ CHR '' '' # ?kvs)"
    by (rule strip_prefix_append)
  moreover have "split_once (CHR '' '') (show_nat (unat pt) @ CHR '' '' # ?kvs) = Some (show_nat (unat pt), ?kvs)"
    by (rule split_once_append) simp
  moreover have "unat pt < 2 ^ LENGTH(8)" by (rule unsigned_less)
  then have "parse_uint u8_max (trim (show_nat (unat pt))) = Some (unat pt)" by simp
  moreover have "fold fmtp_kv (split_on (CHR '';'') ?kvs) \<lparr>acc_profile = None, acc_sprop = [], acc_mode = 1\<rparr> =
      \<lparr>acc_profile = Some pli, acc_sprop = sprop, acc_mode = m\<rparr>"
    using free by (simp add: D_def split_on_append split_on_none kv)
  ultimately have "fmtp_line ?line =
      Some \<lparr>profile_level_id = pli, sprop_parameter_sets = sprop, packetization_mode = m, payload_type = pt\<rparr>"
    unfolding fmtp_line_def Let_def by simp
  then show ?thesis by (simp add: A_def B_def C_def D_def split: if_splits)
qed

lemma extract_built_sdp:
  assumes "sdp_ok name p"
  shows "extract_h264_params (build_sdp name p) = Some p"
proof -
  define F where "F = ''a=fmtp:'' @ show_nat (unat (payload_type p)) @ '' packetization-mode='' @
      show_nat (unat (packetization_mode p)) @ '';profile-level-id='' @ profile_level_id p @
      (if sprop_parameter_sets p = [] then [] else '';sprop-parameter-sets='' @ sprop_parameter_sets p)"
  define N where "N = ''s='' @ name"
  define M where "M = ''m=video 0 RTP/AVP '' @ show_nat (unat (payload_type p))"
  define R where "R = ''a=rtpmap:'' @ show_nat (unat (payload_type p)) @ '' H264/90000''"
  define V where "V = ''v=0''"
  define W where "W = ''o=- 0 0 IN IP4 0.0.0.0''"
  define C where "C = ''c=IN IP4 0.0.0.0''"
  define T where "T = ''t=0 0''"
  define K where "K = ''a=control:streamid=0''"
  note defs = F_def N_def M_def R_def V_def W_def C_def T_def K_def
  have a: "param_ok (profile_level_id p)" "sprop_parameter_sets p = [] \<or> param_ok (sprop_parameter_sets p)"
    "CHR 0x0A \<notin> set name" using assms by (simp_all add: sdp_ok_def)
  have nolf: "CHR 0x0A \<notin> set F" "CHR 0x0A \<notin> set N" "CHR 0x0A \<notin> set M" "CHR 0x0A \<notin> set R"
    "CHR 0x0A \<notin> set V" "CHR 0x0A \<notin> set W" "CHR 0x0A \<notin> set C" "CHR 0x0A \<notin> set T" "CHR 0x0A \<notin> set K"
    using a param_ok_chars [OF a(1)] param_ok_chars [of "sprop_parameter_sets p"]
    by (auto simp: defs)
  have "build_sdp name p = V @ nl @ W @ nl @ N @ nl @ C @ nl @ T @ nl @ M @ nl @ R @ nl @ F @ nl @ K @ nl"
    by (simp add: build_sdp_def Let_def defs)
  then have lines: "str_lines (build_sdp name p) = [V, W, N, C, T, M, R, F, K]"
    using nolf by (simp add: str_lines_crlf)
  have "fmtp_line F = Some p" unfolding F_def fmtp_line_built [OF a(1,2)] by simp
  moreover have "fmtp_line l = None" if "l \<in> {V, W, N, C, T, M, R}" for l
    by (rule fmtp_line_other) (use that in \<open>auto simp: defs\<close>)
  ultimately show ?thesis unfolding extract_h264_params_def lines by simp
qed

text \<open>SDP round trip: the parameters a client reads off the DESCRIBE answer are the ones the
  supervisor negotiated, for every camera name without a line feed and every parameter value
  that can stand in an \<open>fmtp\<close> line, with and without parameter sets.\<close>

theorem sdp_roundtrip:
  assumes "sdp_ok name p"
  shows "extract_h264_params (build_sdp name p) = Some p"
  by (rule extract_built_sdp [OF assms])

theorem sdp_roundtrip_witness:
  "extract_h264_params (build_sdp ''Core One'' \<lparr>profile_level_id = ''42c01e'',
     sprop_parameter_sets = ''Z0L=,aM4'', packetization_mode = 1, payload_type = 102\<rparr>) =
   Some \<lparr>profile_level_id = ''42c01e'', sprop_parameter_sets = ''Z0L=,aM4'',
     packetization_mode = 1, payload_type = 102\<rparr>"
  by (rule sdp_roundtrip) (simp add: sdp_ok_def param_ok_def solid_def)

end
