(* ===== verification/Supervisor.thy ===== *)
theory Supervisor
  imports Sdp ReconnectBudget Backoff
begin

text \<open>
  The supervisor (\<open>src/supervisor/mod.rs\<close>): it owns the WebRTC session, brings it up for the
  first viewer and tears it down when the last viewer has been gone for the idle timeout.

  The program runs many tasks over one shared state: a task per viewer inside \<open>subscribe\<close>,
  a reconnect watchdog per session, the viewer event loop, and the idle timers it spawns.
  The model is a state record and one transition per atomic section of a task, that is per
  stretch of code between two points where another task can act (an await, a lock, a send).
  A task's program counter says where it stands; the labels of the transitions name the
  task that moves and carry what the environment decides (the outcome of the factory's
  \<open>connect\<close>, the jitter, the passage of time).
\<close>

section \<open>State\<close>

datatype sup_state = Idle | Connecting | Streaming

datatype viewer_event_kind = Attached | Detached

text \<open>The program counter of \<open>subscribe\<close>. Channels and session handles are identified by
  numbers drawn from \<open>next_id\<close>.\<close>

datatype sub_pc =
    SCounted                                \<comment> \<open>viewer count raised\<close>
  | SAttached                               \<comment> \<open>\<open>Attached\<close> sent\<close>
  | SConnecting nat                         \<comment> \<open>awaits \<open>connect_session\<close> with this channel\<close>
  | SConnected nat h264_params nat          \<comment> \<open>channel, parameters, session\<close>
  | SConnectFailed
  | SSpawn nat nat                          \<comment> \<open>about to spawn the watchdog\<close>
  | SWatching                               \<comment> \<open>about to subscribe to the state watch\<close>
  | SWatch                                  \<comment> \<open>in the waiting loop, holds a receiver\<close>
  | SRollback bool                          \<comment> \<open>about to send \<open>Detached\<close>; records an error?\<close>
  | SJoin                                   \<comment> \<open>about to read the session\<close>
  | SLive nat h264_params                   \<comment> \<open>holds a \<open>Subscription\<close> of this channel\<close>
  | SDone
  | SPanic

datatype wd_pc =
    WWait nat                               \<comment> \<open>awaits the end of this session\<close>
  | WEnded
  | WRetry
  | WSleep time                             \<comment> \<open>until this instant\<close>
  | WCheckCount
  | WCheckFailed
  | WConnecting
  | WConnected nat
  | WDone

record watchdog =
  wd_chan :: nat
  wd_backoff :: exp_backoff
  wd_pc :: wd_pc

record supervisor =
  clock :: time
  next_id :: nat
  sst :: sup_state
  rtp_tx :: "nat option"
  stop :: "nat option"
  h264 :: "h264_params option"
  viewer_count :: int
  queue :: "viewer_event_kind list"
  budget :: reconnect_budget
  failed :: bool
  watched :: sup_state
  wss_reconnects_total :: u64
  last_error_at :: "time option"
  session_started_at :: "time option"
  subs :: "sub_pc list"
  watchdogs :: "watchdog list"
  idle_timer :: "nat option"
  timers :: "(nat \<times> time) list"
  handles :: "nat list"
  ended :: "nat list"
  panicked :: bool

text \<open>\<open>viewer_count\<close> is an \<open>AtomicI32\<close> in the code and an integer here: it is the number of live or waiting
  subscribers and of queued departures (\<open>viewer_accounting\<close>), so it wraps only with 2^31 of them.\<close>

text \<open>What does not change: the idle timeout, whether some task outside the supervisor holds a
  receiver of the state watch all along (the MQTT state watcher does), and the rounding of
  the backoff's product.\<close>

record sup_config =
  idle_timeout :: nat
  standing :: bool
  rounding :: "rat \<Rightarrow> rat"

definition sup_new :: "time \<Rightarrow> supervisor" where
  "sup_new t =
     \<lparr>clock = t, next_id = 0, sst = Idle, rtp_tx = None, stop = None, h264 = None,
      viewer_count = 0, queue = [], budget = rb_default t, failed = False, watched = Idle,
      wss_reconnects_total = 0, last_error_at = None, session_started_at = None,
      subs = [], watchdogs = [], idle_timer = None, timers = [], handles = [], ended = [],
      panicked = False\<rparr>"

section \<open>Helpers of the transitions\<close>

text \<open>\<open>watch::Sender::send\<close> stores the value only while the channel has a receiver.\<close>

definition has_receiver :: "sup_config \<Rightarrow> supervisor \<Rightarrow> bool" where
  "has_receiver c s \<longleftrightarrow> standing c \<or> (\<exists>pc\<in>set (subs s). pc = SWatch)"

definition publish :: "sup_config \<Rightarrow> sup_state \<Rightarrow> supervisor \<Rightarrow> supervisor" where
  "publish c v s = (if has_receiver c s then s\<lparr>watched := v\<rparr> else s)"

definition send_event :: "viewer_event_kind \<Rightarrow> supervisor \<Rightarrow> supervisor" where
  "send_event e s = s\<lparr>queue := queue s @ [e]\<rparr>"

definition sub_goto :: "nat \<Rightarrow> sub_pc \<Rightarrow> supervisor \<Rightarrow> supervisor" where
  "sub_goto i pc s = s\<lparr>subs := (subs s)[i := pc]\<rparr>"

definition wd_goto :: "nat \<Rightarrow> wd_pc \<Rightarrow> supervisor \<Rightarrow> supervisor" where
  "wd_goto i pc s = s\<lparr>watchdogs := (watchdogs s)[i := (watchdogs s ! i)\<lparr>wd_pc := pc\<rparr>]\<rparr>"

text \<open>Dropping a \<open>StopHandle\<close> stops its session.\<close>

definition drop_handle :: "nat \<Rightarrow> supervisor \<Rightarrow> supervisor" where
  "drop_handle h s = s\<lparr>handles := filter (\<lambda>k. k \<noteq> h) (handles s)\<rparr>"

definition drop_stop :: "supervisor \<Rightarrow> supervisor" where
  "drop_stop s = (case stop s of None \<Rightarrow> s | Some h \<Rightarrow> (drop_handle h s)\<lparr>stop := None\<rparr>)"

text \<open>A budget operation; its panic would poison the mutex.\<close>

definition with_budget ::
  "'a outcome \<Rightarrow> ('a \<Rightarrow> reconnect_budget) \<Rightarrow> supervisor \<Rightarrow> ('a \<Rightarrow> supervisor \<Rightarrow> supervisor) \<Rightarrow> supervisor"
where
  "with_budget r get s k =
     (case r of Panic \<Rightarrow> s\<lparr>panicked := True\<rparr> | Ret x \<Rightarrow> k x (s\<lparr>budget := get x\<rparr>))"

section \<open>subscribe\<close>

definition subscribe :: "supervisor \<Rightarrow> supervisor" where
  "subscribe s = s\<lparr>viewer_count := viewer_count s + 1, subs := subs s @ [SCounted]\<rparr>"

text \<open>The section under the state lock that decides who connects.\<close>

definition sub_acquire :: "sup_config \<Rightarrow> nat \<Rightarrow> supervisor \<Rightarrow> supervisor" where
  "sub_acquire c i s =
     (case sst s of
        Idle \<Rightarrow>
          with_budget (rb_wait_time (clock s) (budget s)) snd s (\<lambda>(wait, _) s1.
            if wait \<noteq> 0 then sub_goto i (SRollback False) s1
            else
              let ch = next_id s1;
                  s2 = publish c Connecting (s1\<lparr>sst := Connecting, next_id := ch + 1\<rparr>)
              in sub_goto i (SConnecting ch) s2)
      | Connecting \<Rightarrow> sub_goto i SWatching s
      | Streaming \<Rightarrow> sub_goto i SJoin s)"

text \<open>\<open>connect_session\<close> returns: the budget is charged with the outcome.\<close>

definition sub_connect_ok :: "nat \<Rightarrow> nat \<Rightarrow> h264_params \<Rightarrow> supervisor \<Rightarrow> supervisor" where
  "sub_connect_ok i ch params s =
     with_budget (rb_record_success (clock s) (budget s)) id s (\<lambda>_ s1.
       let sid = next_id s1
       in sub_goto i (SConnected ch params sid)
            (s1\<lparr>next_id := sid + 1, handles := sid # handles s1\<rparr>))"

definition sub_connect_err :: "nat \<Rightarrow> supervisor \<Rightarrow> supervisor" where
  "sub_connect_err i s =
     with_budget (rb_record_failure (clock s) (budget s)) id s (\<lambda>_ s1. sub_goto i SConnectFailed s1)"

definition sub_connect_failed :: "sup_config \<Rightarrow> nat \<Rightarrow> supervisor \<Rightarrow> supervisor" where
  "sub_connect_failed c i s =
     (let s1 = (if sst s = Connecting then publish c Idle (s\<lparr>sst := Idle\<rparr>) else s)
      in sub_goto i (SRollback True) s1)"

definition sub_connected ::
  "sup_config \<Rightarrow> nat \<Rightarrow> nat \<Rightarrow> h264_params \<Rightarrow> nat \<Rightarrow> supervisor \<Rightarrow> supervisor"
where
  "sub_connected c i ch params sid s =
     (let s1 = publish c Streaming (s\<lparr>session_started_at := Some (clock s), sst := Streaming\<rparr>);
          s2 = (drop_stop s1)\<lparr>rtp_tx := Some ch, stop := Some sid,
                 h264 := (case h264 s1 of None \<Rightarrow> Some params | Some p \<Rightarrow> Some p)\<rparr>
      in sub_goto i (SSpawn ch sid) s2)"

definition sub_spawn :: "nat \<Rightarrow> nat \<Rightarrow> nat \<Rightarrow> supervisor \<Rightarrow> supervisor" where
  "sub_spawn i ch sid s =
     sub_goto i SJoin (s\<lparr>watchdogs := watchdogs s @
       [\<lparr>wd_chan = ch, wd_backoff = eb_new, wd_pc = WWait sid\<rparr>]\<rparr>)"

text \<open>The waiting loop re-reads the watch on every change and leaves it on \<open>Streaming\<close> or
  \<open>Idle\<close>; on \<open>Connecting\<close> it stays blocked (no transition).\<close>

definition sub_watch :: "nat \<Rightarrow> supervisor \<Rightarrow> supervisor option" where
  "sub_watch i s =
     (case watched s of
        Streaming \<Rightarrow> Some (sub_goto i SJoin s)
      | Idle \<Rightarrow> Some (sub_goto i (SRollback False) s)
      | Connecting \<Rightarrow> None)"

text \<open>The two \<open>expect\<close> calls at the end of \<open>subscribe\<close>.\<close>

definition sub_join :: "nat \<Rightarrow> supervisor \<Rightarrow> supervisor" where
  "sub_join i s =
     (case h264 s of
        None \<Rightarrow> sub_goto i SPanic (s\<lparr>panicked := True\<rparr>)
      | Some params \<Rightarrow>
          (case rtp_tx s of
             None \<Rightarrow> sub_goto i SPanic (s\<lparr>panicked := True\<rparr>)
           | Some ch \<Rightarrow> sub_goto i (SLive ch params) s))"

definition sub_rollback :: "nat \<Rightarrow> bool \<Rightarrow> supervisor \<Rightarrow> supervisor" where
  "sub_rollback i err s =
     (let s1 = send_event Detached s
      in sub_goto i SDone (if err then s1\<lparr>last_error_at := Some (clock s1)\<rparr> else s1))"

fun sub_step :: "sup_config \<Rightarrow> nat \<Rightarrow> sub_pc \<Rightarrow> supervisor \<Rightarrow> supervisor option" where
  "sub_step c i SCounted s = Some (sub_goto i SAttached (send_event Attached s))"
| "sub_step c i SAttached s = Some (sub_acquire c i s)"
| "sub_step c i SConnectFailed s = Some (sub_connect_failed c i s)"
| "sub_step c i (SConnected ch params sid) s = Some (sub_connected c i ch params sid s)"
| "sub_step c i (SSpawn ch sid) s = Some (sub_spawn i ch sid s)"
| "sub_step c i SWatching s = Some (sub_goto i SWatch s)"
| "sub_step c i SWatch s = sub_watch i s"
| "sub_step c i (SRollback err) s = Some (sub_rollback i err s)"
| "sub_step c i SJoin s = Some (sub_join i s)"
| "sub_step c i (SConnecting ch) s = None"
| "sub_step c i (SLive ch params) s = None"
| "sub_step c i SDone s = None"
| "sub_step c i SPanic s = None"

text \<open>\<open>Subscription::drop\<close>.\<close>

definition drop_subscription :: "nat \<Rightarrow> supervisor \<Rightarrow> supervisor" where
  "drop_subscription i s = sub_goto i SDone (send_event Detached s)"

section \<open>The reconnect watchdog\<close>

definition same_channel :: "nat \<Rightarrow> supervisor \<Rightarrow> bool" where
  "same_channel ch s \<longleftrightarrow> rtp_tx s = Some ch"

definition wd_delay :: "sup_config \<Rightarrow> nat \<Rightarrow> rat \<Rightarrow> supervisor \<Rightarrow> supervisor" where
  "wd_delay c i jitter s =
     with_budget (rb_wait_time (clock s) (budget s)) snd s (\<lambda>(budget_wait, _) s1.
       let w = watchdogs s1 ! i;
           (d, b) = eb_next_delay (rounding c) jitter (wd_backoff w);
           delay = max d budget_wait
       in s1\<lparr>watchdogs := (watchdogs s1)[i := w\<lparr>wd_backoff := b, wd_pc := WSleep (clock s1 + delay)\<rparr>]\<rparr>)"

text \<open>The H.264 parameters that a reconnect returns are not used (\<open>Ok((_h264, ...))\<close>), so they are no
  argument here: the parameters of the state remain those of the first connect.\<close>

definition wd_reconnect_ok :: "nat \<Rightarrow> supervisor \<Rightarrow> supervisor" where
  "wd_reconnect_ok i s =
     with_budget (rb_record_success (clock s) (budget s)) id s (\<lambda>_ s1.
       let sid = next_id s1
       in wd_goto i (WConnected sid) (s1\<lparr>next_id := sid + 1, handles := sid # handles s1\<rparr>))"

definition wd_reconnect_err :: "nat \<Rightarrow> supervisor \<Rightarrow> supervisor" where
  "wd_reconnect_err i s =
     with_budget (rb_record_failure (clock s) (budget s)) id s (\<lambda>_ s1.
       wd_goto i WRetry (s1\<lparr>last_error_at := Some (clock s1)\<rparr>))"

definition wd_connected :: "sup_config \<Rightarrow> nat \<Rightarrow> nat \<Rightarrow> supervisor \<Rightarrow> supervisor" where
  "wd_connected c i sid s =
     (let w = watchdogs s ! i in
      if \<not> same_channel (wd_chan w) s then wd_goto i WDone (drop_handle sid s)
      else
        let s1 = publish c Streaming ((drop_stop s)\<lparr>stop := Some sid, sst := Streaming\<rparr>)
        in s1\<lparr>session_started_at := Some (clock s1),
              wss_reconnects_total := wss_reconnects_total s1 + 1,
              watchdogs := (watchdogs s1)[i := w\<lparr>wd_backoff := eb_reset (wd_backoff w),
                                                wd_pc := WWait sid\<rparr>]\<rparr>)"

fun wd_step :: "sup_config \<Rightarrow> nat \<Rightarrow> wd_pc \<Rightarrow> supervisor \<Rightarrow> supervisor option" where
  "wd_step c i (WWait sid) s =
     (if sid \<in> set (ended s) then Some (wd_goto i WEnded s)
      else if sid \<notin> set (handles s) then Some (wd_goto i WDone s)
      else None)"
| "wd_step c i WEnded s = Some (wd_goto i (if viewer_count s \<le> 0 then WDone else WRetry) s)"
| "wd_step c i (WSleep until) s =
     (if clock s < until then None
      else Some (wd_goto i (if same_channel (wd_chan (watchdogs s ! i)) s then WCheckCount else WDone) s))"
| "wd_step c i WCheckCount s =
     Some (wd_goto i (if viewer_count s \<le> 0 then WDone else WCheckFailed) s)"
| "wd_step c i WCheckFailed s = Some (wd_goto i (if failed s then WDone else WConnecting) s)"
| "wd_step c i (WConnected sid) s = Some (wd_connected c i sid s)"
| "wd_step c i WRetry s = None"
| "wd_step c i WConnecting s = None"
| "wd_step c i WDone s = None"

section \<open>The viewer event loop and the idle timer\<close>

definition abort_timer :: "supervisor \<Rightarrow> supervisor" where
  "abort_timer s =
     (case idle_timer s of
        None \<Rightarrow> s
      | Some t \<Rightarrow> s\<lparr>idle_timer := None, timers := filter (\<lambda>(k, _). k \<noteq> t) (timers s)\<rparr>)"

text \<open>Replacing the join handle detaches a timer that is still running, it does not stop it.\<close>

definition arm_timer :: "sup_config \<Rightarrow> supervisor \<Rightarrow> supervisor" where
  "arm_timer c s =
     (let t = next_id s
      in s\<lparr>next_id := t + 1, idle_timer := Some t, timers := (t, clock s + idle_timeout c) # timers s\<rparr>)"

definition viewer_event :: "sup_config \<Rightarrow> viewer_event_kind \<Rightarrow> supervisor \<Rightarrow> supervisor" where
  "viewer_event c ev s =
     (case ev of
        Attached \<Rightarrow> abort_timer s
      | Detached \<Rightarrow>
          let after = viewer_count s - 1; s1 = s\<lparr>viewer_count := after\<rparr>
          in if after \<le> 0 then arm_timer c s1 else s1)"

definition loop_recv :: "sup_config \<Rightarrow> supervisor \<Rightarrow> supervisor option" where
  "loop_recv c s =
     (case queue s of [] \<Rightarrow> None | ev # q \<Rightarrow> Some (viewer_event c ev (s\<lparr>queue := q\<rparr>)))"

definition teardown_session :: "sup_config \<Rightarrow> supervisor \<Rightarrow> supervisor" where
  "teardown_session c s =
     (if 0 < viewer_count s then s
      else if sst s = Streaming \<or> sst s = Connecting then
        publish c Idle ((drop_stop s)\<lparr>rtp_tx := None, sst := Idle, h264 := None\<rparr>)
      else s)"

definition timer_fire :: "sup_config \<Rightarrow> nat \<Rightarrow> supervisor \<Rightarrow> supervisor option" where
  "timer_fire c t s =
     (case map_of (timers s) t of
        None \<Rightarrow> None
      | Some due \<Rightarrow>
          if clock s < due then None
          else Some (teardown_session c (s\<lparr>timers := filter (\<lambda>(k, _). k \<noteq> t) (timers s)\<rparr>)))"

section \<open>Passive readers\<close>

record supervisor_snapshot =
  snap_state :: sup_state
  snap_viewers :: u32
  snap_reconnects :: u64
  snap_uptime_secs :: "nat option"
  snap_error_age_secs :: "nat option"
  snap_tokens :: u32
  snap_tokens_cap :: u32

definition sup_snapshot :: "supervisor \<Rightarrow> (supervisor_snapshot \<times> supervisor) outcome" where
  "sup_snapshot s =
     obind (rb_read_tokens (clock s) (budget s)) (\<lambda>(tokens, b).
       Ret (\<lparr>snap_state = sst s,
             snap_viewers = word_of_int (max 0 (viewer_count s)),
             snap_reconnects = wss_reconnects_total s,
             snap_uptime_secs = map_option (\<lambda>t. as_secs (clock s - t)) (session_started_at s),
             snap_error_age_secs = map_option (\<lambda>t. as_secs (clock s - t)) (last_error_at s),
             snap_tokens = tokens, snap_tokens_cap = rb_capacity b\<rparr>,
            s\<lparr>budget := b\<rparr>))"

text \<open>\<open>subscribe_rtp\<close>: a receiver of the current channel, without counting as a viewer.\<close>

definition subscribe_rtp :: "supervisor \<Rightarrow> nat option" where
  "subscribe_rtp s = rtp_tx s"

section \<open>Transitions\<close>

datatype sup_label =
    Subscribe
  | SubStep nat
  | ConnectOk nat h264_params
  | ConnectErr nat
  | DropSub nat
  | WdStep nat
  | WdDelay nat rat
  | ReconnectOk nat
  | ReconnectErr nat
  | LoopRecv
  | TimerFire nat
  | SessionEnds nat
  | AuthFailed
  | Advance nat
  | Snapshot

fun sup_step :: "sup_config \<Rightarrow> sup_label \<Rightarrow> supervisor \<Rightarrow> supervisor option" where
  "sup_step c Subscribe s = Some (subscribe s)"
| "sup_step c (SubStep i) s = (if i < length (subs s) then sub_step c i (subs s ! i) s else None)"
| "sup_step c (ConnectOk i params) s =
     (if i < length (subs s)
      then case subs s ! i of SConnecting ch \<Rightarrow> Some (sub_connect_ok i ch params s) | _ \<Rightarrow> None
      else None)"
| "sup_step c (ConnectErr i) s =
     (if i < length (subs s)
      then case subs s ! i of SConnecting ch \<Rightarrow> Some (sub_connect_err i s) | _ \<Rightarrow> None
      else None)"
| "sup_step c (DropSub i) s =
     (if i < length (subs s)
      then case subs s ! i of SLive ch params \<Rightarrow> Some (drop_subscription i s) | _ \<Rightarrow> None
      else None)"
| "sup_step c (WdStep i) s =
     (if i < length (watchdogs s) then wd_step c i (wd_pc (watchdogs s ! i)) s else None)"
| "sup_step c (WdDelay i jitter) s =
     (if i < length (watchdogs s) \<and> wd_pc (watchdogs s ! i) = WRetry
      then Some (wd_delay c i jitter s) else None)"
| "sup_step c (ReconnectOk i) s =
     (if i < length (watchdogs s) \<and> wd_pc (watchdogs s ! i) = WConnecting
      then Some (wd_reconnect_ok i s) else None)"
| "sup_step c (ReconnectErr i) s =
     (if i < length (watchdogs s) \<and> wd_pc (watchdogs s ! i) = WConnecting
      then Some (wd_reconnect_err i s) else None)"
| "sup_step c LoopRecv s = loop_recv c s"
| "sup_step c (TimerFire t) s = timer_fire c t s"
| "sup_step c (SessionEnds sid) s =
     (if sid \<in> set (handles s) then Some (s\<lparr>ended := sid # ended s\<rparr>) else None)"
| "sup_step c AuthFailed s = Some (s\<lparr>failed := True\<rparr>)"
| "sup_step c (Advance d) s = Some (s\<lparr>clock := clock s + d\<rparr>)"
| "sup_step c Snapshot s =
     Some (with_budget (sup_snapshot s) (budget \<circ> snd) s (\<lambda>_ s1. s1))"

definition sup_init :: "supervisor \<Rightarrow> bool" where
  "sup_init s \<longleftrightarrow> (\<exists>t. s = sup_new t)"

inductive sup_trans :: "sup_config \<Rightarrow> supervisor \<Rightarrow> sup_label \<Rightarrow> supervisor \<Rightarrow> bool" for c where
  sup_trans: "sup_step c l s = Some t \<Longrightarrow> sup_trans c s l t"

inductive_cases sup_transE: "sup_trans c s l t"

abbreviation sup_reach :: "sup_config \<Rightarrow> supervisor \<Rightarrow> bool" where
  "sup_reach c \<equiv> reach sup_init (sup_trans c)"

fun sup_run :: "sup_config \<Rightarrow> sup_label list \<Rightarrow> supervisor \<Rightarrow> supervisor option" where
  "sup_run c [] s = Some s"
| "sup_run c (l # ls) s = Option.bind (sup_step c l s) (sup_run c ls)"

lemma reach_sup_run: "sup_run c ls s = Some t \<Longrightarrow> sup_reach c s \<Longrightarrow> sup_reach c t"
  by (induction ls arbitrary: s)
     (auto simp: bind_eq_Some_conv intro: reach_step sup_trans)

lemma reach_sup_new: "sup_reach c (sup_new t)"
  by (rule reach_init) (auto simp: sup_init_def)

end
