(* ===== verification/SupervisorInv.thy ===== *)
theory SupervisorInv
  imports Supervisor
begin

text \<open>
  Invariants of the supervisor: the viewer count, the single connector, the session data
  that belongs to each state, what a subscriber may rely on, the state watch and the idle
  timer. They are proved for every transition and lifted to the reachable states by the
  interpretation of \<open>transition_system\<close>.
\<close>

section \<open>Counting program counters\<close>

definition cnt :: "('a \<Rightarrow> bool) \<Rightarrow> 'a list \<Rightarrow> int" where
  "cnt P xs = int (length (filter P xs))"

lemma cnt_simps [simp]:
  "cnt P [] = 0" "cnt P (x # xs) = of_bool (P x) + cnt P xs" "cnt P (xs @ ys) = cnt P xs + cnt P ys"
  by (simp_all add: cnt_def)

lemma cnt_nonneg [simp]: "0 \<le> cnt P xs"
  by (simp add: cnt_def)

lemma cnt_update:
  "i < length xs \<Longrightarrow> xs ! i = x \<Longrightarrow> cnt P (xs[i := y]) = cnt P xs + of_bool (P y) - of_bool (P x)"
  using filter_update_length [of i xs P y] by (auto simp: cnt_def)

lemma cnt_pos: "x \<in> set xs \<Longrightarrow> P x \<Longrightarrow> 0 < cnt P xs"
  by (induction xs) (auto simp: add_pos_nonneg)

lemma cnt_zero: "cnt P xs = 0 \<Longrightarrow> x \<in> set xs \<Longrightarrow> \<not> P x"
  using cnt_pos [of x xs P] by auto

lemma cnt_mono: "(\<And>x. P x \<Longrightarrow> Q x) \<Longrightarrow> cnt P xs \<le> cnt Q xs"
  by (induction xs) auto

lemma cnt_mono_on: "(\<And>x. x \<in> set xs \<Longrightarrow> P x \<Longrightarrow> Q x) \<Longrightarrow> cnt P xs \<le> cnt Q xs"
  by (induction xs) auto

lemma ball_update:
  "\<forall>x\<in>set xs. P x \<Longrightarrow> P y \<Longrightarrow> \<forall>x\<in>set (xs[i := y]). P x"
  using set_update_subset_insert [of xs i y] by blast

fun counted :: "sub_pc \<Rightarrow> bool" where
  "counted SDone \<longleftrightarrow> False"
| "counted _ \<longleftrightarrow> True"

text \<open>\<open>Attached\<close> was sent and \<open>Detached\<close> was not.\<close>

fun announced :: "sub_pc \<Rightarrow> bool" where
  "announced SDone \<longleftrightarrow> False"
| "announced SCounted \<longleftrightarrow> False"
| "announced _ \<longleftrightarrow> True"

fun connector :: "sub_pc \<Rightarrow> bool" where
  "connector (SConnecting _) \<longleftrightarrow> True"
| "connector (SConnected _ _ _) \<longleftrightarrow> True"
| "connector SConnectFailed \<longleftrightarrow> True"
| "connector _ \<longleftrightarrow> False"

text \<open>Run the queued events on the number of viewers the event loop has seen attached; a
  \<open>Detached\<close> that no \<open>Attached\<close> precedes is impossible.\<close>

fun settles :: "nat \<Rightarrow> viewer_event_kind list \<Rightarrow> nat option" where
  "settles b [] = Some b"
| "settles b (Attached # q) = settles (Suc b) q"
| "settles b (Detached # q) = (case b of 0 \<Rightarrow> None | Suc b' \<Rightarrow> settles b' q)"

lemma settles_append:
  "settles b (q @ r) = Option.bind (settles b q) (\<lambda>b'. settles b' r)"
  by (induction b q rule: settles.induct) (auto split: nat.split)

lemma settles_no_detached:
  "cnt (\<lambda>e. e = Detached) q = 0 \<Longrightarrow> settles b q = Some a \<Longrightarrow> int a = int b + cnt (\<lambda>e. e = Attached) q"
proof (induction b q rule: settles.induct)
  case (3 b q)
  have "0 \<le> cnt (\<lambda>e. e = Detached) q" by simp
  with 3 show ?case by simp
qed auto

section \<open>The invariants\<close>

definition inv_count :: "supervisor \<Rightarrow> bool" where
  "inv_count s \<longleftrightarrow> viewer_count s = cnt counted (subs s) + cnt (\<lambda>e. e = Detached) (queue s)"

definition inv_conn :: "supervisor \<Rightarrow> bool" where
  "inv_conn s \<longleftrightarrow> cnt connector (subs s) = of_bool (sst s = Connecting)"

definition inv_data :: "supervisor \<Rightarrow> bool" where
  "inv_data s \<longleftrightarrow> (sst s = Streaming \<longleftrightarrow> rtp_tx s \<noteq> None) \<and>
                  (stop s = None \<longleftrightarrow> rtp_tx s = None) \<and> (h264 s = None \<longleftrightarrow> rtp_tx s = None)"

text \<open>What a subscriber past its connect decision relies on.\<close>

fun pc_ok :: "sup_config \<Rightarrow> nat option \<Rightarrow> h264_params option \<Rightarrow> sub_pc \<Rightarrow> bool" where
  "pc_ok c ch p (SLive k q) \<longleftrightarrow> ch = Some k \<and> p = Some q"
| "pc_ok c ch p (SSpawn k sid) \<longleftrightarrow> ch = Some k"
| "pc_ok c ch p SJoin \<longleftrightarrow> (standing c \<longrightarrow> ch \<noteq> None)"
| "pc_ok c ch p _ \<longleftrightarrow> True"

definition inv_subs :: "sup_config \<Rightarrow> supervisor \<Rightarrow> bool" where
  "inv_subs c s \<longleftrightarrow> (\<forall>pc\<in>set (subs s). pc_ok c (rtp_tx s) (h264 s) pc)"

definition inv_watch :: "sup_config \<Rightarrow> supervisor \<Rightarrow> bool" where
  "inv_watch c s \<longleftrightarrow> (standing c \<longrightarrow> watched s = sst s \<and> \<not> panicked s)"

definition inv_timer :: "sup_config \<Rightarrow> supervisor \<Rightarrow> bool" where
  "inv_timer c s \<longleftrightarrow>
     (\<exists>b a. settles b (queue s) = Some a \<and> int a = cnt announced (subs s) \<and> (timers s \<noteq> [] \<longrightarrow> b = 0)) \<and>
     (timers s \<noteq> [] \<longrightarrow>
        (\<exists>t due. idle_timer s = Some t \<and> timers s = [(t, due)] \<and> due \<le> clock s + idle_timeout c)) \<and>
     (sst s = Streaming \<and> viewer_count s = 0 \<longrightarrow> timers s \<noteq> [])"

definition sup_inv :: "sup_config \<Rightarrow> supervisor \<Rightarrow> bool" where
  "sup_inv c s \<longleftrightarrow> inv_count s \<and> inv_conn s \<and> inv_data s \<and> inv_subs c s \<and> inv_watch c s \<and>
                  inv_timer c s \<and> rb_ok (budget s)"

lemmas inv_defs = inv_count_def inv_conn_def inv_data_def inv_subs_def inv_watch_def inv_timer_def

lemmas helper_defs = publish_def has_receiver_def send_event_def sub_goto_def wd_goto_def
  drop_handle_def drop_stop_def

lemma sup_inv_new: "sup_inv c (sup_new t)"
  by (simp add: sup_inv_def inv_defs sup_new_def)

text \<open>Budget operations never panic and keep the budget well formed.\<close>

lemma rb_wait_time_ok: "rb_ok b \<Longrightarrow> \<exists>w b'. rb_wait_time t b = Ret (w, b') \<and> rb_ok b'"
  using budget.refill_law [of b t] by (auto simp: rb_wait_time_def)

lemma rb_record_ok:
  "rb_ok b \<Longrightarrow> \<exists>b'. rb_record_success t b = Ret b' \<and> rb_ok b'"
  "rb_ok b \<Longrightarrow> \<exists>b'. rb_record_failure t b = Ret b' \<and> rb_ok b'"
  using budget.refill_law [of b t] budget.earn_law
  by (auto simp: rb_record_success_def rb_record_failure_def rb_spend_def rb_ok_def unat_sat_sub)

lemma with_budget_wait:
  assumes "sup_inv c s"
  obtains w b where "rb_ok b"
    "\<And>k. with_budget (rb_wait_time (clock s) (budget s)) snd s k = k (w, b) (s\<lparr>budget := b\<rparr>)"
proof -
  have "rb_ok (budget s)" using assms by (simp add: sup_inv_def)
  from rb_wait_time_ok [OF this, of "clock s"] that show thesis by (auto simp: with_budget_def)
qed

lemma with_budget_success:
  assumes "sup_inv c s"
  obtains b where "rb_ok b"
    "\<And>k. with_budget (rb_record_success (clock s) (budget s)) id s k = k b (s\<lparr>budget := b\<rparr>)"
proof -
  have "rb_ok (budget s)" using assms by (simp add: sup_inv_def)
  from rb_record_ok(1) [OF this, of "clock s"] that show thesis by (auto simp: with_budget_def)
qed

lemma with_budget_failure:
  assumes "sup_inv c s"
  obtains b where "rb_ok b"
    "\<And>k. with_budget (rb_record_failure (clock s) (budget s)) id s k = k b (s\<lparr>budget := b\<rparr>)"
proof -
  have "rb_ok (budget s)" using assms by (simp add: sup_inv_def)
  from rb_record_ok(2) [OF this, of "clock s"] that show thesis by (auto simp: with_budget_def)
qed

section \<open>Preservation: subscribers\<close>

lemma inv_timerE:
  assumes "inv_timer c s"
  obtains b a where "settles b (queue s) = Some a" "int a = cnt announced (subs s)"
    "timers s \<noteq> [] \<longrightarrow> b = 0"
    "timers s \<noteq> [] \<longrightarrow>
       (\<exists>t due. idle_timer s = Some t \<and> timers s = [(t, due)] \<and> due \<le> clock s + idle_timeout c)"
    "sst s = Streaming \<and> viewer_count s = 0 \<longrightarrow> timers s \<noteq> []"
  using assms unfolding inv_timer_def by blast

lemma inv_timerI:
  assumes "settles b (queue s) = Some a" "int a = cnt announced (subs s)"
    "timers s \<noteq> [] \<longrightarrow> b = 0"
    "timers s \<noteq> [] \<longrightarrow>
       (\<exists>t due. idle_timer s = Some t \<and> timers s = [(t, due)] \<and> due \<le> clock s + idle_timeout c)"
    "sst s = Streaming \<and> viewer_count s = 0 \<longrightarrow> timers s \<noteq> []"
  shows "inv_timer c s"
  using assms unfolding inv_timer_def by blast

lemma inv_subscribe:
  assumes "sup_inv c s"
  shows "sup_inv c (subscribe s)"
proof -
  from assms have t: "inv_timer c s" and rest: "inv_count s" by (simp_all add: sup_inv_def)
  have "0 < viewer_count s + 1" using rest by (simp add: inv_count_def add_nonneg_pos)
  with t have "inv_timer c (subscribe s)"
    by (elim inv_timerE, intro inv_timerI) (auto simp: subscribe_def)
  with assms show ?thesis by (auto simp: sup_inv_def inv_count_def inv_conn_def inv_data_def
      inv_subs_def inv_watch_def subscribe_def)
qed

text \<open>A move of one subscriber from \<open>pc\<close> to \<open>pc'\<close> that sends the events \<open>es\<close>.\<close>

fun events_ok :: "sub_pc \<Rightarrow> viewer_event_kind list \<Rightarrow> sub_pc \<Rightarrow> bool" where
  "events_ok pc [] pc' \<longleftrightarrow> counted pc = counted pc' \<and> announced pc = announced pc'"
| "events_ok pc [Attached] pc' \<longleftrightarrow> pc = SCounted \<and> announced pc'"
| "events_ok pc [Detached] pc' \<longleftrightarrow> announced pc \<and> pc' = SDone"
| "events_ok pc _ pc' \<longleftrightarrow> False"

lemma events_ok_counts:
  assumes "events_ok pc es pc'"
  shows "of_bool (counted pc') + cnt (\<lambda>e. e = Detached) es = (of_bool (counted pc) :: int)"
    and "settles b q = Some a \<Longrightarrow> int a = n \<Longrightarrow> of_bool (announced pc) \<le> n \<Longrightarrow>
      \<exists>a'. settles b (q @ es) = Some a' \<and> int a' = n + of_bool (announced pc') - of_bool (announced pc)"
proof -
  have c: "announced x \<Longrightarrow> counted x" for x by (cases x) auto
  from assms show "of_bool (counted pc') + cnt (\<lambda>e. e = Detached) es = (of_bool (counted pc) :: int)"
    by (cases "(pc, es, pc')" rule: events_ok.cases) (auto simp: c)
  assume "settles b q = Some a" "int a = n" "of_bool (announced pc) \<le> n"
  with assms show "\<exists>a'. settles b (q @ es) = Some a' \<and>
      int a' = n + of_bool (announced pc') - of_bool (announced pc)"
    by (cases "(pc, es, pc')" rule: events_ok.cases) (auto simp: settles_append split: nat.split)
qed

lemma inv_move:
  assumes inv: "sup_inv c s" and i: "i < length (subs s)" "subs s ! i = pc"
    and t: "subs t = (subs s)[i := pc']" "queue t = queue s @ es" "viewer_count t = viewer_count s"
      "timers t = timers s" "idle_timer t = idle_timer s" "clock t = clock s"
    and es: "events_ok pc es pc'"
    and conn: "of_bool (connector pc') - of_bool (connector pc) =
        of_bool (sst t = Connecting) - (of_bool (sst s = Connecting) :: int)"
    and data: "inv_data t" and watch: "inv_watch c t" and rb: "rb_ok (budget t)"
    and old: "\<And>x. x \<in> set (subs s) \<Longrightarrow> pc_ok c (rtp_tx s) (h264 s) x \<Longrightarrow> pc_ok c (rtp_tx t) (h264 t) x"
    and new: "pc_ok c (rtp_tx t) (h264 t) pc'"
    and str: "sst t = Streaming \<Longrightarrow> sst s = Streaming \<or> counted pc"
  shows "sup_inv c t"
proof -
  have I: "inv_count s" "inv_conn s" "inv_subs c s" "inv_timer c s" using inv by (simp_all add: sup_inv_def)
  have mem: "pc \<in> set (subs s)" using i nth_mem by blast
  have u: "cnt P (subs t) = cnt P (subs s) + of_bool (P pc') - of_bool (P pc)" for P
    unfolding t(1) by (rule cnt_update [OF i])
  have "inv_count t"
    using I(1) events_ok_counts(1) [OF es] unfolding inv_count_def u t(2,3) by simp
  moreover have "inv_conn t" using I(2) conn by (simp add: inv_conn_def u)
  moreover have "inv_subs c t"
    using I(3) old new unfolding inv_subs_def t(1) by (intro ball_update) auto
  moreover have "inv_timer c t"
  proof -
    obtain b a where ba: "settles b (queue s) = Some a" "int a = cnt announced (subs s)"
      "timers s \<noteq> [] \<longrightarrow> b = 0"
      "timers s \<noteq> [] \<longrightarrow>
       (\<exists>t due. idle_timer s = Some t \<and> timers s = [(t, due)] \<and> due \<le> clock s + idle_timeout c)"
      "sst s = Streaming \<and> viewer_count s = 0 \<longrightarrow> timers s \<noteq> []"
      using I(4) by (rule inv_timerE)
    have "of_bool (announced pc) \<le> cnt announced (subs s)"
      using cnt_pos [OF mem, of announced] by (cases "announced pc") auto
    then obtain a' where a': "settles b (queue t) = Some a'" "int a' = cnt announced (subs t)"
      using events_ok_counts(2) [OF es ba(1,2)] unfolding t(2) u by blast
    have "counted pc \<Longrightarrow> 0 < viewer_count s"
      using I(1) cnt_pos [OF mem, of counted] cnt_nonneg [of "\<lambda>e. e = Detached" "queue s"]
      unfolding inv_count_def by linarith
    with str ba(5) have "sst t = Streaming \<and> viewer_count s = 0 \<longrightarrow> timers s \<noteq> []" by auto
    with a' ba(3,4) show ?thesis by (intro inv_timerI [of b t a']) (simp_all add: t)
  qed
  ultimately show ?thesis using data watch rb by (simp add: sup_inv_def)
qed

lemma inv_goto:
  assumes "sup_inv c s" "i < length (subs s)" "subs s ! i = pc"
    and "counted pc' = counted pc" "announced pc' = announced pc" "connector pc' = connector pc"
    and "pc_ok c (rtp_tx s) (h264 s) pc'"
  shows "sup_inv c (sub_goto i pc' s)"
  using assms(1)
  by (intro inv_move [OF assms(1-3), where pc' = pc' and es = "[]"])
     (use assms in \<open>simp_all add: sub_goto_def sup_inv_def inv_data_def inv_watch_def\<close>)

lemma inv_send:
  assumes "sup_inv c s" "i < length (subs s)" "subs s ! i = pc" "events_ok pc [e] pc'"
    and "connector pc' = connector pc" "pc_ok c (rtp_tx s) (h264 s) pc'"
  shows "sup_inv c (sub_goto i pc' (send_event e s))"
  using assms(1)
  by (intro inv_move [OF assms(1-3), where pc' = pc' and es = "[e]"])
     (use assms in \<open>simp_all add: sub_goto_def send_event_def sup_inv_def inv_data_def inv_watch_def\<close>)

lemma sup_inv_budget: "sup_inv c s \<Longrightarrow> rb_ok b \<Longrightarrow> sup_inv c (s\<lparr>budget := b\<rparr>)"
  by (simp add: sup_inv_def inv_defs)

lemma connector_connecting:
  assumes "sup_inv c s" "pc \<in> set (subs s)" "connector pc"
  shows "sst s = Connecting" "rtp_tx s = None" "stop s = None" "h264 s = None"
proof -
  show "sst s = Connecting"
    using assms cnt_pos [of pc "subs s" connector] by (auto simp: sup_inv_def inv_conn_def)
  then show "rtp_tx s = None" "stop s = None" "h264 s = None"
    using assms(1) by (auto simp: sup_inv_def inv_data_def)
qed

lemma inv_acquire:
  assumes inv: "sup_inv c s" and i: "i < length (subs s)" "subs s ! i = SAttached"
  shows "sup_inv c (sub_acquire c i s)"
proof (cases "sst s")
  case Idle
  obtain w b where b: "rb_ok b" "with_budget (rb_wait_time (clock s) (budget s)) snd s k =
      k (w, b) (s\<lparr>budget := b\<rparr>)" for k
    by (rule with_budget_wait [OF inv]) (rule that)
  show ?thesis
  proof (cases "w = 0")
    case True
    let ?s1 = "s\<lparr>budget := b\<rparr>"
    let ?t = "sub_goto i (SConnecting (next_id s))
      (publish c Connecting (?s1\<lparr>sst := Connecting, next_id := next_id s + 1\<rparr>))"
    have "sup_inv c ?t"
      by (rule inv_move [OF sup_inv_budget [OF inv b(1)], where i = i and pc = SAttached
            and pc' = "SConnecting (next_id s)" and es = "[]"])
         (use inv i b(1) Idle in \<open>simp_all add: helper_defs sup_inv_def inv_data_def inv_watch_def\<close>)
    then show ?thesis unfolding sub_acquire_def Idle b(2) using True by (simp add: Let_def)
  next
    case False
    have "sup_inv c (sub_goto i (SRollback False) (s\<lparr>budget := b\<rparr>))"
      by (rule inv_goto [OF sup_inv_budget [OF inv b(1)], where pc = SAttached]) (use i in simp_all)
    then show ?thesis unfolding sub_acquire_def Idle b(2) using False by simp
  qed
next
  case Connecting
  then show ?thesis using inv_goto [OF inv i, of SWatching] by (simp add: sub_acquire_def)
next
  case Streaming
  then have "rtp_tx s \<noteq> None" using inv by (simp add: sup_inv_def inv_data_def)
  with Streaming show ?thesis using inv_goto [OF inv i, of SJoin] by (simp add: sub_acquire_def)
qed

lemma inv_connect_ok:
  assumes inv: "sup_inv c s" and i: "i < length (subs s)" "subs s ! i = SConnecting ch"
  shows "sup_inv c (sub_connect_ok i ch params s)"
proof -
  obtain b where b: "rb_ok b" "with_budget (rb_record_success (clock s) (budget s)) id s k =
      k b (s\<lparr>budget := b\<rparr>)" for k
    by (rule with_budget_success [OF inv]) (rule that)
  show ?thesis unfolding sub_connect_ok_def b(2) Let_def
    by (rule inv_move [OF sup_inv_budget [OF inv b(1)], where i = i and pc = "SConnecting ch"
          and pc' = "SConnected ch params (next_id s)" and es = "[]"])
       (use inv i b(1) in \<open>simp_all add: helper_defs sup_inv_def inv_data_def inv_watch_def\<close>)
qed

lemma inv_connect_err:
  assumes inv: "sup_inv c s" and i: "i < length (subs s)" "subs s ! i = SConnecting ch"
  shows "sup_inv c (sub_connect_err i s)"
proof -
  obtain b where b: "rb_ok b" "with_budget (rb_record_failure (clock s) (budget s)) id s k =
      k b (s\<lparr>budget := b\<rparr>)" for k
    by (rule with_budget_failure [OF inv]) (rule that)
  show ?thesis unfolding sub_connect_err_def b(2)
    by (rule inv_goto [OF sup_inv_budget [OF inv b(1)], where pc = "SConnecting ch"]) (use i in simp_all)
qed

lemma inv_connect_failed:
  assumes inv: "sup_inv c s" and i: "i < length (subs s)" "subs s ! i = SConnectFailed"
  shows "sup_inv c (sub_connect_failed c i s)"
proof -
  have mem: "SConnectFailed \<in> set (subs s)" using i nth_mem by metis
  note st = connector_connecting [OF inv mem]
  show ?thesis
    by (rule inv_move [OF inv i, where pc' = "SRollback True" and es = "[]"])
       (use inv i st in \<open>simp_all add: sub_connect_failed_def helper_defs sup_inv_def inv_data_def inv_watch_def\<close>)
qed

lemma inv_connected:
  assumes inv: "sup_inv c s" and i: "i < length (subs s)" "subs s ! i = SConnected ch params sid"
  shows "sup_inv c (sub_connected c i ch params sid s)"
proof -
  have mem: "SConnected ch params sid \<in> set (subs s)" using i nth_mem by metis
  note st = connector_connecting [OF inv mem]
  show ?thesis
  proof (rule inv_move [OF inv i, where pc' = "SSpawn ch sid" and es = "[]"])
    fix x assume "x \<in> set (subs s)" and ok: "pc_ok c (rtp_tx s) (h264 s) x"
    let ?t = "sub_connected c i ch params sid s"
    show "pc_ok c (rtp_tx ?t) (h264 ?t) x"
      using ok st by (cases x) (simp_all add: sub_connected_def helper_defs Let_def)
  qed (use inv i st in \<open>simp_all add: sub_connected_def helper_defs Let_def sup_inv_def inv_data_def inv_watch_def\<close>)
qed

lemma inv_spawn:
  assumes inv: "sup_inv c s" and i: "i < length (subs s)" "subs s ! i = SSpawn ch sid"
  shows "sup_inv c (sub_spawn i ch sid s)"
proof -
  have mem: "SSpawn ch sid \<in> set (subs s)" using i nth_mem by metis
  with inv have "rtp_tx s = Some ch" by (auto simp: sup_inv_def inv_subs_def)
  then show ?thesis
    by (intro inv_move [OF inv i, where pc' = SJoin and es = "[]"])
       (use inv i in \<open>simp_all add: sub_spawn_def helper_defs sup_inv_def inv_data_def inv_watch_def\<close>)
qed

lemma inv_watch_read:
  assumes inv: "sup_inv c s" and i: "i < length (subs s)" "subs s ! i = SWatch" and t: "sub_watch i s = Some t"
  shows "sup_inv c t"
proof (cases "watched s")
  case Streaming
  then have "standing c \<Longrightarrow> rtp_tx s \<noteq> None"
    using inv by (auto simp: sup_inv_def inv_watch_def inv_data_def)
  with t Streaming inv_goto [OF inv i, of SJoin] show ?thesis by (auto simp: sub_watch_def)
next
  case Idle
  with t inv_goto [OF inv i, of "SRollback False"] show ?thesis by (auto simp: sub_watch_def)
qed (use t in \<open>simp add: sub_watch_def\<close>)

lemma inv_join:
  assumes inv: "sup_inv c s" and i: "i < length (subs s)" "subs s ! i = SJoin"
  shows "sup_inv c (sub_join i s)"
proof -
  have mem: "SJoin \<in> set (subs s)" using i nth_mem by metis
  with inv have st: "standing c \<Longrightarrow> rtp_tx s \<noteq> None" by (auto simp: sup_inv_def inv_subs_def)
  have d: "h264 s = None \<longleftrightarrow> rtp_tx s = None" using inv by (simp add: sup_inv_def inv_data_def)
  show ?thesis
  proof (cases "rtp_tx s")
    case None
    then have ns: "\<not> standing c" using st by blast
    show ?thesis
      by (rule inv_move [OF inv i, where pc' = SPanic and es = "[]"])
         (use inv i ns None d in \<open>simp_all add: sub_join_def helper_defs sup_inv_def inv_data_def inv_watch_def\<close>)
  next
    case (Some ch)
    with d obtain p where "h264 s = Some p" by auto
    with Some inv_goto [OF inv i, of "SLive ch p"] show ?thesis by (simp add: sub_join_def)
  qed
qed

lemma inv_rollback:
  assumes inv: "sup_inv c s" and i: "i < length (subs s)" "subs s ! i = SRollback err"
  shows "sup_inv c (sub_rollback i err s)"
  by (rule inv_move [OF inv i, where pc' = SDone and es = "[Detached]"])
     (use inv i in \<open>simp_all add: sub_rollback_def helper_defs Let_def sup_inv_def inv_data_def inv_watch_def\<close>)

lemma inv_sub_step:
  assumes inv: "sup_inv c s" and i: "i < length (subs s)" "subs s ! i = pc"
    and t: "sub_step c i pc s = Some t"
  shows "sup_inv c t"
proof (cases pc)
  case SCounted
  with t have "t = sub_goto i SAttached (send_event Attached s)" by simp
  with inv_send [OF inv i, of Attached SAttached] SCounted show ?thesis by simp
next
  case SAttached
  with t inv_acquire [OF inv i(1)] i show ?thesis by simp
next
  case SConnectFailed
  with t inv_connect_failed [OF inv i(1)] i show ?thesis by simp
next
  case (SConnected ch params sid)
  with t inv_connected [OF inv i(1)] i show ?thesis by simp
next
  case (SSpawn ch sid)
  with t inv_spawn [OF inv i(1)] i show ?thesis by simp
next
  case SWatching
  with t have "t = sub_goto i SWatch s" by simp
  with inv_goto [OF inv i, of SWatch] SWatching show ?thesis by simp
next
  case SWatch
  with t inv_watch_read [OF inv i(1)] i show ?thesis by simp
next
  case (SRollback err)
  with t inv_rollback [OF inv i(1)] i show ?thesis by simp
next
  case SJoin
  with t inv_join [OF inv i(1)] i show ?thesis by simp
qed (use t in simp_all)

lemma inv_drop_subscription:
  assumes "sup_inv c s" "i < length (subs s)" "subs s ! i = SLive ch params"
  shows "sup_inv c (drop_subscription i s)"
  unfolding drop_subscription_def by (rule inv_send [OF assms]) simp_all

section \<open>Preservation: watchdogs, event loop, timers\<close>

text \<open>Transitions that leave the subscribers, the events and the session data alone.\<close>

lemma inv_frame:
  assumes inv: "sup_inv c s"
    and t: "subs t = subs s" "queue t = queue s" "viewer_count t = viewer_count s"
      "timers t = timers s" "idle_timer t = idle_timer s" "clock s \<le> clock t"
      "sst t = sst s" "rtp_tx t = rtp_tx s" "stop t = None \<longleftrightarrow> stop s = None" "h264 t = h264 s"
      "standing c \<Longrightarrow> watched t = watched s" "panicked t = panicked s" "rb_ok (budget t)"
  shows "sup_inv c t"
proof -
  have "inv_timer c s" using inv by (simp add: sup_inv_def)
  then have "inv_timer c t"
    by (rule inv_timerE) (rule inv_timerI, use t in auto)
  with inv t show ?thesis
    by (simp add: sup_inv_def inv_count_def inv_conn_def inv_data_def inv_subs_def inv_watch_def)
qed

lemma inv_wd_goto: "sup_inv c s \<Longrightarrow> sup_inv c (wd_goto i pc s)"
  by (rule inv_frame) (simp_all add: wd_goto_def sup_inv_def)

lemma inv_wd_delay: "sup_inv c s \<Longrightarrow> sup_inv c (wd_delay c i j s)"
proof -
  assume inv: "sup_inv c s"
  obtain w b where b: "rb_ok b" "with_budget (rb_wait_time (clock s) (budget s)) snd s k =
      k (w, b) (s\<lparr>budget := b\<rparr>)" for k
    by (rule with_budget_wait [OF inv]) (rule that)
  show ?thesis unfolding wd_delay_def b(2)
    by (rule inv_frame [OF inv]) (simp_all add: Let_def b(1) split: prod.split)
qed

lemma inv_wd_reconnect: "sup_inv c s \<Longrightarrow> sup_inv c (wd_reconnect_ok i s) \<and> sup_inv c (wd_reconnect_err i s)"
proof -
  assume inv: "sup_inv c s"
  obtain b where b: "rb_ok b" "with_budget (rb_record_success (clock s) (budget s)) id s k =
      k b (s\<lparr>budget := b\<rparr>)" for k
    by (rule with_budget_success [OF inv]) (rule that)
  obtain b' where b': "rb_ok b'" "with_budget (rb_record_failure (clock s) (budget s)) id s k =
      k b' (s\<lparr>budget := b'\<rparr>)" for k
    by (rule with_budget_failure [OF inv]) (rule that)
  show ?thesis unfolding wd_reconnect_ok_def wd_reconnect_err_def b(2) b'(2)
    by (intro conjI; rule inv_frame [OF inv]) (simp_all add: Let_def b(1) b'(1) wd_goto_def)
qed

lemma inv_wd_connected:
  assumes inv: "sup_inv c s"
  shows "sup_inv c (wd_connected c i sid s)"
proof (cases "same_channel (wd_chan (watchdogs s ! i)) s")
  case True
  then have "sst s = Streaming" "rtp_tx s \<noteq> None" using inv
    by (auto simp: sup_inv_def inv_data_def same_channel_def)
  moreover from this obtain h where "stop s = Some h" using inv by (auto simp: sup_inv_def inv_data_def)
  ultimately show ?thesis using True inv
    by (intro inv_frame [OF inv])
       (auto simp: wd_connected_def helper_defs Let_def sup_inv_def inv_watch_def)
next
  case False
  show ?thesis
    by (rule inv_frame [OF inv])
       (use False inv in \<open>simp_all add: wd_connected_def helper_defs sup_inv_def\<close>)
qed

lemma inv_wd_step:
  assumes inv: "sup_inv c s" and t: "wd_step c i pc s = Some t"
  shows "sup_inv c t"
  using t by (cases pc) (auto simp: inv inv_wd_goto inv_wd_connected split: if_splits)

lemma announced_le_counted: "cnt announced xs \<le> cnt counted xs"
  by (rule cnt_mono) (auto elim: announced.elims)

text \<open>With a zero count nobody is attached, nothing is queued and nobody is connecting.\<close>

lemma zero_count:
  assumes "inv_count s" "viewer_count s \<le> 0"
  shows "viewer_count s = 0" "cnt counted (subs s) = 0" "cnt announced (subs s) = 0"
    "cnt (\<lambda>e. e = Detached) (queue s) = 0"
proof -
  have "0 \<le> cnt counted (subs s)" "0 \<le> cnt (\<lambda>e. e = Detached) (queue s)"
    "0 \<le> cnt announced (subs s)" by simp_all
  with assms announced_le_counted [of "subs s"]
  show "viewer_count s = 0" "cnt counted (subs s) = 0" "cnt announced (subs s) = 0"
    "cnt (\<lambda>e. e = Detached) (queue s) = 0"
    unfolding inv_count_def by linarith+
qed

lemma abort_timer_timers: "inv_timer c s \<Longrightarrow> timers (abort_timer s) = []"
  by (erule inv_timerE) (cases "idle_timer s"; cases "timers s"; auto simp: abort_timer_def)

lemma abort_timer_frame [simp]:
  "subs (abort_timer s) = subs s" "queue (abort_timer s) = queue s" "clock (abort_timer s) = clock s"
  "viewer_count (abort_timer s) = viewer_count s" "sst (abort_timer s) = sst s"
  "rtp_tx (abort_timer s) = rtp_tx s" "stop (abort_timer s) = stop s" "h264 (abort_timer s) = h264 s"
  "watched (abort_timer s) = watched s" "panicked (abort_timer s) = panicked s"
  "budget (abort_timer s) = budget s" "handles (abort_timer s) = handles s"
  "watchdogs (abort_timer s) = watchdogs s" "next_id (abort_timer s) = next_id s"
  "abort_timer (s\<lparr>queue := q\<rparr>) = (abort_timer s)\<lparr>queue := q\<rparr>"
  by (auto simp: abort_timer_def split: option.split)

lemma inv_attached:
  assumes inv: "sup_inv c s" and q: "queue s = Attached # q"
  shows "sup_inv c (abort_timer (s\<lparr>queue := q\<rparr>))"
proof -
  let ?t = "abort_timer (s\<lparr>queue := q\<rparr>)"
  have tm: "inv_timer c s" "inv_count s" using inv by (simp_all add: sup_inv_def)
  from tm(1) obtain b a where ba: "settles b (queue s) = Some a" "int a = cnt announced (subs s)"
    by (rule inv_timerE) (rule that)
  have "viewer_count s \<noteq> 0"
  proof
    assume "viewer_count s = 0"
    with zero_count [OF tm(2)] settles_no_detached [OF _ ba(1)] ba(2)
    have "int b + cnt (\<lambda>e. e = Attached) (queue s) = 0" by simp
    moreover have "0 \<le> cnt (\<lambda>e. e = Attached) q" by simp
    ultimately show False unfolding q by simp
  qed
  then have "inv_timer c ?t"
    by (intro inv_timerI [of "Suc b" _ a]) (use ba q abort_timer_timers [OF tm(1)] in simp_all)
  with inv q show ?thesis
    by (simp add: sup_inv_def inv_count_def inv_conn_def inv_data_def inv_subs_def inv_watch_def)
qed

lemma inv_detached:
  assumes inv: "sup_inv c s" and q: "queue s = Detached # q"
  shows "sup_inv c (viewer_event c Detached (s\<lparr>queue := q\<rparr>))"
proof -
  let ?s1 = "s\<lparr>queue := q, viewer_count := viewer_count s - 1\<rparr>"
  have tm: "inv_timer c s" "inv_count s" using inv by (simp_all add: sup_inv_def)
  from tm(1) obtain b a where ba: "settles b (queue s) = Some a" "int a = cnt announced (subs s)"
    and b0: "timers s \<noteq> [] \<longrightarrow> b = 0"
    by (rule inv_timerE) (rule that)
  from ba(1) q obtain b' where b': "b = Suc b'" "settles b' q = Some a" by (cases b) auto
  with b0 have no_timer: "timers s = []" by auto
  have cnt: "inv_count ?s1" using tm(2) q by (simp add: inv_count_def)
  have rest: "inv_conn t" "inv_data t" "inv_subs c t" "inv_watch c t" "rb_ok (budget t)"
    if "subs t = subs s" "sst t = sst s" "rtp_tx t = rtp_tx s" "stop t = stop s" "h264 t = h264 s"
      "watched t = watched s" "panicked t = panicked s" "budget t = budget s" for t
    using inv that by (simp_all add: sup_inv_def inv_conn_def inv_data_def inv_subs_def inv_watch_def)
  show ?thesis
  proof (cases "viewer_count s - 1 \<le> 0")
    case True
    with zero_count [OF cnt] settles_no_detached [OF _ b'(2)] ba(2)
    have "int b' + cnt (\<lambda>e. e = Attached) q = 0" by simp
    moreover have "0 \<le> cnt (\<lambda>e. e = Attached) q" by simp
    ultimately have "b' = 0" by linarith
    then have "inv_timer c (arm_timer c ?s1)"
      by (intro inv_timerI [of b' _ a]) (use b' ba no_timer in \<open>simp_all add: arm_timer_def Let_def\<close>)
    moreover have "inv_count (arm_timer c ?s1)"
      using cnt by (simp add: inv_count_def arm_timer_def Let_def)
    ultimately show ?thesis using True rest [of "arm_timer c ?s1"]
      by (simp add: sup_inv_def viewer_event_def Let_def) (simp add: arm_timer_def Let_def)
  next
    case False
    then have "inv_timer c ?s1"
      by (intro inv_timerI [of b' _ a]) (use b' ba no_timer in simp_all)
    with False cnt rest [of ?s1] show ?thesis
      by (simp add: sup_inv_def viewer_event_def Let_def)
  qed
qed

lemma inv_loop_recv:
  assumes inv: "sup_inv c s" and t: "loop_recv c s = Some t"
  shows "sup_inv c t"
proof -
  from t obtain ev q where q: "queue s = ev # q" and t: "t = viewer_event c ev (s\<lparr>queue := q\<rparr>)"
    by (auto simp: loop_recv_def split: list.splits)
  show ?thesis
  proof (cases ev)
    case Attached
    have "t = abort_timer (s\<lparr>queue := q\<rparr>)" unfolding t Attached viewer_event_def by simp
    with inv_attached [OF inv] q Attached show ?thesis by simp
  next
    case Detached
    with t inv_detached [OF inv] q show ?thesis by simp
  qed
qed

lemma publish_frame [simp]:
  "subs (publish c v s) = subs s" "queue (publish c v s) = queue s" "clock (publish c v s) = clock s"
  "viewer_count (publish c v s) = viewer_count s" "sst (publish c v s) = sst s" "rtp_tx (publish c v s) = rtp_tx s"
  "stop (publish c v s) = stop s" "h264 (publish c v s) = h264 s" "panicked (publish c v s) = panicked s"
  "budget (publish c v s) = budget s" "handles (publish c v s) = handles s" "watchdogs (publish c v s) = watchdogs s"
  "next_id (publish c v s) = next_id s" "timers (publish c v s) = timers s" "idle_timer (publish c v s) = idle_timer s"
  "ended (publish c v s) = ended s"
  "watched (publish c v s) = (if has_receiver c s then v else watched s)"
  by (simp_all add: publish_def)

lemma drop_stop_frame [simp]:
  "subs (drop_stop s) = subs s" "queue (drop_stop s) = queue s" "clock (drop_stop s) = clock s"
  "viewer_count (drop_stop s) = viewer_count s" "sst (drop_stop s) = sst s" "rtp_tx (drop_stop s) = rtp_tx s"
  "h264 (drop_stop s) = h264 s" "panicked (drop_stop s) = panicked s" "budget (drop_stop s) = budget s"
  "watchdogs (drop_stop s) = watchdogs s" "next_id (drop_stop s) = next_id s" "timers (drop_stop s) = timers s"
  "idle_timer (drop_stop s) = idle_timer s" "ended (drop_stop s) = ended s" "watched (drop_stop s) = watched s"

  "stop (drop_stop s) = None"
  by (auto simp: drop_stop_def drop_handle_def split: option.split)

lemma inv_timer_fire:
  assumes inv: "sup_inv c s" and f: "timer_fire c k s = Some t"
  shows "sup_inv c t"
proof -
  let ?s1 = "s\<lparr>timers := filter (\<lambda>(j, _). j \<noteq> k) (timers s)\<rparr>"
  from f have ne: "timers s \<noteq> []" and t: "t = teardown_session c ?s1"
    and due: "map_of (timers s) k \<noteq> None"
    by (auto simp: timer_fire_def split: option.splits if_splits)
  have tm: "inv_timer c s" "inv_count s" "inv_conn s" using inv by (simp_all add: sup_inv_def)
  from tm(1) obtain b a d j where ba: "settles b (queue s) = Some a" "int a = cnt announced (subs s)"
    "b = 0" "timers s = [(j, d)]"
    by (rule inv_timerE) (use ne in auto)
  with due have none: "timers ?s1 = []" by (auto split: if_splits)
  have vc0: "0 \<le> viewer_count s" using tm(2) by (simp add: inv_count_def)
  have timer: "inv_timer c u"
    if "queue u = queue s" "subs u = subs s" "timers u = []" "sst u = Streaming \<Longrightarrow> viewer_count u \<noteq> 0" for u
    by (rule inv_timerI [of b _ a]) (use that ba in auto)
  show ?thesis
  proof (cases "0 < viewer_count s")
    case True
    then have "t = ?s1" using t by (simp add: teardown_session_def)
    moreover have "inv_timer c ?s1" using True none by (intro timer) simp_all
    ultimately show ?thesis using inv
      by (simp add: sup_inv_def inv_count_def inv_conn_def inv_data_def inv_subs_def inv_watch_def)
  next
    case False
    note z = zero_count [OF tm(2)]
    from False z have "cnt counted (subs s) = 0" by simp
    then have pcs: "\<And>x. x \<in> set (subs s) \<Longrightarrow> x = SDone"
      using cnt_zero [of counted] by (metis counted.elims(3))
    have "pc_ok c None None x" if "x \<in> set (subs s)" for x
      using pcs [OF that] by simp
    note idle_ok = this
    have "\<not> connector x" if "x \<in> set (subs s)" for x
      using pcs [OF that] by simp
    then have nr: "SWatch \<notin> set (subs s)" "cnt connector (subs s) = 0"
      using pcs by (force, simp add: cnt_def filter_empty_conv)
    then have st: "sst s \<noteq> Connecting" using tm(3) by (auto simp: inv_conn_def)
    show ?thesis
    proof (cases "sst s = Streaming")
      case True
      let ?t = "publish c Idle ((drop_stop ?s1)\<lparr>rtp_tx := None, sst := Idle, h264 := None\<rparr>)"
      have t': "t = ?t" using t False True by (simp add: teardown_session_def)
      have "inv_timer c ?t" by (rule timer) (use none in simp_all)
      moreover have "inv_subs c ?t"
        using idle_ok by (simp add: inv_subs_def)
      ultimately show ?thesis unfolding t' using inv nr
        by (simp add: sup_inv_def inv_count_def inv_conn_def inv_data_def inv_watch_def has_receiver_def)
    next
      case False
      with st have "t = ?s1" using t by (simp add: teardown_session_def)
      moreover have "inv_timer c ?s1" using False none by (intro timer) simp_all
      ultimately show ?thesis using inv
        by (simp add: sup_inv_def inv_count_def inv_conn_def inv_data_def inv_subs_def inv_watch_def)
    qed
  qed
qed

lemma inv_snapshot:
  assumes inv: "sup_inv c s"
  shows "sup_inv c (with_budget (sup_snapshot s) (budget \<circ> snd) s (\<lambda>_ s1. s1))"
proof -
  have "rb_ok (budget s)" using inv by (simp add: sup_inv_def)
  from budget.refill_law [OF this, of "clock s"] obtain b where
    b: "rb_refill (clock s) (budget s) = Ret b" "rb_ok b" by auto
  then show ?thesis
    by (simp add: with_budget_def sup_snapshot_def rb_read_tokens_def sup_inv_budget [OF inv])
qed

lemma sup_inv_step:
  assumes inv: "sup_inv c s" and t: "sup_step c l s = Some t"
  shows "sup_inv c t"
proof (cases l)
  case Subscribe
  with t inv_subscribe [OF inv] show ?thesis by simp
next
  case (SubStep i)
  with t inv_sub_step [OF inv, of i "subs s ! i"] show ?thesis by (simp split: if_splits)
next
  case (ConnectOk i p)
  with t inv_connect_ok [OF inv, of i] show ?thesis by (auto split: if_splits sub_pc.splits)
next
  case (ConnectErr i)
  with t inv_connect_err [OF inv, of i] show ?thesis by (auto split: if_splits sub_pc.splits)
next
  case (DropSub i)
  with t inv_drop_subscription [OF inv, of i] show ?thesis by (auto split: if_splits sub_pc.splits)
next
  case (WdStep i)
  with t inv_wd_step [OF inv] show ?thesis by (simp split: if_splits)
next
  case (WdDelay i j)
  with t inv_wd_delay [OF inv] show ?thesis by (auto split: if_splits)
next
  case (ReconnectOk i)
  with t inv_wd_reconnect [OF inv] show ?thesis by (auto split: if_splits)
next
  case (ReconnectErr i)
  with t inv_wd_reconnect [OF inv] show ?thesis by (auto split: if_splits)
next
  case LoopRecv
  with t inv_loop_recv [OF inv] show ?thesis by simp
next
  case (TimerFire k)
  with t inv_timer_fire [OF inv] show ?thesis by simp
next
  case Snapshot
  with t inv_snapshot [OF inv] show ?thesis by simp
qed (use t in \<open>auto intro!: inv_frame [OF inv] simp: inv [unfolded sup_inv_def] split: if_splits\<close>)

interpretation sup: transition_system sup_init "sup_trans c" "sup_inv c" for c
  by unfold_locales (auto simp: sup_init_def sup_inv_new elim: sup_transE sup_inv_step)

end
