(* ===== verification/SupervisorHandles.thy ===== *)
theory SupervisorHandles
  imports SupervisorInv
begin

text \<open>
  Ownership of the stop handles of the supervisor's sessions: every handle that is not yet
  dropped is held in exactly one place, the state's \<open>stop\<close> field or one task that has just
  connected. And identity of channels: a channel is used by one connect only.
\<close>

section \<open>Who holds a handle\<close>

fun sub_holds :: "nat \<Rightarrow> sub_pc \<Rightarrow> bool" where
  "sub_holds h (SConnected ch params sid) \<longleftrightarrow> sid = h"
| "sub_holds h _ \<longleftrightarrow> False"

fun wd_pc_holds :: "nat \<Rightarrow> wd_pc \<Rightarrow> bool" where
  "wd_pc_holds h (WConnected sid) \<longleftrightarrow> sid = h"
| "wd_pc_holds h _ \<longleftrightarrow> False"

abbreviation wd_holds :: "nat \<Rightarrow> watchdog \<Rightarrow> bool" where
  "wd_holds h w \<equiv> wd_pc_holds h (wd_pc w)"

definition holders :: "supervisor \<Rightarrow> nat \<Rightarrow> int" where
  "holders s h = of_bool (stop s = Some h) + cnt (sub_holds h) (subs s) + cnt (wd_holds h) (watchdogs s)"

definition inv_handles :: "supervisor \<Rightarrow> bool" where
  "inv_handles s \<longleftrightarrow>
     (\<forall>h. holders s h = of_bool (h \<in> set (handles s))) \<and> (\<forall>h\<in>set (handles s). h < next_id s)"

lemma inv_handlesI:
  assumes "inv_handles s" "\<And>h. holders t h = of_bool (h \<in> set (handles t))"
    and "\<And>h. h \<in> set (handles t) \<Longrightarrow> h < next_id t"
  shows "inv_handles t"
  using assms by (simp add: inv_handles_def)

text \<open>A step that moves no handle.\<close>

lemma inv_handles_frame:
  assumes "inv_handles s" "\<And>h. holders t h = holders s h" "handles t = handles s" "next_id s \<le> next_id t"
  shows "inv_handles t"
  using assms by (auto simp: inv_handles_def)

lemma fresh_unheld: "inv_handles s \<Longrightarrow> holders s (next_id s) = 0"
  by (auto simp: inv_handles_def)

lemma holders_sub:
  assumes "subs t = (subs s)[i := pc']" "i < length (subs s)" "subs s ! i = pc"
    and "stop t = stop s" "watchdogs t = watchdogs s"
  shows "holders t h = holders s h + of_bool (sub_holds h pc') - of_bool (sub_holds h pc)"
  unfolding holders_def assms(1,4,5) cnt_update [OF assms(2,3)] by simp

lemma holders_wd:
  assumes "watchdogs t = (watchdogs s)[i := w']" "i < length (watchdogs s)" "watchdogs s ! i = w"
    and "stop t = stop s" "subs t = subs s"
  shows "holders t h = holders s h + of_bool (wd_holds h w') - of_bool (wd_holds h w)"
  unfolding holders_def assms(1,4,5) cnt_update [OF assms(2,3)] by simp

lemma handles_sub_move:
  assumes "inv_handles s" "i < length (subs s)" "subs s ! i = pc"
    and "subs t = (subs s)[i := pc']" "stop t = stop s" "watchdogs t = watchdogs s"
    and "\<And>h. sub_holds h pc' = sub_holds h pc" "handles t = handles s" "next_id s \<le> next_id t"
  shows "inv_handles t"
  by (rule inv_handles_frame [OF assms(1)])
     (use holders_sub [OF assms(4,2,3,5,6)] assms in simp_all)

lemma handles_wd_move:
  assumes "inv_handles s" "i < length (watchdogs s)"
    and "watchdogs t = (watchdogs s)[i := w']" "stop t = stop s" "subs t = subs s"
    and "\<And>h. wd_holds h w' = wd_holds h (watchdogs s ! i)" "handles t = handles s" "next_id s \<le> next_id t"
  shows "inv_handles t"
  by (rule inv_handles_frame [OF assms(1)])
     (use holders_wd [OF assms(3,2) refl assms(4,5)] assms in simp_all)

section \<open>Preservation\<close>

lemma handles_acquire:
  assumes inv: "sup_inv c s" and h: "inv_handles s" and i: "i < length (subs s)" "subs s ! i = SAttached"
  shows "inv_handles (sub_acquire c i s)"
proof -
  obtain w b where b: "rb_ok b" "with_budget (rb_wait_time (clock s) (budget s)) snd s k =
      k (w, b) (s\<lparr>budget := b\<rparr>)" for k
    by (rule with_budget_wait [OF inv]) (rule that)
  have "\<exists>pc'. subs (sub_acquire c i s) = (subs s)[i := pc'] \<and> (\<forall>h. \<not> sub_holds h pc')"
    unfolding sub_acquire_def b(2)
    by (cases "sst s") (auto simp: sub_goto_def Let_def intro!: exI)
  then obtain pc' where "subs (sub_acquire c i s) = (subs s)[i := pc']" "\<And>h. \<not> sub_holds h pc'" by blast
  then show ?thesis
    by (rule_tac handles_sub_move [OF h i])
       (auto simp: sub_acquire_def b(2) sub_goto_def Let_def split: sup_state.split)
qed

text \<open>A fresh handle appears in one place.\<close>

lemma handles_fresh:
  assumes "inv_handles s" "handles t = next_id s # handles s" "next_id t = next_id s + 1"
    and "\<And>h. holders t h = holders s h + of_bool (h = next_id s)"
  shows "inv_handles t"
  using assms fresh_unheld [OF assms(1)] by (auto simp: inv_handles_def)

text \<open>A handle disappears from its one place.\<close>

lemma handles_dropped:
  assumes "inv_handles s" "handles t = filter (\<lambda>k. k \<noteq> sid) (handles s)" "next_id t = next_id s"
    and "\<And>h. holders t h = holders s h - of_bool (h = sid)"
    and "0 < holders s sid"
  shows "inv_handles t"
  using assms by (auto simp: inv_handles_def split: if_splits)

lemma handles_connect_ok:
  assumes inv: "sup_inv c s" and h: "inv_handles s"
    and i: "i < length (subs s)" "subs s ! i = SConnecting ch"
  shows "inv_handles (sub_connect_ok i ch params s)"
proof -
  obtain b where b: "with_budget (rb_record_success (clock s) (budget s)) id s k =
      k b (s\<lparr>budget := b\<rparr>)" for k
    by (rule with_budget_success [OF inv]) (rule that)
  let ?t = "sub_connect_ok i ch params s"
  have f: "subs ?t = (subs s)[i := SConnected ch params (next_id s)]" "stop ?t = stop s"
    "watchdogs ?t = watchdogs s" "handles ?t = next_id s # handles s" "next_id ?t = next_id s + 1"
    unfolding sub_connect_ok_def b by (simp_all add: sub_goto_def Let_def)
  show ?thesis
    by (rule handles_fresh [OF h f(4,5)]) (simp add: holders_sub [OF f(1) i f(2,3)])
qed

lemma handles_connect_err:
  assumes inv: "sup_inv c s" and h: "inv_handles s"
    and i: "i < length (subs s)" "subs s ! i = SConnecting ch"
  shows "inv_handles (sub_connect_err i s)"
proof -
  obtain b where b: "with_budget (rb_record_failure (clock s) (budget s)) id s k =
      k b (s\<lparr>budget := b\<rparr>)" for k
    by (rule with_budget_failure [OF inv]) (rule that)
  show ?thesis unfolding sub_connect_err_def b
    by (rule handles_sub_move [OF h i, where pc' = SConnectFailed]) (simp_all add: sub_goto_def)
qed

lemma handles_connected:
  assumes inv: "sup_inv c s" and h: "inv_handles s"
    and i: "i < length (subs s)" "subs s ! i = SConnected ch params sid"
  shows "inv_handles (sub_connected c i ch params sid s)"
proof -
  let ?t = "sub_connected c i ch params sid s"
  have "SConnected ch params sid \<in> set (subs s)" using i nth_mem by metis
  then have st: "stop s = None" using connector_connecting(3) [OF inv] by simp
  then have "drop_stop (publish c Streaming (s\<lparr>session_started_at := Some (clock s), sst := Streaming\<rparr>))
      = publish c Streaming (s\<lparr>session_started_at := Some (clock s), sst := Streaming\<rparr>)"
    by (simp add: drop_stop_def)
  then have f: "subs ?t = (subs s)[i := SSpawn ch sid]" "stop ?t = Some sid"
    "watchdogs ?t = watchdogs s" "handles ?t = handles s" "next_id ?t = next_id s"
    unfolding sub_connected_def by (simp_all add: sub_goto_def Let_def)
  have "holders ?t k = holders s k" for k
    unfolding holders_def f(1-3) cnt_update [OF i] st by simp
  then show ?thesis by (rule_tac inv_handles_frame [OF h]) (simp_all add: f)
qed

lemma handles_sub_step:
  assumes inv: "sup_inv c s" and h: "inv_handles s"
    and i: "i < length (subs s)" "subs s ! i = pc" and t: "sub_step c i pc s = Some t"
  shows "inv_handles t"
proof (cases pc)
  case SAttached
  with handles_acquire [OF inv h i(1)] i t show ?thesis by simp
next
  case (SConnected ch params sid)
  with handles_connected [OF inv h i(1)] i t show ?thesis by simp
next
  case (SSpawn ch sid)
  with t have f: "subs t = (subs s)[i := SJoin]" "stop t = stop s" "handles t = handles s"
    "next_id t = next_id s"
    "watchdogs t = watchdogs s @ [\<lparr>wd_chan = ch, wd_backoff = eb_new, wd_pc = WWait sid\<rparr>]"
    by (auto simp: sub_spawn_def sub_goto_def)
  have "holders t k = holders s k" for k
    unfolding holders_def f(1,2,5) cnt_update [OF i] SSpawn by simp
  then show ?thesis by (rule_tac inv_handles_frame [OF h]) (simp_all add: f)
next
  case SJoin
  with t show ?thesis
    by (intro handles_sub_move [OF h i, where pc' = "subs t ! i"])
       (use i SJoin in \<open>auto simp: sub_join_def sub_goto_def split: option.splits\<close>)
next
  case SWatch
  with t show ?thesis
    by (intro handles_sub_move [OF h i, where pc' = "subs t ! i"])
       (use i SWatch in \<open>auto simp: sub_watch_def sub_goto_def split: sup_state.splits\<close>)
next
  case SConnectFailed
  with t show ?thesis
    by (intro handles_sub_move [OF h i, where pc' = "SRollback True"])
       (auto simp: sub_connect_failed_def sub_goto_def Let_def)
next
  case SCounted
  with t show ?thesis
    by (intro handles_sub_move [OF h i, where pc' = SAttached]) (auto simp: sub_goto_def send_event_def)
next
  case SWatching
  with t show ?thesis
    by (intro handles_sub_move [OF h i, where pc' = SWatch]) (auto simp: sub_goto_def)
next
  case (SRollback e)
  with t show ?thesis
    by (intro handles_sub_move [OF h i, where pc' = SDone])
       (auto simp: sub_rollback_def sub_goto_def send_event_def Let_def)
qed (use t in simp_all)

lemma handles_drop_stop [simp]:
  "handles (drop_stop s) = (case stop s of None \<Rightarrow> handles s | Some h \<Rightarrow> filter (\<lambda>k. k \<noteq> h) (handles s))"
  by (simp add: drop_stop_def drop_handle_def split: option.split)

lemma holders_cong:
  "subs t = subs s \<Longrightarrow> watchdogs t = watchdogs s \<Longrightarrow> stop t = stop s \<Longrightarrow> holders t h = holders s h"
  by (simp add: holders_def)

lemma handles_wd_connected:
  assumes inv: "sup_inv c s" and h: "inv_handles s"
    and i: "i < length (watchdogs s)" "wd_pc (watchdogs s ! i) = WConnected sid"
  shows "inv_handles (wd_connected c i sid s)"
proof (cases "same_channel (wd_chan (watchdogs s ! i)) s")
  case True
  let ?t = "wd_connected c i sid s"
  let ?w = "(watchdogs s ! i)\<lparr>wd_backoff := eb_reset (wd_backoff (watchdogs s ! i)), wd_pc := WWait sid\<rparr>"
  from True obtain old where old: "stop s = Some old"
    using inv by (auto simp: sup_inv_def inv_data_def same_channel_def)
  from True have f: "subs ?t = subs s" "stop ?t = Some sid" "next_id ?t = next_id s"
    "watchdogs ?t = (watchdogs s)[i := ?w]" "handles ?t = filter (\<lambda>k. k \<noteq> old) (handles s)"
    using old by (simp_all add: wd_connected_def Let_def)
  have hold: "holders ?t k = holders s k - of_bool (k = old)" for k
    unfolding holders_def f(1,2,4) cnt_update [OF i(1) refl] i(2) old by simp
  have "0 < holders s old"
    using h old by (auto simp: inv_handles_def holders_def add_pos_nonneg)
  then show ?thesis by (intro handles_dropped [OF h f(5,3) hold])
next
  case False
  let ?t = "wd_connected c i sid s"
  from False have f: "subs ?t = subs s" "stop ?t = stop s" "next_id ?t = next_id s"
    "watchdogs ?t = (watchdogs s)[i := (watchdogs s ! i)\<lparr>wd_pc := WDone\<rparr>]"
    "handles ?t = filter (\<lambda>k. k \<noteq> sid) (handles s)"
    by (simp_all add: wd_connected_def wd_goto_def drop_handle_def Let_def)
  have hold: "holders ?t k = holders s k - of_bool (k = sid)" for k
    unfolding holders_def f(1,2,4) cnt_update [OF i(1) refl] i(2) by simp
  have "watchdogs s ! i \<in> set (watchdogs s)" using i(1) by simp
  then have "0 < cnt (wd_holds sid) (watchdogs s)" by (rule cnt_pos) (simp add: i(2))
  then have "0 < holders s sid" by (simp add: holders_def add_nonneg_pos)
  then show ?thesis by (intro handles_dropped [OF h f(5,3) hold])
qed

lemma handles_wd_step:
  assumes inv: "sup_inv c s" and h: "inv_handles s"
    and i: "i < length (watchdogs s)" "wd_pc (watchdogs s ! i) = pc" and t: "wd_step c i pc s = Some t"
  shows "inv_handles t"
proof (cases "\<exists>sid. pc = WConnected sid")
  case True
  with handles_wd_connected [OF inv h i(1)] i t show ?thesis by auto
next
  case False
  with t have "\<exists>pc'. t = wd_goto i pc' s \<and> (\<forall>k. \<not> wd_pc_holds k pc')"
    by (cases pc) (auto split: if_splits)
  then obtain pc' where t: "t = wd_goto i pc' s" "\<And>k. \<not> wd_pc_holds k pc'" by blast
  from False have "\<not> wd_pc_holds k pc" for k by (cases pc) auto
  with t i show ?thesis
    by (intro handles_wd_move [OF h i(1), where w' = "(watchdogs s ! i)\<lparr>wd_pc := pc'\<rparr>"])
       (simp_all add: wd_goto_def)
qed

lemma handles_wd_delay:
  assumes inv: "sup_inv c s" and h: "inv_handles s"
    and i: "i < length (watchdogs s)" "wd_pc (watchdogs s ! i) = WRetry"
  shows "inv_handles (wd_delay c i j s)"
proof -
  obtain w b where b: "with_budget (rb_wait_time (clock s) (budget s)) snd s k =
      k (w, b) (s\<lparr>budget := b\<rparr>)" for k
    by (rule with_budget_wait [OF inv]) (rule that)
  show ?thesis unfolding wd_delay_def b
    by (rule handles_wd_move [OF h i(1), where w' = "watchdogs (wd_delay c i j s) ! i"])
       (use i in \<open>simp_all add: wd_delay_def b Let_def split: prod.split\<close>)
qed

lemma handles_reconnect:
  assumes inv: "sup_inv c s" and h: "inv_handles s"
    and i: "i < length (watchdogs s)" "wd_pc (watchdogs s ! i) = WConnecting"
  shows "inv_handles (wd_reconnect_ok i s)" "inv_handles (wd_reconnect_err i s)"
proof -
  obtain b where b: "with_budget (rb_record_success (clock s) (budget s)) id s k =
      k b (s\<lparr>budget := b\<rparr>)" for k
    by (rule with_budget_success [OF inv]) (rule that)
  obtain b' where b': "with_budget (rb_record_failure (clock s) (budget s)) id s k =
      k b' (s\<lparr>budget := b'\<rparr>)" for k
    by (rule with_budget_failure [OF inv]) (rule that)
  let ?t = "wd_reconnect_ok i s"
  have f: "watchdogs ?t = (watchdogs s)[i := (watchdogs s ! i)\<lparr>wd_pc := WConnected (next_id s)\<rparr>]"
    "stop ?t = stop s" "subs ?t = subs s" "handles ?t = next_id s # handles s" "next_id ?t = next_id s + 1"
    unfolding wd_reconnect_ok_def b by (simp_all add: wd_goto_def Let_def)
  show "inv_handles ?t"
    by (rule handles_fresh [OF h f(4,5)]) (simp add: holders_wd [OF f(1) i(1) refl f(2,3)] i(2))
  show "inv_handles (wd_reconnect_err i s)" unfolding wd_reconnect_err_def b'
    by (rule handles_wd_move [OF h i(1), where w' = "(watchdogs s ! i)\<lparr>wd_pc := WRetry\<rparr>"])
       (simp_all add: wd_goto_def i(2))
qed

lemma handles_timer_fire:
  assumes h: "inv_handles s" and t: "timer_fire c k s = Some t"
  shows "inv_handles t"
proof -
  let ?s1 = "s\<lparr>timers := filter (\<lambda>(j, _). j \<noteq> k) (timers s)\<rparr>"
  from t have t: "t = teardown_session c ?s1" by (auto simp: timer_fire_def split: option.splits if_splits)
  have same: "inv_handles u"
    if "subs u = subs s" "watchdogs u = watchdogs s" "stop u = stop s" "handles u = handles s" "next_id u = next_id s" for u
    by (rule inv_handles_frame [OF h holders_cong [OF that(1-3)] that(4)]) (simp add: that(5))
  show ?thesis
  proof (cases "0 < viewer_count s \<or> \<not> (sst s = Streaming \<or> sst s = Connecting)")
    case True
    then have "t = ?s1" using t by (auto simp: teardown_session_def)
    then show ?thesis by (intro same) simp_all
  next
    case False
    then have t': "t = publish c Idle ((drop_stop ?s1)\<lparr>rtp_tx := None, sst := Idle, h264 := None\<rparr>)"
      using t by (simp add: teardown_session_def)
    show ?thesis
    proof (cases "stop s")
      case None
      then show ?thesis unfolding t' by (intro same) simp_all
    next
      case (Some old)
      have f: "handles t = filter (\<lambda>k. k \<noteq> old) (handles s)" "next_id t = next_id s"
        unfolding t' using Some by simp_all
      have "holders t k = holders s k - of_bool (k = old)" for k
        unfolding t' using Some by (simp add: holders_def)
      moreover have "0 < holders s old"
        unfolding holders_def Some by (simp add: add_pos_nonneg)
      ultimately show ?thesis by (intro handles_dropped [OF h f])
    qed
  qed
qed

lemma viewer_event_frame [simp]:
  "subs (viewer_event c ev s) = subs s" "watchdogs (viewer_event c ev s) = watchdogs s"
  "stop (viewer_event c ev s) = stop s" "handles (viewer_event c ev s) = handles s"
  "rtp_tx (viewer_event c ev s) = rtp_tx s" "sst (viewer_event c ev s) = sst s"
  "h264 (viewer_event c ev s) = h264 s" "ended (viewer_event c ev s) = ended s"
  "next_id s \<le> next_id (viewer_event c ev s)"
  by (cases ev; simp add: viewer_event_def arm_timer_def Let_def abort_timer_def split: option.split)+

lemma handles_step:
  assumes inv: "sup_inv c s" and h: "inv_handles s" and t: "sup_step c l s = Some t"
  shows "inv_handles t"
proof -
  have same: "inv_handles u"
    if "subs u = subs s" "watchdogs u = watchdogs s" "stop u = stop s" "handles u = handles s"
      "next_id s \<le> next_id u" for u
    by (rule inv_handles_frame [OF h holders_cong [OF that(1-3)] that(4,5)])
  show ?thesis
  proof (cases l)
    case Subscribe
    with t have "t = subscribe s" by simp
    then show ?thesis by (intro inv_handles_frame [OF h]) (simp_all add: subscribe_def holders_def)
  next
    case (SubStep i)
    with t handles_sub_step [OF inv h, of i "subs s ! i"] show ?thesis by (simp split: if_splits)
  next
    case (ConnectOk i p)
    with t handles_connect_ok [OF inv h, of i] show ?thesis by (auto split: if_splits sub_pc.splits)
  next
    case (ConnectErr i)
    with t handles_connect_err [OF inv h, of i] show ?thesis by (auto split: if_splits sub_pc.splits)
  next
    case (DropSub i)
    with t obtain ch p where i: "i < length (subs s)" "subs s ! i = SLive ch p"
      and t: "t = drop_subscription i s" by (auto split: if_splits sub_pc.splits)
    show ?thesis unfolding t
      by (rule handles_sub_move [OF h i, where pc' = SDone])
         (simp_all add: drop_subscription_def sub_goto_def send_event_def)
  next
    case (WdStep i)
    with t handles_wd_step [OF inv h _ refl, of i] show ?thesis by (simp split: if_splits)
  next
    case (WdDelay i j)
    with t handles_wd_delay [OF inv h] show ?thesis by (auto split: if_splits)
  next
    case (ReconnectOk i)
    with t handles_reconnect [OF inv h] show ?thesis by (auto split: if_splits)
  next
    case (ReconnectErr i)
    with t handles_reconnect [OF inv h] show ?thesis by (auto split: if_splits)
  next
    case LoopRecv
    with t show ?thesis
      by (auto simp: loop_recv_def intro!: same split: list.splits
          intro: le_trans [OF _ viewer_event_frame(9)])
  next
    case (TimerFire k)
    with t handles_timer_fire [OF h] show ?thesis by simp
  next
    case (SessionEnds sid)
    with t show ?thesis by (intro same) (auto split: if_splits)
  next
    case AuthFailed
    with t show ?thesis by (intro same) auto
  next
    case (Advance d)
    with t show ?thesis by (intro same) auto
  next
    case Snapshot
    with t show ?thesis
      by (intro same) (auto simp: with_budget_def split: outcome.splits)
  qed
qed

section \<open>Channels\<close>

fun sub_owns :: "nat \<Rightarrow> sub_pc \<Rightarrow> bool" where
  "sub_owns ch (SConnecting k) \<longleftrightarrow> k = ch"
| "sub_owns ch (SConnected k params sid) \<longleftrightarrow> k = ch"
| "sub_owns ch (SSpawn k sid) \<longleftrightarrow> k = ch"
| "sub_owns ch _ \<longleftrightarrow> False"

text \<open>The tasks that will watch over the session of a channel, or do.\<close>

definition owners :: "supervisor \<Rightarrow> nat \<Rightarrow> int" where
  "owners s ch = cnt (sub_owns ch) (subs s) + cnt (\<lambda>w. wd_chan w = ch) (watchdogs s)"

definition inv_owners :: "supervisor \<Rightarrow> bool" where
  "inv_owners s \<longleftrightarrow>
     (\<forall>ch. owners s ch \<le> 1) \<and> (\<forall>ch. next_id s \<le> ch \<longrightarrow> owners s ch = 0) \<and>
     (\<forall>ch. rtp_tx s = Some ch \<longrightarrow> owners s ch = 1)"

text \<open>A step that gives no channel a new owner and keeps or clears the current one.\<close>

lemma inv_owners_frame:
  assumes o: "inv_owners s" and le: "\<And>ch. owners t ch \<le> owners s ch" and n: "next_id s \<le> next_id t"
    and r: "\<And>ch. rtp_tx t = Some ch \<Longrightarrow> rtp_tx s = Some ch \<and> owners t ch = owners s ch"
  shows "inv_owners t"
proof -
  have z: "0 \<le> owners t ch" for ch by (simp add: owners_def)
  have "owners t ch \<le> 1" for ch using o le [of ch] unfolding inv_owners_def by (meson order_trans)
  moreover have "owners t ch = 0" if "next_id t \<le> ch" for ch
    using o le [of ch] z [of ch] n that unfolding inv_owners_def by (metis antisym order_trans)
  ultimately show ?thesis using o r by (auto simp: inv_owners_def)
qed

lemma owners_cong:
  "subs t = subs s \<Longrightarrow> map wd_chan (watchdogs t) = map wd_chan (watchdogs s) \<Longrightarrow> owners t ch = owners s ch"
proof -
  assume a: "subs t = subs s" "map wd_chan (watchdogs t) = map wd_chan (watchdogs s)"
  have e: "cnt (\<lambda>w. wd_chan w = ch) ws = cnt (\<lambda>k. k = ch) (map wd_chan ws)" for ws
    by (induction ws) simp_all
  show ?thesis unfolding owners_def a(1) e a(2) ..
qed

lemma owners_sub:
  assumes "subs t = (subs s)[i := pc']" "i < length (subs s)" "subs s ! i = pc" "watchdogs t = watchdogs s"
  shows "owners t ch = owners s ch + of_bool (sub_owns ch pc') - of_bool (sub_owns ch pc)"
  unfolding owners_def assms(1,4) cnt_update [OF assms(2,3)] by simp

lemma owners_wd_move:
  assumes o: "inv_owners s" and f: "subs t = subs s" "watchdogs t = (watchdogs s)[i := w]"
      "wd_chan w = wd_chan (watchdogs s ! i)" "next_id s \<le> next_id t"
    and r: "rtp_tx t = rtp_tx s \<or> rtp_tx t = None"
  shows "inv_owners t"
proof -
  have "map wd_chan (watchdogs t) = map wd_chan (watchdogs s)"
    unfolding f(2) map_update f(3)
    by (cases "i < length (watchdogs s)") (simp_all add: nth_map [symmetric] list_update_beyond not_less del: nth_map)
  note e = owners_cong [OF f(1) this]
  show ?thesis by (rule inv_owners_frame [OF o]) (use e f(4) r in auto)
qed

lemma owners_sub_move:
  assumes o: "inv_owners s" and i: "i < length (subs s)" "subs s ! i = pc"
    and f: "subs t = (subs s)[i := pc']" "watchdogs t = watchdogs s" "next_id s \<le> next_id t"
    and h: "\<And>ch. sub_owns ch pc' = sub_owns ch pc" and r: "rtp_tx t = rtp_tx s \<or> rtp_tx t = None"
  shows "inv_owners t"
  by (rule inv_owners_frame [OF o]) (use owners_sub [OF f(1) i f(2)] f(3) h r in auto)

lemma owners_acquire:
  assumes inv: "sup_inv c s" and o: "inv_owners s" and i: "i < length (subs s)" "subs s ! i = SAttached"
  shows "inv_owners (sub_acquire c i s)"
proof -
  let ?t = "sub_acquire c i s"
  obtain w b where b: "rb_ok b" "with_budget (rb_wait_time (clock s) (budget s)) snd s k =
      k (w, b) (s\<lparr>budget := b\<rparr>)" for k
    by (rule with_budget_wait [OF inv]) (rule that)
  show ?thesis
  proof (cases "sst s = Idle \<and> w = 0")
    case True
    then have f: "subs ?t = (subs s)[i := SConnecting (next_id s)]" "watchdogs ?t = watchdogs s"
      "next_id ?t = next_id s + 1" "rtp_tx ?t = rtp_tx s"
      unfolding sub_acquire_def b(2) by (simp_all add: sub_goto_def Let_def)
    from True inv have none: "rtp_tx s = None" by (auto simp: sup_inv_def inv_data_def)
    have ow: "owners ?t ch = owners s ch + of_bool (ch = next_id s)" for ch
      using owners_sub [OF f(1) i f(2), of ch] by auto
    show ?thesis using o unfolding inv_owners_def f(3,4) none ow by auto
  next
    case False
    then have "\<exists>pc'. subs ?t = (subs s)[i := pc'] \<and> (\<forall>ch. \<not> sub_owns ch pc')"
      unfolding sub_acquire_def b(2)
      by (cases "sst s") (auto simp: sub_goto_def Let_def intro!: exI)
    then obtain pc' where "subs ?t = (subs s)[i := pc']" "\<And>ch. \<not> sub_owns ch pc'" by blast
    then show ?thesis
      by (rule_tac owners_sub_move [OF o i])
         (auto simp: sub_acquire_def b(2) sub_goto_def Let_def split: sup_state.split)
  qed
qed

lemma owners_connect:
  assumes inv: "sup_inv c s" and o: "inv_owners s" and i: "i < length (subs s)" "subs s ! i = SConnecting ch"
  shows "inv_owners (sub_connect_ok i ch params s)" "inv_owners (sub_connect_err i s)"
proof -
  obtain b where b: "with_budget (rb_record_success (clock s) (budget s)) id s k =
      k b (s\<lparr>budget := b\<rparr>)" for k
    by (rule with_budget_success [OF inv]) (rule that)
  obtain b' where b': "with_budget (rb_record_failure (clock s) (budget s)) id s k =
      k b' (s\<lparr>budget := b'\<rparr>)" for k
    by (rule with_budget_failure [OF inv]) (rule that)
  show "inv_owners (sub_connect_ok i ch params s)" unfolding sub_connect_ok_def b
    by (rule owners_sub_move [OF o i, where pc' = "SConnected ch params (next_id s)"])
       (simp_all add: sub_goto_def Let_def)
  let ?t = "sub_connect_err i s"
  have f: "subs ?t = (subs s)[i := SConnectFailed]" "watchdogs ?t = watchdogs s"
    "next_id ?t = next_id s" "rtp_tx ?t = rtp_tx s"
    unfolding sub_connect_err_def b' by (simp_all add: sub_goto_def)
  have "SConnecting ch \<in> set (subs s)" using i nth_mem by metis
  then have none: "rtp_tx s = None" using connector_connecting(2) [OF inv] by simp
  show "inv_owners ?t"
    by (rule inv_owners_frame [OF o]) (use owners_sub [OF f(1) i f(2)] f none in auto)
qed

lemma owners_connected:
  assumes inv: "sup_inv c s" and o: "inv_owners s"
    and i: "i < length (subs s)" "subs s ! i = SConnected ch params sid"
  shows "inv_owners (sub_connected c i ch params sid s)"
proof -
  let ?t = "sub_connected c i ch params sid s"
  have f: "subs ?t = (subs s)[i := SSpawn ch sid]" "watchdogs ?t = watchdogs s"
    "next_id ?t = next_id s" "rtp_tx ?t = Some ch"
    unfolding sub_connected_def by (simp_all add: sub_goto_def Let_def)
  have e: "owners ?t k = owners s k" for k using owners_sub [OF f(1) i f(2), of k] by simp
  have mem: "SConnected ch params sid \<in> set (subs s)" using i nth_mem by metis
  have "0 < owners s ch"
    using cnt_pos [OF mem, of "sub_owns ch"] by (simp add: owners_def add_pos_nonneg)
  moreover have "owners s ch \<le> 1" using o by (simp add: inv_owners_def)
  ultimately have "owners s ch = 1" by simp
  with o show ?thesis unfolding inv_owners_def f(3,4) e by auto
qed

lemma owners_sub_step:
  assumes inv: "sup_inv c s" and o: "inv_owners s"
    and i: "i < length (subs s)" "subs s ! i = pc" and t: "sub_step c i pc s = Some t"
  shows "inv_owners t"
proof (cases pc)
  case SAttached
  with owners_acquire [OF inv o i(1)] i t show ?thesis by simp
next
  case (SConnected ch params sid)
  with owners_connected [OF inv o i(1)] i t show ?thesis by simp
next
  case (SSpawn ch sid)
  with t have f: "subs t = (subs s)[i := SJoin]" "rtp_tx t = rtp_tx s" "next_id t = next_id s"
    "watchdogs t = watchdogs s @ [\<lparr>wd_chan = ch, wd_backoff = eb_new, wd_pc = WWait sid\<rparr>]"
    by (auto simp: sub_spawn_def sub_goto_def)
  have "owners t k = owners s k" for k
    unfolding owners_def f(1,4) cnt_update [OF i] SSpawn by simp
  then show ?thesis by (rule_tac inv_owners_frame [OF o]) (simp_all add: f)
next
  case SJoin
  with t show ?thesis
    by (intro owners_sub_move [OF o i, where pc' = "subs t ! i"])
       (use i SJoin in \<open>auto simp: sub_join_def sub_goto_def split: option.splits\<close>)
next
  case SWatch
  with t show ?thesis
    by (intro owners_sub_move [OF o i, where pc' = "subs t ! i"])
       (use i SWatch in \<open>auto simp: sub_watch_def sub_goto_def split: sup_state.splits\<close>)
next
  case SConnectFailed
  with t show ?thesis
    by (intro owners_sub_move [OF o i, where pc' = "SRollback True"])
       (auto simp: sub_connect_failed_def sub_goto_def Let_def split: if_splits)
next
  case SCounted
  with t show ?thesis
    by (intro owners_sub_move [OF o i, where pc' = SAttached]) (auto simp: sub_goto_def send_event_def)
next
  case SWatching
  with t show ?thesis
    by (intro owners_sub_move [OF o i, where pc' = SWatch]) (auto simp: sub_goto_def)
next
  case (SRollback e)
  with t show ?thesis
    by (intro owners_sub_move [OF o i, where pc' = SDone])
       (auto simp: sub_rollback_def sub_goto_def send_event_def Let_def split: if_splits)
qed (use t in simp_all)

lemma owners_wd_step:
  assumes o: "inv_owners s" and t: "wd_step c i pc s = Some t"
  shows "inv_owners t"
proof -
  have "\<exists>w. subs t = subs s \<and> watchdogs t = (watchdogs s)[i := w] \<and>
      wd_chan w = wd_chan (watchdogs s ! i) \<and> next_id t = next_id s \<and> rtp_tx t = rtp_tx s"
    using t by (cases pc) (auto simp: wd_goto_def wd_connected_def Let_def drop_handle_def split: if_splits intro!: exI)
  then show ?thesis using owners_wd_move [OF o] by (metis order_refl)
qed

lemma owners_wd_ops:
  assumes inv: "sup_inv c s" and o: "inv_owners s"
  shows "inv_owners (wd_delay c i j s)" "inv_owners (wd_reconnect_ok i s)" "inv_owners (wd_reconnect_err i s)"
proof -
  obtain w b1 where b1: "with_budget (rb_wait_time (clock s) (budget s)) snd s k =
      k (w, b1) (s\<lparr>budget := b1\<rparr>)" for k
    by (rule with_budget_wait [OF inv]) (rule that)
  obtain b2 where b2: "with_budget (rb_record_success (clock s) (budget s)) id s k =
      k b2 (s\<lparr>budget := b2\<rparr>)" for k
    by (rule with_budget_success [OF inv]) (rule that)
  obtain b3 where b3: "with_budget (rb_record_failure (clock s) (budget s)) id s k =
      k b3 (s\<lparr>budget := b3\<rparr>)" for k
    by (rule with_budget_failure [OF inv]) (rule that)
  obtain d e where d: "eb_next_delay (rounding c) j (wd_backoff (watchdogs s ! i)) = (d, e)" by force
  show "inv_owners (wd_delay c i j s)" unfolding wd_delay_def b1
    by (rule owners_wd_move [OF o, where i = i and w = "(watchdogs s ! i)
          \<lparr>wd_backoff := e, wd_pc := WSleep (clock s + max d w)\<rparr>"]) (simp_all add: Let_def d)
  show "inv_owners (wd_reconnect_ok i s)" unfolding wd_reconnect_ok_def b2
    by (rule owners_wd_move [OF o, where i = i and w = "(watchdogs s ! i)\<lparr>wd_pc := WConnected (next_id s)\<rparr>"])
       (simp_all add: wd_goto_def Let_def)
  show "inv_owners (wd_reconnect_err i s)" unfolding wd_reconnect_err_def b3
    by (rule owners_wd_move [OF o, where i = i and w = "(watchdogs s ! i)\<lparr>wd_pc := WRetry\<rparr>"])
       (simp_all add: wd_goto_def Let_def)
qed

lemma owners_step:
  assumes inv: "sup_inv c s" and o: "inv_owners s" and t: "sup_step c l s = Some t"
  shows "inv_owners t"
proof -
  have same: "inv_owners u"
    if "subs u = subs s" "watchdogs u = watchdogs s" "next_id s \<le> next_id u"
      "rtp_tx u = rtp_tx s \<or> rtp_tx u = None" for u
    by (rule inv_owners_frame [OF o])
       (use that owners_cong [OF that(1)] in auto)
  show ?thesis
  proof (cases l)
    case Subscribe
    with t have "t = subscribe s" by simp
    then show ?thesis by (intro inv_owners_frame [OF o]) (simp_all add: subscribe_def owners_def)
  next
    case (SubStep i)
    with t owners_sub_step [OF inv o, of i "subs s ! i"] show ?thesis by (simp split: if_splits)
  next
    case (ConnectOk i p)
    with t owners_connect [OF inv o, of i] show ?thesis by (auto split: if_splits sub_pc.splits)
  next
    case (ConnectErr i)
    with t owners_connect [OF inv o, of i] show ?thesis by (auto split: if_splits sub_pc.splits)
  next
    case (DropSub i)
    with t obtain ch p where i: "i < length (subs s)" "subs s ! i = SLive ch p"
      and t: "t = drop_subscription i s" by (auto split: if_splits sub_pc.splits)
    show ?thesis unfolding t
      by (rule owners_sub_move [OF o i, where pc' = SDone])
         (simp_all add: drop_subscription_def sub_goto_def send_event_def)
  next
    case (WdStep i)
    with t owners_wd_step [OF o] show ?thesis by (simp split: if_splits)
  next
    case (WdDelay i j)
    with t owners_wd_ops [OF inv o] show ?thesis by (auto split: if_splits)
  next
    case (ReconnectOk i)
    with t owners_wd_ops [OF inv o] show ?thesis by (auto split: if_splits)
  next
    case (ReconnectErr i)
    with t owners_wd_ops [OF inv o] show ?thesis by (auto split: if_splits)
  next
    case LoopRecv
    with t show ?thesis
      by (auto simp: loop_recv_def intro!: same split: list.splits
          intro: le_trans [OF _ viewer_event_frame(9)])
  next
    case (TimerFire k)
    with t show ?thesis
      by (intro same) (auto simp: timer_fire_def teardown_session_def split: option.splits if_splits)
  next
    case (SessionEnds sid)
    with t show ?thesis by (intro same) (auto split: if_splits)
  next
    case AuthFailed
    with t show ?thesis by (intro same) auto
  next
    case (Advance d)
    with t show ?thesis by (intro same) auto
  next
    case Snapshot
    with t show ?thesis
      by (intro same) (auto simp: with_budget_def split: outcome.splits)
  qed
qed

section \<open>The full invariant\<close>

definition sup_full :: "sup_config \<Rightarrow> supervisor \<Rightarrow> bool" where
  "sup_full c s \<longleftrightarrow> sup_inv c s \<and> inv_handles s \<and> inv_owners s"

lemma sup_full_new: "sup_full c (sup_new t)"
  by (simp add: sup_full_def sup_inv_new) (simp add: sup_new_def inv_handles_def inv_owners_def holders_def owners_def)

lemma sup_full_step: "sup_full c s \<Longrightarrow> sup_step c l s = Some t \<Longrightarrow> sup_full c t"
  by (auto simp: sup_full_def intro: sup_inv_step handles_step owners_step)

interpretation full: transition_system sup_init "sup_trans c" "sup_full c" for c
  by unfold_locales (auto simp: sup_init_def sup_full_new elim: sup_transE sup_full_step)

end
