(* ===== verification/SupervisorProps.thy ===== *)
theory SupervisorProps
  imports SupervisorHandles
begin

text \<open>
  What the supervisor promises, on its reachable states: the viewer count and the single
  connect, that attached viewers are never cut off by the idle timer, that an idle session
  is torn down, that no session handle leaks and that stale watchdogs are harmless; and the
  three ways in which it falls short of what its comments promise.
\<close>

lemmas reach_full = full.inv_reach

lemma reach_inv: "sup_reach c s \<Longrightarrow> sup_inv c s"
  by (drule reach_full) (simp add: sup_full_def)

section \<open>The reachable states\<close>

definition demo_config :: "bool \<Rightarrow> sup_config" where
  "demo_config w = \<lparr>idle_timeout = secs 60, standing = w, rounding = id\<rparr>"

definition demo_params :: h264_params where
  "demo_params = \<lparr>profile_level_id = ''42c01e'', sprop_parameter_sets = [],
     packetization_mode = 1, payload_type = 96\<rparr>"

text \<open>The transitions of a first viewer up to its subscription.\<close>

definition first_viewer :: "nat \<Rightarrow> sup_label list" where
  "first_viewer i =
     [Subscribe, SubStep i, LoopRecv, SubStep i, ConnectOk i demo_params, SubStep i, SubStep i, SubStep i]"

lemmas run_defs = demo_config_def demo_params_def first_viewer_def sup_new_def subscribe_def
  sub_goto_def wd_goto_def send_event_def sub_acquire_def with_budget_def rb_wait_time_def rb_refill_def
  rb_default_def rb_new_def default_capacity_def default_refill_period_def secs_def
  publish_def has_receiver_def sub_connect_ok_def sub_connect_err_def rb_record_success_def
  rb_record_failure_def rb_earn_def rb_spend_def sat_sub_def sub_connected_def sub_spawn_def sub_join_def
  sub_watch_def sub_rollback_def sub_connect_failed_def drop_stop_def drop_handle_def loop_recv_def
  viewer_event_def abort_timer_def arm_timer_def drop_subscription_def timer_fire_def
  teardown_session_def Let_def min_def

lemma demo_run:
  "\<exists>s. sup_run (demo_config w) (first_viewer 0) (sup_new 0) = Some s \<and> sst s = Streaming \<and>
       subs s = [SLive 0 demo_params] \<and> queue s = [] \<and> stop s = Some 1 \<and> rtp_tx s = Some 0 \<and>
       timers s = [] \<and> idle_timer s = None \<and> viewer_count s = 1"
  by (simp add: run_defs)

lemma demo_reach: "sup_run (demo_config w) ls (sup_new 0) = Some s \<Longrightarrow> sup_reach (demo_config w) s"
  by (rule reach_sup_run [OF _ reach_sup_new])

text \<open>C20. The viewer count is exact in every reachable state, whatever the interleaving: it is
  the number of subscribers that have not sent \<open>Detached\<close> (waiting, connecting, live) plus
  the \<open>Detached\<close> events still queued, so it is never negative; and at most one subscriber is
  bringing a session up, exactly when the state is \<open>Connecting\<close>.\<close>

theorem viewer_accounting:
  assumes "sup_reach c s"
  shows "viewer_count s = cnt counted (subs s) + cnt (\<lambda>e. e = Detached) (queue s) \<and>
         0 \<le> viewer_count s \<and>
         cnt connector (subs s) = of_bool (sst s = Connecting)"
  using reach_inv [OF assms] by (simp add: sup_inv_def inv_count_def inv_conn_def)

theorem viewer_accounting_witness:
  "\<exists>s :: supervisor. subs s = [SLive 0 demo_params] \<and> viewer_count s = 1 \<and>
       viewer_count s = cnt counted (subs s) + cnt (\<lambda>e. e = Detached) (queue s)"
proof -
  obtain s where s: "sup_run (demo_config True) (first_viewer 0) (sup_new 0) = Some s"
    "subs s = [SLive 0 demo_params]" "viewer_count s = 1" using demo_run [of True] by blast
  with viewer_accounting [OF demo_reach [OF s(1)]] show ?thesis by blast
qed

text \<open>C2. With a standing receiver of the state watch, no reachable state has panicked: neither
  \<open>expect\<close> at the end of \<open>subscribe\<close> fails and no budget operation poisons its mutex. The
  watch shows the state, and the session's channel, stop handle and H.264 parameters are
  present exactly while \<open>Streaming\<close>.\<close>

theorem session_state_consistent:
  assumes "sup_reach c s" "standing c"
  shows "\<not> panicked s \<and> watched s = sst s \<and>
         (rtp_tx s \<noteq> None \<longleftrightarrow> sst s = Streaming) \<and> (stop s \<noteq> None \<longleftrightarrow> sst s = Streaming) \<and>
         (h264 s \<noteq> None \<longleftrightarrow> sst s = Streaming)"
  using reach_inv [OF assms(1)] assms(2) by (auto simp: sup_inv_def inv_watch_def inv_data_def)

theorem session_state_consistent_witness:
  "\<exists>s :: supervisor. subs s = [SLive 0 demo_params] \<and> \<not> panicked s \<and> watched s = Streaming"
proof -
  obtain s where s: "sup_run (demo_config True) (first_viewer 0) (sup_new 0) = Some s"
    "subs s = [SLive 0 demo_params]" "sst s = Streaming" using demo_run [of True] by blast
  have "standing (demo_config True)" by (simp add: demo_config_def)
  from session_state_consistent [OF demo_reach [OF s(1)] this] s show ?thesis by auto
qed

text \<open>The session a live viewer was attached to is the current one.\<close>

lemma live_session:
  assumes "sup_reach c s" "SLive ch p \<in> set (subs s)"
  shows "sst s = Streaming \<and> rtp_tx s = Some ch \<and> h264 s = Some p"
  using assms(2) reach_inv [OF assms(1)] by (auto simp: sup_inv_def inv_subs_def inv_data_def)

text \<open>C1. An attached viewer is never cut off by the idle timer: while somebody holds a
  subscription the session it was taken from is the current one, under the same H.264
  parameters, and a timer that fires in such a state changes neither.\<close>

theorem live_viewer_attached:
  assumes "sup_reach c s" "SLive ch p \<in> set (subs s)"
  shows "sst s = Streaming \<and> rtp_tx s = Some ch \<and> h264 s = Some p \<and>
         (\<forall>k. case timer_fire c k s of None \<Rightarrow> True
              | Some t \<Rightarrow> sst t = Streaming \<and> rtp_tx t = Some ch \<and> stop t = stop s \<and> subs t = subs s)"
proof -
  note inv = reach_inv [OF assms(1)]
  have d: "sst s = Streaming \<and> rtp_tx s = Some ch \<and> h264 s = Some p" by (rule live_session [OF assms])
  have "0 < cnt counted (subs s)" by (rule cnt_pos [OF assms(2)]) simp
  then have "0 < viewer_count s" using inv by (simp add: sup_inv_def inv_count_def add_pos_nonneg)
  with d show ?thesis
    by (auto simp: timer_fire_def teardown_session_def split: option.split)
qed

theorem live_viewer_attached_witness:
  "\<exists>s :: supervisor. subs s = [SLive 0 demo_params] \<and> rtp_tx s = Some 0 \<and> sst s = Streaming"
proof -
  obtain s where s: "sup_run (demo_config False) (first_viewer 0) (sup_new 0) = Some s"
    "subs s = [SLive 0 demo_params]" using demo_run [of False] by blast
  with live_viewer_attached [OF demo_reach [OF s(1)], of 0 demo_params] show ?thesis by auto
qed

section \<open>Tear-down\<close>

text \<open>C8. A session nobody watches goes away: in every reachable \<open>Streaming\<close> state with a zero
  viewer count exactly one idle timer is running, the one the event loop can still abort, it
  is due within the idle timeout, and when nobody comes before it fires the session is
  stopped and the state is \<open>Idle\<close>.\<close>

theorem idle_session_torn_down:
  assumes "sup_reach c s" "sst s = Streaming" "viewer_count s = 0"
  shows "\<exists>k due. timers s = [(k, due)] \<and> idle_timer s = Some k \<and> due \<le> clock s + idle_timeout c \<and>
           (\<exists>t. sup_run c [Advance (due - clock s), TimerFire k] s = Some t \<and>
                sst t = Idle \<and> rtp_tx t = None \<and> stop t = None \<and> h264 t = None \<and> timers t = [])"
proof -
  have "inv_timer c s" using reach_inv [OF assms(1)] by (simp add: sup_inv_def)
  then obtain k due where t: "timers s = [(k, due)]" "idle_timer s = Some k" "due \<le> clock s + idle_timeout c"
    by (rule inv_timerE) (use assms(2,3) in auto)
  have "\<exists>t. sup_run c [Advance (due - clock s), TimerFire k] s = Some t \<and>
      sst t = Idle \<and> rtp_tx t = None \<and> stop t = None \<and> h264 t = None \<and> timers t = []"
    using assms(2,3) t by (simp add: timer_fire_def teardown_session_def)
  with t show ?thesis by blast
qed

lemma demo_left:
  "\<exists>s. sup_run (demo_config w) (first_viewer 0 @ [DropSub 0, LoopRecv]) (sup_new 0) = Some s \<and>
       sst s = Streaming \<and> viewer_count s = 0 \<and> stop s = Some 1 \<and> rtp_tx s = Some 0"
  by (simp add: run_defs)

theorem idle_session_torn_down_witness:
  "\<exists>(s :: supervisor) k due. stop s = Some 1 \<and> timers s = [(k, due)] \<and> due \<le> clock s + secs 60"
proof -
  obtain s where s: "sup_run (demo_config False) (first_viewer 0 @ [DropSub 0, LoopRecv]) (sup_new 0) = Some s"
    "sst s = Streaming" "viewer_count s = 0" "stop s = Some 1" using demo_left [of False] by blast
  from idle_session_torn_down [OF demo_reach [OF s(1)] s(2,3)] s(4) show ?thesis
    by (auto simp: demo_config_def)
qed

text \<open>C9. No session leaks: in every reachable state a stop handle that has not been dropped is
  held in exactly one place, the shared state or one task that has just connected; so when
  the supervisor is not streaming and no task holds a fresh connection, every session ever
  brought up has been told to stop.\<close>

theorem no_session_leak:
  assumes "sup_reach c s"
  shows "holders s h = of_bool (h \<in> set (handles s)) \<and>
         (sst s \<noteq> Streaming \<and> (\<forall>pc\<in>set (subs s). \<not> sub_holds h pc) \<and> (\<forall>w\<in>set (watchdogs s). \<not> wd_holds h w)
            \<longrightarrow> h \<notin> set (handles s))"
proof -
  have f: "sup_full c s" by (rule reach_full [OF assms])
  then have h: "holders s h = of_bool (h \<in> set (handles s))" by (simp add: sup_full_def inv_handles_def)
  have "h \<notin> set (handles s)"
    if a: "sst s \<noteq> Streaming" "\<forall>pc\<in>set (subs s). \<not> sub_holds h pc" "\<forall>w\<in>set (watchdogs s). \<not> wd_holds h w"
  proof -
    have "stop s = None" using f a(1) by (simp add: sup_full_def sup_inv_def inv_data_def)
    moreover have "cnt (sub_holds h) (subs s) = 0" "cnt (\<lambda>w. wd_holds h w) (watchdogs s) = 0"
      using a by (simp_all add: cnt_def filter_empty_conv)
    ultimately show ?thesis using h by (auto simp: holders_def)
  qed
  with h show ?thesis by blast
qed

lemma demo_torn_down:
  "\<exists>s. sup_run (demo_config w)
        (first_viewer 0 @ [DropSub 0, LoopRecv, Advance (secs 60), TimerFire 2]) (sup_new 0) = Some s \<and>
       sst s = Idle \<and> subs s = [SDone] \<and> next_id s = 3 \<and>
       watchdogs s = [\<lparr>wd_chan = 0, wd_backoff = eb_new, wd_pc = WWait 1\<rparr>]"
  by (simp add: run_defs)

theorem no_session_leak_witness:
  "\<exists>s :: supervisor. next_id s = 3 \<and> 1 \<notin> set (handles s)"
proof -
  obtain s where s: "sup_run (demo_config False)
        (first_viewer 0 @ [DropSub 0, LoopRecv, Advance (secs 60), TimerFire 2]) (sup_new 0) = Some s"
    "sst s = Idle" "subs s = [SDone]" "next_id s = 3"
    "watchdogs s = [\<lparr>wd_chan = 0, wd_backoff = eb_new, wd_pc = WWait 1\<rparr>]"
    using demo_torn_down [of False] by blast
  with no_session_leak [OF demo_reach [OF s(1)], of 1] show ?thesis by auto
qed

section \<open>Stale watchdogs\<close>

text \<open>How a transition can change the session data: a connector installs its own channel, a
  watchdog replaces the stop handle of its own channel, the timer clears everything.\<close>

lemma step_channel:
  assumes "sup_step c l s = Some t" "rb_ok (budget s)"
  shows "rtp_tx t = rtp_tx s \<or> rtp_tx t = None \<or>
         (\<exists>pc\<in>set (subs s). \<exists>ch. sub_owns ch pc \<and> rtp_tx t = Some ch)"
proof (cases l)
  case (SubStep i)
  with assms(1) have i: "i < length (subs s)" and t: "sub_step c i (subs s ! i) s = Some t"
    by (auto split: if_splits)
  have mem: "subs s ! i \<in> set (subs s)" using i by simp
  show ?thesis
  proof (cases "subs s ! i")
    case (SConnected ch p sid)
    with t have "rtp_tx t = Some ch" by (auto simp: sub_connected_def sub_goto_def Let_def)
    with mem SConnected show ?thesis by fastforce
  next
    case SAttached
    with t show ?thesis
      by (auto simp: sub_acquire_def with_budget_def sub_goto_def Let_def
          split: sup_state.splits outcome.splits if_splits)
  qed (use t in \<open>auto simp: sub_goto_def send_event_def sub_connect_failed_def sub_spawn_def
      sub_watch_def sub_join_def sub_rollback_def Let_def split: sup_state.splits option.splits if_splits\<close>)
next
  case (WdStep i)
  with assms(1) have t: "wd_step c i (wd_pc (watchdogs s ! i)) s = Some t" by (auto split: if_splits)
  then show ?thesis
    by (cases "wd_pc (watchdogs s ! i)")
       (auto simp: wd_goto_def wd_connected_def drop_handle_def Let_def split: if_splits)
next
  case LoopRecv
  with assms(1) show ?thesis by (auto simp: loop_recv_def split: list.splits)
next
  case (TimerFire k)
  with assms(1) show ?thesis
    by (auto simp: timer_fire_def teardown_session_def split: option.splits if_splits)
qed (use assms(1) in \<open>auto simp: subscribe_def sub_connect_ok_def sub_connect_err_def drop_subscription_def
    wd_delay_def wd_reconnect_ok_def wd_reconnect_err_def with_budget_def sub_goto_def wd_goto_def
    send_event_def Let_def split: if_splits sub_pc.splits outcome.splits prod.splits\<close>)

lemma chan_update:
  "i < length ws \<Longrightarrow> wd_chan w = wd_chan (ws ! j) \<Longrightarrow> wd_chan (ws[j := w] ! i) = wd_chan (ws ! i)"
  by (cases "i = j") simp_all

lemma step_watchdogs:
  assumes "sup_step c l s = Some t" "i < length (watchdogs s)"
  shows "i < length (watchdogs t) \<and> wd_chan (watchdogs t ! i) = wd_chan (watchdogs s ! i)"
proof (cases l)
  case (SubStep j)
  with assms(1) have "sub_step c j (subs s ! j) s = Some t" by (auto split: if_splits)
  with assms(2) show ?thesis
    by (cases "subs s ! j")
       (auto simp: sub_goto_def send_event_def sub_acquire_def with_budget_def sub_connect_failed_def
          sub_connected_def sub_spawn_def sub_watch_def sub_join_def sub_rollback_def Let_def nth_append
          split: sup_state.splits option.splits if_splits outcome.splits)
next
  case (WdStep j)
  with assms(1) have "wd_step c j (wd_pc (watchdogs s ! j)) s = Some t" by (auto split: if_splits)
  with assms(2) show ?thesis
    by (cases "wd_pc (watchdogs s ! j)")
       (auto simp: wd_goto_def wd_connected_def drop_handle_def Let_def chan_update split: if_splits)
next
  case LoopRecv
  with assms show ?thesis by (auto simp: loop_recv_def split: list.splits)
next
  case (TimerFire k)
  with assms show ?thesis
    by (auto simp: timer_fire_def teardown_session_def split: option.splits if_splits)
qed (use assms in \<open>auto simp: subscribe_def sub_connect_ok_def sub_connect_err_def drop_subscription_def
    wd_delay_def wd_reconnect_ok_def wd_reconnect_err_def with_budget_def sub_goto_def wd_goto_def
    send_event_def Let_def chan_update split: if_splits sub_pc.splits outcome.splits prod.splits\<close>)

definition stale :: "nat \<Rightarrow> supervisor \<Rightarrow> bool" where
  "stale i s \<longleftrightarrow> i < length (watchdogs s) \<and> rtp_tx s \<noteq> Some (wd_chan (watchdogs s ! i))"

lemma stale_step:
  assumes "sup_full c s" "stale i s" "sup_step c l s = Some t"
  shows "stale i t \<and> wd_chan (watchdogs t ! i) = wd_chan (watchdogs s ! i)"
proof -
  let ?ch = "wd_chan (watchdogs s ! i)"
  have i: "i < length (watchdogs s)" using assms(2) by (simp add: stale_def)
  note w = step_watchdogs [OF assms(3) i]
  have mem: "watchdogs s ! i \<in> set (watchdogs s)" using i by simp
  have "0 < cnt (\<lambda>w. wd_chan w = ?ch) (watchdogs s)" by (rule cnt_pos [OF mem]) simp
  moreover have "owners s ?ch \<le> 1" using assms(1) by (simp add: sup_full_def inv_owners_def)
  moreover have "0 \<le> cnt (sub_owns ?ch) (subs s)" by simp
  ultimately have "cnt (sub_owns ?ch) (subs s) = 0" unfolding owners_def by linarith
  then have none: "\<And>pc. pc \<in> set (subs s) \<Longrightarrow> \<not> sub_owns ?ch pc" by (rule cnt_zero)
  have "rtp_tx t \<noteq> Some ?ch"
    using step_channel [OF assms(3)] assms(1,2) none by (auto simp: sup_full_def sup_inv_def stale_def)
  with w show ?thesis by (simp add: stale_def)
qed

lemma stale_run:
  "sup_full c s \<Longrightarrow> stale i s \<Longrightarrow> sup_run c ls s = Some t \<Longrightarrow> stale i t"
  by (induction ls arbitrary: s) (auto simp: bind_eq_Some_conv dest: stale_step intro: sup_full_step)

text \<open>C19. A stale watchdog is harmless for ever: once the session a watchdog looks after has been
  torn down, no later sequence of events, fresh sessions included, lets that watchdog touch
  the state, the channel, the stop handle or the H.264 parameters of the current session.\<close>

theorem stale_watchdog_harmless:
  assumes "sup_reach c s" "i < length (watchdogs s)" "rtp_tx s \<noteq> Some (wd_chan (watchdogs s ! i))"
    and "sup_run c ls s = Some t" "sup_step c (WdStep i) t = Some u"
  shows "sst u = sst t \<and> rtp_tx u = rtp_tx t \<and> stop u = stop t \<and> h264 u = h264 t"
proof -
  have "stale i t"
    using stale_run [OF reach_full [OF assms(1)] _ assms(4)] assms(2,3) by (simp add: stale_def)
  moreover have "wd_step c i (wd_pc (watchdogs t ! i)) t = Some u" using assms(5) by (auto split: if_splits)
  ultimately show ?thesis
    by (cases "wd_pc (watchdogs t ! i)")
       (auto simp: wd_goto_def wd_connected_def stale_def same_channel_def drop_handle_def Let_def
          split: if_splits)
qed

lemma demo_backoff: "eb_next_delay id 1 eb_new = (secs 1, eb_new\<lparr>eb_attempt := 1\<rparr>)"
  by (simp add: eb_next_delay_def eb_new_def eb_raw_def sat_add_def secs_def)

lemma wd_delay_demo:
  assumes "rounding c = id" "wd_backoff (watchdogs s ! i) = eb_new"
    "rb_wait_time (clock s) (budget s) = Ret (0, budget s)"
  shows "wd_delay c i 1 s = s\<lparr>watchdogs := (watchdogs s)[i := (watchdogs s ! i)
     \<lparr>wd_backoff := eb_new\<lparr>eb_attempt := 1\<rparr>, wd_pc := WSleep (clock s + secs 1)\<rparr>]\<rparr>"
  using assms by (simp add: wd_delay_def with_budget_def demo_backoff)

text \<open>The reconnect of the first session succeeds only after it was torn down and a second
  viewer has brought up another one.\<close>

lemma demo_replaced:
  "\<exists>s u. sup_run (demo_config w)
        (first_viewer 0 @ [SessionEnds 1, WdStep 0, WdStep 0, WdDelay 0 1, Advance (secs 1),
           WdStep 0, WdStep 0, WdStep 0, DropSub 0, LoopRecv, Advance (secs 60), TimerFire 2]
         @ first_viewer 1) (sup_new 0) = Some s \<and>
     rtp_tx s = Some 3 \<and> stop s = Some 4 \<and> length (watchdogs s) = 2 \<and> wd_chan (watchdogs s ! 0) = 0 \<and>
     sup_run (demo_config w) [ReconnectOk 0] s = Some u \<and> wd_pc (watchdogs u ! 0) = WConnected 5 \<and>
     0 < length (watchdogs u) \<and> stop u = Some 4"
  by (simp add: run_defs wd_delay_demo wd_reconnect_ok_def same_channel_def)

theorem stale_watchdog_harmless_witness:
  "\<exists>(u :: supervisor) (v :: supervisor). wd_pc (watchdogs u ! 0) = WConnected 5 \<and> stop u = Some 4 \<and> stop v = Some 4"
proof -
  let ?c = "demo_config True"
  obtain s u where r: "sup_run ?c
        (first_viewer 0 @ [SessionEnds 1, WdStep 0, WdStep 0, WdDelay 0 1, Advance (secs 1),
           WdStep 0, WdStep 0, WdStep 0, DropSub 0, LoopRecv, Advance (secs 60), TimerFire 2]
         @ first_viewer 1) (sup_new 0) = Some s"
    and s: "rtp_tx s = Some 3" "length (watchdogs s) = 2" "wd_chan (watchdogs s ! 0) = 0"
    and u: "sup_run ?c [ReconnectOk 0] s = Some u" "wd_pc (watchdogs u ! 0) = WConnected 5"
      "0 < length (watchdogs u)" "stop u = Some 4"
    using demo_replaced [of True] by blast
  obtain v where v: "sup_step ?c (WdStep 0) u = Some v" using u(2,3) by simp
  from stale_watchdog_harmless [OF demo_reach [OF r] _ _ u(1) v] s u show ?thesis by auto
qed

section \<open>Waiting viewers\<close>

text \<open>A viewer that waits for somebody else's connect is never forgotten: under a standing
  watch receiver, in every reachable state a waiting viewer can either read its verdict and
  move on, or a connector is still at work whose return will publish one.\<close>

theorem waiter_not_forgotten:
  assumes "sup_reach c s" "standing c" "i < length (subs s)" "subs s ! i = SWatch"
  shows "(\<exists>t. sup_step c (SubStep i) s = Some t \<and> (subs t ! i = SJoin \<or> subs t ! i = SRollback False)) \<or>
         (\<exists>pc\<in>set (subs s). connector pc)"
proof (cases "watched s")
  case Connecting
  with reach_inv [OF assms(1)] assms(2) have "sst s = Connecting" "inv_conn s"
    by (auto simp: sup_inv_def inv_watch_def)
  then have "cnt connector (subs s) \<noteq> 0" by (simp add: inv_conn_def)
  then show ?thesis by (auto simp: cnt_def filter_empty_conv)
qed (use assms in \<open>auto simp: sub_watch_def sub_goto_def\<close>)

lemma demo_waiting:
  "\<exists>s. sup_run (demo_config True)
        [Subscribe, SubStep 0, SubStep 0, Subscribe, SubStep 1, SubStep 1, SubStep 1] (sup_new 0) = Some s \<and>
       subs s = [SConnecting 0, SWatch]"
  by (simp add: run_defs)

theorem waiter_not_forgotten_witness:
  "\<exists>s :: supervisor. subs s = [SConnecting 0, SWatch] \<and>
     ((\<exists>t. sup_step (demo_config True) (SubStep 1) s = Some t) \<or> (\<exists>pc\<in>set (subs s). connector pc))"
proof -
  obtain s where s: "sup_run (demo_config True)
        [Subscribe, SubStep 0, SubStep 0, Subscribe, SubStep 1, SubStep 1, SubStep 1] (sup_new 0) = Some s"
    "subs s = [SConnecting 0, SWatch]" using demo_waiting by blast
  have "standing (demo_config True)" by (simp add: demo_config_def)
  from waiter_not_forgotten [OF demo_reach [OF s(1)] this, of 1] s(2) show ?thesis by auto
qed

section \<open>Without a standing receiver of the state watch\<close>

text \<open>Without a standing receiver a second viewer that arrives while the first one connects is
  turned away although the connect is still in flight and then succeeds: \<open>send\<close> on a watch
  channel without receivers does not store the value, so the newcomer reads the stale
  \<open>Idle\<close> and reports that the connect failed.\<close>

theorem waiter_turned_away:
  "\<exists>s t. sup_run (demo_config False)
          [Subscribe, SubStep 0, SubStep 0, Subscribe, SubStep 1, SubStep 1, SubStep 1, SubStep 1]
          (sup_new 0) = Some s \<and>
        subs s = [SConnecting 0, SRollback False] \<and>
        sup_run (demo_config False) [ConnectOk 0 demo_params, SubStep 0, SubStep 0, SubStep 0, SubStep 1] s
          = Some t \<and>
        subs t = [SLive 0 demo_params, SDone]"
  by (simp add: run_defs)

text \<open>Without a standing receiver the \<open>expect\<close> in \<open>subscribe\<close> can fail: if waiting viewers
  happen to hold receivers when one session comes up and nobody does when it goes down, the
  watch keeps saying \<open>Streaming\<close>, and a viewer that waits for the next connect takes it for
  done and panics on the missing H.264 parameters, leaving the viewer count raised for ever.\<close>

theorem stale_watch_panics:
  "\<exists>s. sup_run (demo_config False)
        [Subscribe, SubStep 0, SubStep 0,                         \<comment> \<open>viewer 0 connects\<close>
          Subscribe, SubStep 1, SubStep 1, SubStep 1,              \<comment> \<open>viewer 1 holds a receiver\<close>
          ConnectErr 0, SubStep 0, SubStep 0,
          Subscribe, SubStep 2, SubStep 2,                         \<comment> \<open>viewer 2 connects: published\<close>
          ConnectOk 2 demo_params, SubStep 2, SubStep 2, SubStep 2, SubStep 1, SubStep 1,
          DropSub 1, DropSub 2, LoopRecv, LoopRecv, LoopRecv, LoopRecv, LoopRecv, LoopRecv,
          Advance (secs 60), TimerFire 3,                          \<comment> \<open>torn down: not published\<close>
          Subscribe, SubStep 3, SubStep 3,                         \<comment> \<open>viewer 3 connects: not published\<close>
          Subscribe, SubStep 4, SubStep 4, SubStep 4, SubStep 4, SubStep 4] (sup_new 0) = Some s \<and>
     sst s = Connecting \<and> subs s ! 4 = SPanic \<and> panicked s"
  by (simp add: run_defs)

section \<open>A dead session nobody reconnects\<close>

definition dead_session :: "nat \<Rightarrow> supervisor \<Rightarrow> bool" where
  "dead_session i s \<longleftrightarrow>
     i < length (subs s) \<and> (case subs s ! i of SLive _ _ \<Rightarrow> True | _ \<Rightarrow> False) \<and>
     (case stop s of Some sid \<Rightarrow> sid \<in> set (ended s) | None \<Rightarrow> False) \<and>
     (\<forall>w\<in>set (watchdogs s). wd_pc w = WDone) \<and>
     (\<forall>pc\<in>set (subs s). case pc of SSpawn _ _ \<Rightarrow> False | _ \<Rightarrow> True)"

lemma dead_sessionI:
  assumes "dead_session i s" "stop t = stop s" "ended t = ended s" "watchdogs t = watchdogs s"
    and "subs t = (subs s)[j := pc']" "j \<noteq> i" "case pc' of SSpawn _ _ \<Rightarrow> False | _ \<Rightarrow> True"
  shows "dead_session i t"
proof -
  have "\<forall>pc\<in>set (subs t). case pc of SSpawn _ _ \<Rightarrow> False | _ \<Rightarrow> True"
    using assms(1,7) unfolding assms(5) dead_session_def by (intro ball_update) auto
  with assms(1,6) show ?thesis unfolding dead_session_def assms(2-4) by (simp add: assms(5))
qed

lemma dead_session_same:
  assumes "dead_session i s" "stop t = stop s" "ended t = ended s" "watchdogs t = watchdogs s"
    and "subs t = subs s"
  shows "dead_session i t"
  using assms(1) unfolding dead_session_def assms(2-5) .

lemma dead_session_step:
  assumes inv: "sup_inv c s" and d: "dead_session i s" and t: "sup_step c l s = Some t" and l: "l \<noteq> DropSub i"
  shows "dead_session i t \<and> stop t = stop s"
proof -
  from d obtain ch p where live: "i < length (subs s)" "subs s ! i = SLive ch p"
    by (auto simp: dead_session_def split: sub_pc.splits)
  then have mem: "SLive ch p \<in> set (subs s)" by (metis nth_mem)
  have str: "sst s = Streaming" using inv mem by (auto simp: sup_inv_def inv_subs_def inv_data_def)
  then have noconn: "\<And>pc. pc \<in> set (subs s) \<Longrightarrow> \<not> connector pc"
    using connector_connecting(1) [OF inv] by force
  have "0 < cnt counted (subs s)" by (rule cnt_pos [OF mem]) simp
  then have vc: "0 < viewer_count s" using inv by (simp add: sup_inv_def inv_count_def add_pos_nonneg)
  have wd: "wd_pc (watchdogs s ! j) = WDone" if "j < length (watchdogs s)" for j
    using d that by (simp add: dead_session_def)
  show ?thesis
  proof (cases l)
    case (SubStep j)
    with t have j: "j < length (subs s)" and t: "sub_step c j (subs s ! j) s = Some t"
      by (auto split: if_splits)
    have jm: "subs s ! j \<in> set (subs s)" using j by simp
    with live t have ne: "j \<noteq> i" by auto
    have nspawn: "\<And>k sid. subs s ! j \<noteq> SSpawn k sid"
      using d jm by (auto simp: dead_session_def split: sub_pc.splits)
    have "\<exists>pc'. subs t = (subs s)[j := pc'] \<and> (case pc' of SSpawn _ _ \<Rightarrow> False | _ \<Rightarrow> True) \<and>
        stop t = stop s \<and> ended t = ended s \<and> watchdogs t = watchdogs s"
      using t noconn [OF jm] nspawn str
      by (cases "subs s ! j")
         (auto simp: sub_goto_def send_event_def sub_acquire_def sub_watch_def sub_join_def sub_rollback_def
            Let_def split: sup_state.splits option.splits if_splits intro!: exI)
    then show ?thesis using dead_sessionI [OF d _ _ _ _ ne] by blast
  next
    case (ConnectOk j q)
    with t obtain k where "SConnecting k \<in> set (subs s)"
      by (auto split: if_splits sub_pc.splits) (metis nth_mem)
    with noconn [of "SConnecting k"] show ?thesis by simp
  next
    case (ConnectErr j)
    with t obtain k where "SConnecting k \<in> set (subs s)"
      by (auto split: if_splits sub_pc.splits) (metis nth_mem)
    with noconn [of "SConnecting k"] show ?thesis by simp
  next
    case (DropSub j)
    with l have ne: "j \<noteq> i" by simp
    from DropSub t have t: "t = drop_subscription j s" by (auto split: if_splits sub_pc.splits)
    then show ?thesis
      using dead_sessionI [OF d _ _ _ _ ne, of t SDone]
      by (simp add: drop_subscription_def sub_goto_def send_event_def)
  next
    case LoopRecv
    with t show ?thesis
      by (auto simp: loop_recv_def split: list.splits intro!: dead_session_same [OF d])
  next
    case (TimerFire k)
    with t vc show ?thesis
      by (auto simp: timer_fire_def teardown_session_def split: option.splits if_splits
          intro!: dead_session_same [OF d])
  next
    case Subscribe
    with t d show ?thesis by (auto simp: subscribe_def dead_session_def nth_append split: option.splits)
  next
    case (SessionEnds sid)
    with t d show ?thesis by (auto simp: dead_session_def split: if_splits option.splits)
  next
    case AuthFailed
    with t show ?thesis by (auto intro!: dead_session_same [OF d])
  next
    case (Advance k)
    with t show ?thesis by (auto intro!: dead_session_same [OF d])
  next
    case Snapshot
    with t show ?thesis
      by (auto simp: with_budget_def split: outcome.splits intro!: dead_session_same [OF d])
  qed (use t wd in \<open>auto split: if_splits\<close>)
qed

text \<open>C40. A viewer can be left with a dead session: when a session ends on its own while nobody
  watches, its watchdog exits at once, and a viewer that arrives before the idle timer fires
  is attached to that session. Whatever happens afterwards (time passing, other viewers
  coming and going, events being handled), nothing reconnects it as long as that viewer
  stays.\<close>

theorem dead_session_sticks:
  assumes "sup_reach c s" "dead_session i s" "DropSub i \<notin> set ls" "sup_run c ls s = Some t"
  shows "sst t = Streaming \<and> stop t = stop s \<and> dead_session i t"
  using assms
proof (induction ls arbitrary: s)
  case Nil
  then obtain sid where "stop s = Some sid" by (auto simp: dead_session_def split: option.splits)
  with Nil reach_inv [OF Nil(1)] show ?case by (auto simp: sup_inv_def inv_data_def)
next
  case (Cons l ls)
  from Cons.prems(4) obtain s1 where s1: "sup_step c l s = Some s1" "sup_run c ls s1 = Some t"
    by (auto simp: bind_eq_Some_conv)
  have "dead_session i s1 \<and> stop s1 = stop s"
    by (rule dead_session_step [OF reach_inv [OF Cons.prems(1)] Cons.prems(2) s1(1)]) (use Cons.prems(3) in auto)
  moreover have "sup_reach c s1" by (rule reach_step [OF Cons.prems(1) sup_trans [OF s1(1)]])
  ultimately show ?case using Cons.IH [of s1] Cons.prems(3) s1(2) by simp
qed

lemma demo_dead:
  "\<exists>s. sup_run (demo_config w)
        (first_viewer 0 @ [DropSub 0, LoopRecv, SessionEnds 1, WdStep 0, WdStep 0,
           Subscribe, SubStep 1, LoopRecv, SubStep 1, SubStep 1]) (sup_new 0) = Some s \<and>
     dead_session 1 s \<and> subs s = [SDone, SLive 0 demo_params] \<and> timers s = [] \<and> queue s = []"
  by (simp add: run_defs dead_session_def)

theorem dead_session_sticks_witness:
  "\<exists>(s :: supervisor) t. subs s = [SDone, SLive 0 demo_params] \<and>
     sup_run (demo_config True) [Advance (secs 3600), Snapshot, Subscribe] s = Some t \<and> dead_session 1 t"
proof -
  let ?ls = "[Advance (secs 3600), Snapshot, Subscribe]"
  obtain s where s: "sup_run (demo_config True)
        (first_viewer 0 @ [DropSub 0, LoopRecv, SessionEnds 1, WdStep 0, WdStep 0,
           Subscribe, SubStep 1, LoopRecv, SubStep 1, SubStep 1]) (sup_new 0) = Some s"
    "dead_session 1 s" "subs s = [SDone, SLive 0 demo_params]" using demo_dead [of True] by blast
  obtain t where t: "sup_run (demo_config True) ?ls s = Some t" by simp
  with dead_session_sticks [OF demo_reach [OF s(1)] s(2) _ t] s(3) show ?thesis by auto
qed

section \<open>Reconnects\<close>

text \<open>What the watchdog's reconnect returns as H.264 parameters is not stored: the parameters kept are
  still those of the connect that brought the session up.\<close>

lemma reconnect_keeps_params:
  "sup_step c (ReconnectOk i) s = Some t \<Longrightarrow> h264 t = h264 s"
  "sup_step c (WdStep i) s = Some t \<Longrightarrow> h264 t = h264 s"
proof -
  show "h264 t = h264 s" if "sup_step c (WdStep i) s = Some t"
    using that by (cases "wd_pc (watchdogs s ! i)")
      (auto simp: wd_goto_def wd_connected_def drop_handle_def Let_def split: if_splits)
qed (auto simp: wd_reconnect_ok_def with_budget_def wd_goto_def Let_def split: if_splits outcome.splits)

section \<open>Panics\<close>

text \<open>A \<open>subscribe\<close> that panics is noted, and under a standing receiver nobody panics.\<close>

definition panic_noted :: "supervisor \<Rightarrow> bool" where
  "panic_noted s \<longleftrightarrow> (SPanic \<in> set (subs s) \<longrightarrow> panicked s)"

lemma panic_subs: "SPanic \<in> set (xs[i := pc]) \<Longrightarrow> SPanic \<in> set xs \<or> pc = SPanic"
  using set_update_subset_insert [of xs i pc] by auto

lemma panic_sub_step: "sub_step c i pc s = Some t \<Longrightarrow> panic_noted s \<Longrightarrow> panic_noted t"
  by (cases pc)
     (auto simp: panic_noted_def sub_goto_def send_event_def sub_acquire_def with_budget_def sub_connect_failed_def
        sub_connected_def sub_spawn_def sub_watch_def sub_join_def sub_rollback_def Let_def dest!: panic_subs
        split: sup_state.splits option.splits outcome.splits if_splits)

lemma panic_wd_step: "wd_step c i pc s = Some t \<Longrightarrow> subs t = subs s \<and> panicked t = panicked s"
  by (cases pc) (auto simp: wd_goto_def wd_connected_def drop_handle_def Let_def split: if_splits)

lemma panic_step:
  assumes t: "sup_step c l s = Some t" and p: "panic_noted s"
  shows "panic_noted t"
proof (cases l)
  case (SubStep i)
  with t p show ?thesis by (auto split: if_splits intro: panic_sub_step)
next
  case (ConnectOk i q)
  with t p show ?thesis
    by (auto simp: panic_noted_def sub_connect_ok_def with_budget_def sub_goto_def Let_def dest!: panic_subs
        split: if_splits sub_pc.splits outcome.splits)
next
  case (ConnectErr i)
  with t p show ?thesis
    by (auto simp: panic_noted_def sub_connect_err_def with_budget_def sub_goto_def Let_def dest!: panic_subs
        split: if_splits sub_pc.splits outcome.splits)
next
  case (DropSub i)
  with t p show ?thesis
    by (auto simp: panic_noted_def drop_subscription_def sub_goto_def send_event_def dest!: panic_subs
        split: if_splits sub_pc.splits)
next
  case (WdStep i)
  with t p panic_wd_step show ?thesis by (fastforce simp: panic_noted_def split: if_splits)
next
  case LoopRecv
  with t p show ?thesis
    by (auto simp: panic_noted_def loop_recv_def viewer_event_def arm_timer_def Let_def
        split: list.splits viewer_event_kind.splits if_splits)
next
  case (TimerFire k)
  with t p show ?thesis
    by (auto simp: panic_noted_def timer_fire_def teardown_session_def split: option.splits if_splits)
qed (use t p in \<open>auto simp: panic_noted_def subscribe_def with_budget_def wd_delay_def wd_reconnect_ok_def
    wd_reconnect_err_def wd_goto_def Let_def split: if_splits outcome.splits prod.splits\<close>)

interpretation panic: transition_system sup_init "sup_trans c" panic_noted for c
  by unfold_locales (auto simp: sup_init_def panic_noted_def sup_new_def elim: sup_transE dest: panic_step [unfolded panic_noted_def])

lemma nobody_panics:
  assumes "sup_reach c s" "standing c" "i < length (subs s)"
  shows "subs s ! i \<noteq> SPanic"
proof
  assume "subs s ! i = SPanic"
  then have "SPanic \<in> set (subs s)" using assms(3) nth_mem by metis
  with panic.inv_reach [OF assms(1)] have "panicked s" by (simp add: panic_noted_def)
  with reach_inv [OF assms(1)] assms(2) show False by (simp add: sup_inv_def inv_watch_def)
qed

end
