(* ===== verification/RtspMessage.thy ===== *)
theory RtspMessage
  imports RustStr
begin

text \<open>
  RTSP requests and responses (\<open>src/rtsp/message.rs\<close>): the parser that is run on the receive
  buffer of a connection, and the response formatter. A request as an RFC 2326 client
  writes it is the specification of the parser; the receive loop's contract
  (\<open>prefix_parser\<close>) is what the connection handler relies on.
\<close>

section \<open>Requests\<close>

datatype rtsp_method = Options | Describe | Setup | Play | Teardown | GetParameter | Unsupported

definition method_as_str :: "rtsp_method \<Rightarrow> string" where
  "method_as_str m =
     (case m of Options \<Rightarrow> ''OPTIONS'' | Describe \<Rightarrow> ''DESCRIBE'' | Setup \<Rightarrow> ''SETUP''
      | Play \<Rightarrow> ''PLAY'' | Teardown \<Rightarrow> ''TEARDOWN'' | GetParameter \<Rightarrow> ''GET_PARAMETER''
      | Unsupported \<Rightarrow> ''UNKNOWN'')"

definition method_parse :: "string \<Rightarrow> rtsp_method" where
  "method_parse s =
     (if s = ''OPTIONS'' then Options
      else if s = ''DESCRIBE'' then Describe
      else if s = ''SETUP'' then Setup
      else if s = ''PLAY'' then Play
      else if s = ''TEARDOWN'' then Teardown
      else if s = ''GET_PARAMETER'' then GetParameter
      else Unsupported)"

record rtsp_request =
  req_method :: rtsp_method
  req_uri :: string
  req_headers :: "string \<rightharpoonup> string"
  req_body :: bytes

definition req_header :: "rtsp_request \<Rightarrow> string \<Rightarrow> string option" where
  "req_header r name = req_headers r (to_ascii_lowercase name)"

definition req_cseq :: "rtsp_request \<Rightarrow> u32 option" where
  "req_cseq r =
     Option.bind (req_headers r ''cseq'') (\<lambda>s. map_option word_of_nat (parse_uint u32_max (trim s)))"

datatype parse_error =
    Incomplete
  | BadRequestLine string
  | BadHeaderLine string
  | Utf8
  | BadContentLength string

abbreviation CR :: char where "CR \<equiv> CHR 0x0D"
abbreviation LF :: char where "LF \<equiv> CHR 0x0A"
abbreviation crlf :: string where "crlf \<equiv> [CR, LF]"
abbreviation crlf2 :: bytes where "crlf2 \<equiv> [0x0D, 0x0A, 0x0D, 0x0A]"

text \<open>The loop over the header lines: empty lines are skipped, a later duplicate wins.\<close>

fun parse_headers :: "string list \<Rightarrow> (string \<rightharpoonup> string) \<Rightarrow> parse_error + (string \<rightharpoonup> string)" where
  "parse_headers [] hs = Inr hs"
| "parse_headers (line # lines) hs =
     (if line = [] then parse_headers lines hs
      else case split_once (CHR '':'') line of
             None \<Rightarrow> Inl (BadHeaderLine line)
           | Some (name, v) \<Rightarrow>
               parse_headers lines (hs(to_ascii_lowercase (trim name) \<mapsto> trim v)))"

text \<open>The request line: three pieces separated by single spaces.\<close>

definition parse_request_line :: "string \<Rightarrow> parse_error + (string \<times> string)" where
  "parse_request_line line =
     (case splitn 3 (CHR '' '') line of
        method # uri # version # _ \<Rightarrow> Inr (method, uri)
      | _ \<Rightarrow> Inl (BadRequestLine line))"

definition content_length :: "(string \<rightharpoonup> string) \<Rightarrow> parse_error + nat" where
  "content_length hs =
     (case hs ''content-length'' of
        None \<Rightarrow> Inr 0
      | Some s \<Rightarrow> ok_or (BadContentLength s) (parse_uint u64_max s))"

text \<open>
  \<open>header_end + body_len\<close> is a \<open>usize\<close> addition. When it does not fit, a build with overflow
  checks panics there, and without them the sum wraps to a value below \<open>header_end\<close>, the
  length test passes and slicing the body panics: a panic in both.
\<close>

definition parse_request :: "bytes \<Rightarrow> (parse_error + rtsp_request \<times> nat) outcome" where
  "parse_request buf =
     (case find_sub crlf2 buf of
        None \<Rightarrow> Ret (Inl Incomplete)
      | Some idx \<Rightarrow>
          if \<not> from_utf8_ok (take idx buf) then Ret (Inl Utf8)
          else
            let header_end = idx + 4;
                lines = split_str2 CR LF (of_bytes (take idx buf))
            in case rbind (parse_request_line (hd lines)) (\<lambda>(method, uri).
                     rbind (parse_headers (tl lines) Map.empty) (\<lambda>headers.
                     rbind (content_length headers) (\<lambda>body_len.
                       Inr (method, uri, headers, body_len)))) of
                 Inl e \<Rightarrow> Ret (Inl e)
               | Inr (method, uri, headers, body_len) \<Rightarrow>
                   if 2 ^ 64 \<le> header_end + body_len then Panic
                   else if length buf < header_end + body_len then Ret (Inl Incomplete)
                   else Ret (Inr (\<lparr>req_method = method_parse method, req_uri = uri,
                                   req_headers = headers,
                                   req_body = take body_len (drop header_end buf)\<rparr>,
                                  header_end + body_len)))"

section \<open>Responses\<close>

record rtsp_response =
  status :: u16
  reason :: string
  resp_cseq :: u32
  resp_headers :: "(string \<times> string) list"
  resp_body :: "string option"

definition resp_ok :: "u32 \<Rightarrow> rtsp_response" where
  "resp_ok cseq = \<lparr>status = 200, reason = ''OK'', resp_cseq = cseq, resp_headers = [], resp_body = None\<rparr>"

definition resp_error :: "u16 \<Rightarrow> string \<Rightarrow> u32 \<Rightarrow> rtsp_response" where
  "resp_error st why cseq =
     \<lparr>status = st, reason = why, resp_cseq = cseq, resp_headers = [], resp_body = None\<rparr>"

definition with_header :: "string \<Rightarrow> string \<Rightarrow> rtsp_response \<Rightarrow> rtsp_response" where
  "with_header name v r = r\<lparr>resp_headers := resp_headers r @ [(name, v)]\<rparr>"

definition with_body :: "string \<Rightarrow> string \<Rightarrow> rtsp_response \<Rightarrow> rtsp_response" where
  "with_body content_type b r =
     r\<lparr>resp_headers := resp_headers r @ [(''Content-Type'', content_type)], resp_body := Some b\<rparr>"

definition format_response :: "rtsp_response \<Rightarrow> string" where
  "format_response r =
     ''RTSP/1.0 '' @ show_nat (unat (status r)) @ '' '' @ reason r @ crlf @
     ''CSeq: '' @ show_nat (unat (resp_cseq r)) @ crlf @
     (case resp_body r of None \<Rightarrow> []
      | Some b \<Rightarrow> ''Content-Length: '' @ show_nat (length b) @ crlf) @
     concat (map (\<lambda>(name, v). name @ '': '' @ v @ crlf) (resp_headers r)) @ crlf @
     (case resp_body r of None \<Rightarrow> [] | Some b \<Rightarrow> b)"

section \<open>The receive loop's contract\<close>

datatype request_failure = ParseFailed parse_error | ParsePanic

text \<open>What the connection loop does with the parser's answer: wait for more bytes, give up, or
  take the request and its length.\<close>

definition next_request :: "bytes \<Rightarrow> (request_failure + rtsp_request \<times> nat) option" where
  "next_request buf =
     (case parse_request buf of
        Panic \<Rightarrow> Some (Inl ParsePanic)
      | Ret (Inl Incomplete) \<Rightarrow> None
      | Ret (Inl e) \<Rightarrow> Some (Inl (ParseFailed e))
      | Ret (Inr (r, n)) \<Rightarrow> Some (Inr (r, n)))"

lemma parse_request_append:
  assumes "parse_request buf \<noteq> Ret (Inl Incomplete)"
  shows "parse_request (buf @ extra) = parse_request buf"
proof -
  from assms obtain idx where idx: "find_sub crlf2 buf = Some idx"
    by (cases "find_sub crlf2 buf") (auto simp: parse_request_def)
  have "idx + 4 \<le> length buf" using find_sub_bound [OF idx] by simp
  moreover note find_sub_append [OF idx, of extra]
  ultimately show ?thesis using assms idx
    by (auto simp: parse_request_def Let_def split: sum.split)
qed

lemma next_request_None: "next_request buf = None \<longleftrightarrow> parse_request buf = Ret (Inl Incomplete)"
  by (auto simp: next_request_def split: outcome.split sum.split parse_error.split)

lemma parse_request_bounds:
  assumes "parse_request buf = Ret (Inr (r, n))"
  shows "4 \<le> n \<and> n \<le> length buf \<and> (\<exists>idx. find_sub crlf2 buf = Some idx \<and> idx + 4 \<le> n \<and>
           req_body r = take (n - (idx + 4)) (drop (idx + 4) buf))"
  using assms
  by (auto simp: parse_request_def Let_def split: option.splits if_splits sum.splits)

interpretation rtsp: prefix_parser next_request
proof unfold_locales
  fix buf m n assume "next_request buf = Some (Inr (m, n))"
  then have "parse_request buf = Ret (Inr (m, n))"
    by (auto simp: next_request_def split: outcome.splits sum.splits parse_error.splits)
  from parse_request_bounds [OF this] show "0 < n \<and> n \<le> length buf" by simp
next
  fix buf r extra assume r: "next_request buf = Some r"
  then have "next_request buf \<noteq> None" by simp
  then have "parse_request buf \<noteq> Ret (Inl Incomplete)" unfolding next_request_None .
  from parse_request_append [OF this, of extra] r show "next_request (buf @ extra) = Some r"
    by (simp add: next_request_def)
qed

section \<open>What a client sends\<close>

lemma prefix_map_inj: "inj f \<Longrightarrow> prefix (map f p) (map f s) = prefix p s"
proof (induction p arbitrary: s)
  case (Cons x p)
  then show ?case by (cases s) (auto dest: injD)
qed simp

lemma find_sub_map_inj: "inj f \<Longrightarrow> find_sub (map f p) (map f s) = find_sub p s"
proof (induction s)
  case (Cons x s)
  then show ?case using prefix_map_inj [of f p "x # s"] by simp
qed simp

lemma inj_byte_of_char: "inj byte_of_char"
  by (rule injI) (metis char_of_byte_of_char)

lemma crlf2_to_bytes: "crlf2 = to_bytes [CR, LF, CR, LF]"
  by (simp add: byte_of_char_def)

lemma find_crlf2: "find_sub crlf2 (to_bytes s) = find_sub [CR, LF, CR, LF] s"
  unfolding crlf2_to_bytes unfolding to_bytes_def by (rule find_sub_map_inj [OF inj_byte_of_char])

definition line_ok :: "string \<Rightarrow> bool" where
  "line_ok l \<longleftrightarrow> l \<noteq> [] \<and> CR \<notin> set l"

text \<open>Lines separated by CR LF, and terminated by one.\<close>

fun join_lines :: "string list \<Rightarrow> string" where
  "join_lines [] = []"
| "join_lines [l] = l"
| "join_lines (l # ls) = l @ crlf @ join_lines ls"

lemma find_skip:
  "CR \<notin> set l \<Longrightarrow> find_sub [CR, LF, CR, LF] (l @ s) =
     map_option (\<lambda>i. length l + i) (find_sub [CR, LF, CR, LF] s)"
  by (induction l; cases "find_sub [CR, LF, CR, LF] s") auto

lemma find_end_of_lines:
  "ls \<noteq> [] \<Longrightarrow> \<forall>l\<in>set ls. line_ok l \<Longrightarrow>
   find_sub [CR, LF, CR, LF] (join_lines ls @ crlf @ crlf @ r) = Some (length (join_lines ls))"
proof (induction ls rule: join_lines.induct)
  case (2 l)
  then show ?case by (simp add: find_skip line_ok_def)
next
  case (3 l m ls)
  let ?rest = "join_lines (m # ls) @ crlf @ crlf @ r"
  have IH: "find_sub [CR, LF, CR, LF] ?rest = Some (length (join_lines (m # ls)))" using 3 by simp
  have "m \<noteq> []" "CR \<notin> set m" using 3 by (simp_all add: line_ok_def)
  then obtain c cs where c: "join_lines (m # ls) = c # cs" "c \<noteq> CR"
    by (cases m; cases ls) auto
  then have "find_sub [CR, LF, CR, LF] (crlf @ ?rest) = map_option (\<lambda>i. i + 2) (find_sub [CR, LF, CR, LF] ?rest)"
    by (simp add: option.map_comp o_def)
  with 3 IH show ?case by (simp add: find_skip line_ok_def)
qed simp

lemma split_str2_line:
  "CR \<notin> set l \<Longrightarrow> split_str2 CR LF (l @ CR # LF # s) = l # split_str2 CR LF s"
proof (induction l)
  case (Cons c l)
  then show ?case by (cases l) auto
qed simp

lemma split_str2_none: "CR \<notin> set l \<Longrightarrow> split_str2 CR LF l = [l]"
  by (induction CR LF l rule: split_str2.induct) auto

lemma split_join:
  "ls \<noteq> [] \<Longrightarrow> \<forall>l\<in>set ls. line_ok l \<Longrightarrow> split_str2 CR LF (join_lines ls) = ls"
  by (induction ls rule: join_lines.induct) (auto simp: line_ok_def split_str2_none split_str2_line)

text \<open>The request text of a client: the request line, the header lines, an empty line and the
  body. What the fields may contain is \<open>sendable_request\<close>.\<close>

definition header_line :: "string \<times> string \<Rightarrow> string" where
  "header_line h = fst h @ '': '' @ snd h"

definition request_lines :: "rtsp_method \<Rightarrow> string \<Rightarrow> (string \<times> string) list \<Rightarrow> string list" where
  "request_lines m uri hs = (method_as_str m @ '' '' @ uri @ '' RTSP/1.0'') # map header_line hs"

definition request_bytes ::
  "rtsp_method \<Rightarrow> string \<Rightarrow> (string \<times> string) list \<Rightarrow> bytes \<Rightarrow> bytes"
where
  "request_bytes m uri hs body = to_bytes (join_lines (request_lines m uri hs) @ crlf @ crlf) @ body"

text \<open>A header name is made of solid characters other than the colon; a value is visible at
  both ends and may have spaces inside.\<close>

definition sendable_header :: "string \<times> string \<Rightarrow> bool" where
  "sendable_header h \<longleftrightarrow>
     fst h \<noteq> [] \<and> (\<forall>c\<in>set (fst h). solid c \<and> c \<noteq> CHR '':'') \<and>
     snd h \<noteq> [] \<and> solid (hd (snd h)) \<and> solid (last (snd h)) \<and>
     (\<forall>c\<in>set (snd h). solid c \<or> c = CHR '' '')"

definition headers_of :: "(string \<times> string) list \<Rightarrow> (string \<rightharpoonup> string)" where
  "headers_of hs = foldl (\<lambda>m h. m(to_ascii_lowercase (fst h) \<mapsto> snd h)) Map.empty hs"

definition sendable_request :: "rtsp_method \<Rightarrow> string \<Rightarrow> (string \<times> string) list \<Rightarrow> bytes \<Rightarrow> bool" where
  "sendable_request m uri hs body \<longleftrightarrow>
     m \<noteq> Unsupported \<and> (\<forall>c\<in>set uri. solid c) \<and> (\<forall>h\<in>set hs. sendable_header h) \<and>
     length (request_bytes m uri hs body) < 2 ^ 64 \<and>
     (case headers_of hs ''content-length'' of
        None \<Rightarrow> body = [] | Some s \<Rightarrow> parse_uint u64_max s = Some (length body))"

lemma solid_props: "solid c \<Longrightarrow> c \<noteq> CR \<and> c \<noteq> LF \<and> c \<noteq> CHR '' ''"
  by (auto simp: solid_def)

lemma method_parse_str: "m \<noteq> Unsupported \<Longrightarrow> method_parse (method_as_str m) = m"
  by (cases m) (simp_all add: method_parse_def method_as_str_def)

lemma method_str_solid: "c \<in> set (method_as_str m) \<Longrightarrow> solid c"
  by (cases m) (auto simp: method_as_str_def solid_def)

lemma request_line_parses:
  assumes "\<forall>c\<in>set uri. solid c"
  shows "parse_request_line (method_as_str m @ '' '' @ uri @ '' RTSP/1.0'') = Inr (method_as_str m, uri)"
proof -
  have "CHR '' '' \<notin> set (method_as_str m)" "CHR '' '' \<notin> set uri"
    using method_str_solid [of _ m] solid_props assms by blast+
  then show ?thesis
    by (simp add: parse_request_line_def numeral_3_eq_3 split_once_append)
qed

lemma header_line_parses:
  assumes "sendable_header h"
  shows "header_line h \<noteq> []" "split_once (CHR '':'') (header_line h) = Some (fst h, '' '' @ snd h)"
    "trim (fst h) = fst h" "trim (CHR '' '' # snd h) = snd h"
proof -
  from assms have n: "fst h \<noteq> []" "CHR '':'' \<notin> set (fst h)" "solid (hd (fst h))" "solid (last (fst h))"
    and v: "snd h \<noteq> []" "solid (hd (snd h))" "solid (last (snd h))"
    by (auto simp: sendable_header_def)
  show "header_line h \<noteq> []" using n by (simp add: header_line_def)
  show "split_once (CHR '':'') (header_line h) = Some (fst h, '' '' @ snd h)"
    using n(2) by (simp add: header_line_def split_once_append)
  show "trim (fst h) = fst h" by (rule trim_solid [OF n(1,3,4)])
  show "trim (CHR '' '' # snd h) = snd h" by (rule trim_space [OF v])
qed

lemma parse_headers_lines:
  "\<forall>h\<in>set hs. sendable_header h \<Longrightarrow>
   parse_headers (map header_line hs) m = Inr (foldl (\<lambda>m h. m(to_ascii_lowercase (fst h) \<mapsto> snd h)) m hs)"
  by (induction hs arbitrary: m) (simp_all add: header_line_parses)

lemma unat_byte_of_char: "unat (byte_of_char c) = of_char c"
proof -
  have "(of_char c :: nat) < 256" by (rule nat_of_char_less_256)
  then show ?thesis by (simp add: byte_of_char_def unat_of_nat)
qed

lemma utf8_ascii: "\<forall>c\<in>set s. (of_char c :: nat) < 128 \<Longrightarrow> from_utf8_ok (to_bytes s)"
  by (rule from_utf8_ascii) (auto simp: list_all_iff to_bytes_def in_rng_def unat_byte_of_char)

lemma set_join_lines: "set (join_lines ls) \<subseteq> {CR, LF} \<union> (\<Union>l\<in>set ls. set l)"
  by (induction ls rule: join_lines.induct) auto

lemma request_lines_ok:
  assumes "\<forall>c\<in>set uri. solid c" "\<forall>h\<in>set hs. sendable_header h"
  shows "\<forall>l\<in>set (request_lines m uri hs). line_ok l"
    and "\<forall>c\<in>set (join_lines (request_lines m uri hs)). (of_char c :: nat) < 128"
proof -
  have lit: "solid c \<or> c = CHR '' ''" if "c \<in> set '' RTSP/1.0'' \<or> c \<in> set '': '' \<or> c \<in> set '' ''" for c
    using that by (auto simp: solid_def)
  have hl: "solid c \<or> c = CHR '' ''" if "h \<in> set hs" "c \<in> set (header_line h)" for h c
  proof -
    have "sendable_header h" using that(1) assms(2) by blast
    moreover have "c \<in> set (fst h) \<or> c \<in> set '': '' \<or> c \<in> set (snd h)"
      using that(2) by (auto simp: header_line_def)
    ultimately show ?thesis using lit [of c] unfolding sendable_header_def by blast
  qed
  have cs: "solid c \<or> c = CHR '' ''" if "l \<in> set (request_lines m uri hs)" "c \<in> set l" for l c
  proof (cases "l \<in> header_line ` set hs")
    case False
    with that(1) have "l = method_as_str m @ '' '' @ uri @ '' RTSP/1.0''"
      unfolding request_lines_def list.set set_map by blast
    with that(2) have "c \<in> set (method_as_str m) \<or> c \<in> set '' '' \<or> c \<in> set uri \<or> c \<in> set '' RTSP/1.0''"
      by (simp only: set_append Un_iff)
    then show ?thesis using lit [of c] method_str_solid [of c m] assms(1) by blast
  qed (use hl that in blast)
  have cr: "\<not> solid CR" "CR \<noteq> CHR '' ''" by (simp_all add: solid_def)
  have "l \<noteq> []" if "l \<in> set (request_lines m uri hs)" for l
    using that assms by (auto simp: request_lines_def header_line_def sendable_header_def)
  with cs cr show "\<forall>l\<in>set (request_lines m uri hs). line_ok l" unfolding line_ok_def by blast
  have small: "(of_char c :: nat) < 128" if "solid c \<or> c = CHR '' '' \<or> c = CR \<or> c = LF" for c
    using that by (auto simp: solid_def)
  show "\<forall>c\<in>set (join_lines (request_lines m uri hs)). (of_char c :: nat) < 128"
  proof
    fix c assume "c \<in> set (join_lines (request_lines m uri hs))"
    then have "c \<in> {CR, LF} \<union> (\<Union>l\<in>set (request_lines m uri hs). set l)" using set_join_lines by blast
    then have "c = CR \<or> c = LF \<or> (\<exists>l\<in>set (request_lines m uri hs). c \<in> set l)" by simp
    with cs small show "(of_char c :: nat) < 128" by metis
  qed
qed

text \<open>The parser on a well-formed head, before the body is looked at.\<close>

lemma parse_request_head:
  assumes m: "m \<noteq> Unsupported" and uri: "\<forall>c\<in>set uri. solid c" and hs: "\<forall>h\<in>set hs. sendable_header h"
    and n: "content_length (headers_of hs) = Inr n"
  defines "head \<equiv> length (request_bytes m uri hs [])"
  shows "parse_request (request_bytes m uri hs [] @ rest) =
    (if 2 ^ 64 \<le> head + n then Panic
     else if length rest < n then Ret (Inl Incomplete)
     else Ret (Inr (\<lparr>req_method = m, req_uri = uri, req_headers = headers_of hs, req_body = take n rest\<rparr>,
                    head + n)))"
proof -
  let ?ls = "request_lines m uri hs"
  let ?t = "join_lines ?ls"
  let ?buf = "request_bytes m uri hs [] @ rest"
  note ok = request_lines_ok [OF uri hs, of m]
  have ne: "?ls \<noteq> []" by (simp add: request_lines_def)
  have buf: "?buf = to_bytes (?t @ crlf @ crlf @ of_bytes rest)" by (simp add: request_bytes_def)
  have idx: "find_sub crlf2 ?buf = Some (length ?t)"
    unfolding buf find_crlf2 by (rule find_end_of_lines [OF ne ok(1)])
  have head: "take (length ?t) ?buf = to_bytes ?t" by (simp add: request_bytes_def)
  have "parse_request_line (hd ?ls) = Inr (method_as_str m, uri)"
    using request_line_parses [OF uri, of m] by (simp add: request_lines_def)
  moreover have "parse_headers (tl ?ls) Map.empty = Inr (headers_of hs)"
    using parse_headers_lines [OF hs] by (simp add: request_lines_def headers_of_def)
  moreover have l: "head = length ?t + 4" by (simp add: head_def request_bytes_def)
  moreover have "length ?buf = head + length rest" "drop (length ?t + 4) ?buf = rest"
    by (simp_all add: head_def request_bytes_def)
  ultimately show ?thesis
    using utf8_ascii [OF ok(2)] split_join [OF ne ok(1)] n method_parse_str [OF m]
    unfolding parse_request_def idx option.case head Let_def of_to_bytes by simp
qed

lemma parse_request_sent:
  assumes "sendable_request m uri hs body"
  shows "parse_request (request_bytes m uri hs body @ rest) =
    Ret (Inr (\<lparr>req_method = m, req_uri = uri, req_headers = headers_of hs, req_body = body\<rparr>,
              length (request_bytes m uri hs body)))"
proof -
  have r: "request_bytes m uri hs body = request_bytes m uri hs [] @ body" by (simp add: request_bytes_def)
  have a: "m \<noteq> Unsupported" "\<forall>c\<in>set uri. solid c" "\<forall>h\<in>set hs. sendable_header h"
    "length (request_bytes m uri hs []) + length body < 2 ^ 64"
    using assms unfolding sendable_request_def r by simp_all
  have "content_length (headers_of hs) = Inr (length body)"
    using assms by (auto simp: content_length_def sendable_request_def split: option.splits)
  from parse_request_head [OF a(1-3) this, of "body @ rest"] a(4) show ?thesis
    unfolding r by simp
qed

text \<open>C31. Request round trip: whatever an RFC 2326 client writes for a supported method, with any
  visible URI, well-formed headers and a body announced by its \<open>Content-Length\<close>, is parsed
  back field by field (header names lowercased, the last duplicate wins), and exactly the
  request's bytes are consumed, whatever follows it in the buffer.\<close>

theorem request_roundtrip:
  assumes "sendable_request m uri hs body"
  shows "parse_request (request_bytes m uri hs body @ rest) =
    Ret (Inr (\<lparr>req_method = m, req_uri = uri, req_headers = headers_of hs, req_body = body\<rparr>,
              length (request_bytes m uri hs body)))"
  by (rule parse_request_sent [OF assms])

definition demo_headers :: "(string \<times> string) list" where
  "demo_headers = [(''CSeq'', ''3''), (''Content-Length'', ''2'')]"

lemma demo_length: "length (request_bytes Setup ''rtsp://h/cam/streamid=0'' demo_headers [7, 8]) = 72"
  by code_simp

lemma demo_sendable: "sendable_request Setup ''rtsp://h/cam/streamid=0'' demo_headers [7, 8]"
proof -
  have "headers_of demo_headers ''content-length'' = Some ''2''"
    by code_simp
  moreover have "parse_uint u64_max ''2'' = Some 2"
    by (simp add: parse_uint_def is_ascii_digit_def digit_val_def)
  moreover have "\<forall>c\<in>set ''rtsp://h/cam/streamid=0''. solid c" by code_simp
  moreover have "\<forall>h\<in>set demo_headers. sendable_header h" by code_simp
  ultimately show ?thesis by (simp add: sendable_request_def demo_length)
qed

theorem request_roundtrip_witness:
  "parse_request (request_bytes Setup ''rtsp://h/cam/streamid=0'' demo_headers [7, 8] @ [0x4F]) =
    Ret (Inr (\<lparr>req_method = Setup, req_uri = ''rtsp://h/cam/streamid=0'',
        req_headers = headers_of demo_headers, req_body = [7, 8]\<rparr>, 72))"
  using request_roundtrip [OF demo_sendable, of "[0x4F]"] unfolding demo_length .

text \<open>A client can make its connection task panic: a syntactically valid request whose
  announced body length does not fit in 64 bits together with the header length is not
  answered or rejected, the parser panics.\<close>

theorem content_length_overflow:
  assumes "m \<noteq> Unsupported" "\<forall>c\<in>set uri. solid c" "\<forall>h\<in>set hs. sendable_header h"
    and "headers_of hs ''content-length'' = Some s" "parse_uint u64_max s = Some n"
    and "2 ^ 64 \<le> length (request_bytes m uri hs []) + n"
  shows "parse_request (request_bytes m uri hs [] @ rest) = Panic"
proof -
  have "content_length (headers_of hs) = Inr n" using assms(4,5) by (simp add: content_length_def)
  from parse_request_head [OF assms(1-3) this, of rest] assms(6) show ?thesis by simp
qed

theorem content_length_overflow_witness:
  "parse_request (request_bytes Options ''*'' [(''Content-Length'', ''18446744073709551615'')] []) = Panic"
proof -
  let ?hs = "[(''Content-Length'', ''18446744073709551615'')]"
  have v: "headers_of ?hs ''content-length'' = Some ''18446744073709551615''" by code_simp
  have n: "parse_uint u64_max ''18446744073709551615'' = Some u64_max"
    by (simp add: parse_uint_def is_ascii_digit_def digit_val_def)
  have h: "\<forall>h\<in>set ?hs. sendable_header h" by code_simp
  have l: "length (request_bytes Options ''*'' ?hs []) = 60" by code_simp
  have u: "\<forall>c\<in>set ''*''. solid c" by code_simp
  show ?thesis
    using content_length_overflow [OF _ u h v n, of Options "[]"] by (simp only: l) simp
qed

end
