(* ===== verification/RtspSession.thy ===== *)
theory RtspSession
  imports RtspMessage Sdp
begin

text \<open>
  The per-connection RTSP state machine (\<open>src/rtsp/session.rs\<close>): one request in, one
  response and at most one side effect out. The protocol it has to keep is stated over the
  runs of \<open>session_handle\<close> from a fresh session.
\<close>

section \<open>State and handler\<close>

datatype rtsp_state = Init | Described | SetUp | Playing | TornDown

datatype session_action = NoAction | StartStreaming u8 | Stop

record session_context =
  camera_name :: string
  ctx_h264 :: h264_params
  expected_path :: string
  new_session_id :: string

record rtsp_session =
  rs_state :: rtsp_state
  session_id :: "string option"
  rtp_channel :: "u8 option"

definition session_new :: rtsp_session where
  "session_new = \<lparr>rs_state = Init, session_id = None, rtp_channel = None\<rparr>"

text \<open>The path component of the URI is the fourth piece between slashes, or the whole URI when
  there are fewer; a stream id or parameters after it are ignored.\<close>

definition uri_matches :: "string \<Rightarrow> string \<Rightarrow> bool" where
  "uri_matches uri expected =
     (let ps = splitn 4 (CHR ''/'') uri;
          path_part = trim_start_char (CHR ''/'') (if 3 < length ps then ps ! 3 else uri);
          main = hd (split_on (CHR ''/'') path_part)
      in hd (split_on (CHR '';'') main) = expected)"

fun interleaved_parts :: "string list \<Rightarrow> (u8 \<times> u8) option" where
  "interleaved_parts [] = None"
| "interleaved_parts (part # parts) =
     (case strip_prefix ''interleaved='' (trim part) of
        None \<Rightarrow> interleaved_parts parts
      | Some rest \<Rightarrow>
          Option.bind (split_once (CHR ''-'') rest) (\<lambda>(a, b).
          Option.bind (parse_uint u8_max a) (\<lambda>m.
          Option.bind (parse_uint u8_max b) (\<lambda>n.
            Some (word_of_nat m, word_of_nat n)))))"

definition parse_interleaved :: "string \<Rightarrow> (u8 \<times> u8) option" where
  "parse_interleaved transport =
     (if \<not> str_contains transport ''RTP/AVP/TCP'' then None
      else interleaved_parts (split_on (CHR '';'') transport))"

definition show_u8 :: "u8 \<Rightarrow> string" where
  "show_u8 b = show_nat (unat b)"

definition session_handle ::
  "rtsp_session \<Rightarrow> rtsp_request \<Rightarrow> session_context
   \<Rightarrow> rtsp_response \<times> session_action \<times> rtsp_session"
where
  "session_handle s req ctx =
     (let cseq = (case req_cseq req of None \<Rightarrow> 0 | Some n \<Rightarrow> n) in
      if \<not> uri_matches (req_uri req) (expected_path ctx) \<and> req_method req \<noteq> Options
      then (resp_error 404 ''Not Found'' cseq, NoAction, s)
      else case req_method req of
        Options \<Rightarrow>
          (with_header ''Public'' ''OPTIONS, DESCRIBE, SETUP, PLAY, TEARDOWN, GET_PARAMETER'' (resp_ok cseq),
           NoAction, s)
      | Describe \<Rightarrow>
          (with_header ''Content-Base'' (req_uri req)
             (with_body ''application/sdp'' (build_sdp (camera_name ctx) (ctx_h264 ctx)) (resp_ok cseq)),
           NoAction, s\<lparr>rs_state := Described\<rparr>)
      | Setup \<Rightarrow>
          (case req_header req ''transport'' of
             None \<Rightarrow> (resp_error 400 ''Bad Request'' cseq, NoAction, s)
           | Some transport \<Rightarrow>
               (case parse_interleaved transport of
                  None \<Rightarrow> (resp_error 461 ''Unsupported Transport'' cseq, NoAction, s)
                | Some (a, b) \<Rightarrow>
                    (with_header ''Session'' (new_session_id ctx)
                       (with_header ''Transport''
                          (''RTP/AVP/TCP;unicast;interleaved='' @ show_u8 a @ ''-'' @ show_u8 b)
                          (resp_ok cseq)),
                     NoAction,
                     s\<lparr>session_id := Some (new_session_id ctx), rtp_channel := Some a, rs_state := SetUp\<rparr>)))
      | Play \<Rightarrow>
          if rs_state s \<noteq> SetUp
          then (resp_error 455 ''Method Not Valid In This State'' cseq, NoAction, s)
          else (case session_id s of
             None \<Rightarrow> (resp_error 454 ''Session Not Found'' cseq, NoAction, s)
           | Some sid \<Rightarrow>
               (with_header ''Range'' ''npt=0.000-'' (with_header ''Session'' sid (resp_ok cseq)),
                StartStreaming (case rtp_channel s of None \<Rightarrow> 0 | Some c \<Rightarrow> c),
                s\<lparr>rs_state := Playing\<rparr>))
      | Teardown \<Rightarrow>
          (with_header ''Session'' (case session_id s of None \<Rightarrow> [] | Some sid \<Rightarrow> sid) (resp_ok cseq),
           Stop, s\<lparr>rs_state := TornDown\<rparr>)
      | GetParameter \<Rightarrow>
          (let sid = (case session_id s of None \<Rightarrow> [] | Some sid \<Rightarrow> sid) in
           (if sid = [] then resp_ok cseq else with_header ''Session'' sid (resp_ok cseq), NoAction, s))
      | Unsupported \<Rightarrow> (resp_error 501 ''Not Implemented'' cseq, NoAction, s))"

text \<open>A conversation: the requests with the context each of them was handled in, and what came
  out of each.\<close>

fun converse ::
  "rtsp_session \<Rightarrow> (rtsp_request \<times> session_context) list
   \<Rightarrow> (rtsp_response \<times> session_action) list \<times> rtsp_session"
where
  "converse s [] = ([], s)"
| "converse s ((req, ctx) # rs) =
     (let (resp, act, s1) = session_handle s req ctx;
          (outs, s2) = converse s1 rs
      in ((resp, act) # outs, s2))"

section \<open>The protocol\<close>

text \<open>What the requests alone determine: the channel of the last acceptable SETUP.\<close>

definition setup_channel :: "rtsp_request \<times> session_context \<Rightarrow> u8 option" where
  "setup_channel rc =
     (if req_method (fst rc) = Setup \<and> uri_matches (req_uri (fst rc)) (expected_path (snd rc))
      then map_option fst (Option.bind (req_header (fst rc) ''transport'') parse_interleaved)
      else None)"

definition negotiated :: "(rtsp_request \<times> session_context) list \<Rightarrow> u8 option" where
  "negotiated rcs = foldl (\<lambda>n rc. case setup_channel rc of None \<Rightarrow> n | Some c \<Rightarrow> Some c) None rcs"

definition session_ok :: "u8 option \<Rightarrow> rtsp_session \<Rightarrow> bool" where
  "session_ok n s \<longleftrightarrow> rtp_channel s = n \<and> (session_id s = None \<longleftrightarrow> n = None) \<and> (rs_state s = SetUp \<longrightarrow> n \<noteq> None)"

lemmas resp_defs = resp_ok_def resp_error_def with_header_def with_body_def

lemma resp_fields [simp]:
  "status (resp_ok q) = 200" "resp_cseq (resp_ok q) = q"
  "status (resp_error st why q) = st" "resp_cseq (resp_error st why q) = q"
  "status (with_header k v r) = status r" "resp_cseq (with_header k v r) = resp_cseq r"
  "status (with_body ty b r) = status r" "resp_cseq (with_body ty b r) = resp_cseq r"
  by (simp_all add: resp_defs)

lemma handle_session_ok:
  assumes "session_ok n s" "session_handle s req ctx = (resp, act, s')"
  shows "session_ok (case setup_channel (req, ctx) of None \<Rightarrow> n | Some c \<Rightarrow> Some c) s'"
  using assms unfolding session_handle_def Let_def
  by (cases "req_method req") (auto simp: session_ok_def setup_channel_def split: if_splits option.splits)

lemma handle_streaming:
  assumes "session_ok n s" "session_handle s req ctx = (resp, act, s')"
  shows "status resp \<noteq> 454" "act = StartStreaming c \<Longrightarrow> n = Some c \<and> req_method req = Play \<and>
           status resp = 200 \<and> rs_state s = SetUp \<and> rs_state s' = Playing"
  using assms unfolding session_handle_def Let_def
  by (cases "req_method req"; auto simp: session_ok_def split: if_splits option.splits)+

text \<open>C7. RTP starts only after a negotiated SETUP: in every conversation with a fresh session, a
  response that starts streaming answers a PLAY with 200, on the very channel that the last
  acceptable SETUP of the conversation asked for; and "454 Session Not Found" is never sent
  (the branch is dead code).\<close>

theorem streaming_negotiated:
  assumes "converse session_new rcs = (outs, s)" "i < length rcs"
  shows "status (fst (outs ! i)) \<noteq> 454 \<and>
         (snd (outs ! i) = StartStreaming c \<longrightarrow>
            negotiated (take i rcs) = Some c \<and> req_method (fst (rcs ! i)) = Play \<and>
            status (fst (outs ! i)) = 200)"
proof -
  have gen: "status (fst (outs ! i)) \<noteq> 454 \<and>
      (snd (outs ! i) = StartStreaming c \<longrightarrow>
        foldl (\<lambda>n rc. case setup_channel rc of None \<Rightarrow> n | Some c \<Rightarrow> Some c) n (take i rcs) = Some c \<and>
        req_method (fst (rcs ! i)) = Play \<and> status (fst (outs ! i)) = 200)"
    if "session_ok n s0" "converse s0 rcs = (outs, s)" "i < length rcs" for s0 n outs
    using that
  proof (induction rcs arbitrary: s0 n outs i)
    case (Cons rc rcs)
    obtain req ctx where rc: "rc = (req, ctx)" by force
    obtain resp act s1 where h: "session_handle s0 req ctx = (resp, act, s1)" by (cases "session_handle s0 req ctx") auto
    obtain outs' where o: "converse s1 rcs = (outs', s)" "outs = (resp, act) # outs'"
      using Cons.prems(2) rc h by (auto split: prod.splits)
    show ?case
    proof (cases i)
      case 0
      with handle_streaming [OF Cons.prems(1) h] o rc show ?thesis by auto
    next
      case (Suc j)
      with Cons.IH [OF handle_session_ok [OF Cons.prems(1) h] o(1), of j] Cons.prems(3) o rc
      show ?thesis by simp
    qed
  qed simp
  have "session_ok None session_new" by (simp add: session_ok_def session_new_def)
  from gen [OF this assms] show ?thesis by (simp add: negotiated_def)
qed

text \<open>Errors change nothing and every answer carries the request's sequence number: a response
  with an error status has no side effect and leaves the session as it was.\<close>

theorem error_leaves_session:
  assumes "session_handle s req ctx = (resp, act, s')"
  shows "resp_cseq resp = (case req_cseq req of None \<Rightarrow> 0 | Some n \<Rightarrow> n) \<and>
         (status resp = 200 \<or> (status resp \<in> {400, 404, 454, 455, 461, 501} \<and> act = NoAction \<and> s' = s))"
proof -
  obtain q where q: "(case req_cseq req of None \<Rightarrow> 0 | Some n \<Rightarrow> n) = q" by simp
  show ?thesis
    using assms unfolding session_handle_def Let_def q
    by (cases "req_method req") (auto split: if_splits option.splits)
qed

definition demo_ctx :: session_context where
  "demo_ctx = \<lparr>camera_name = ''Cam'', ctx_h264 = \<lparr>profile_level_id = ''42c01e'', sprop_parameter_sets = [],
     packetization_mode = 1, payload_type = 96\<rparr>, expected_path = ''cam'', new_session_id = ''S1''\<rparr>"

definition demo_request :: "rtsp_method \<Rightarrow> rtsp_request" where
  "demo_request m = \<lparr>req_method = m, req_uri = ''rtsp://h/cam'',
     req_headers = [''transport'' \<mapsto> ''RTP/AVP/TCP;unicast;interleaved=2-3'', ''cseq'' \<mapsto> ''7''], req_body = []\<rparr>"

lemma demo_conversation:
  "\<exists>r0 r1 r2 s. converse session_new [(demo_request Describe, demo_ctx), (demo_request Setup, demo_ctx), (demo_request Play, demo_ctx)]
     = ([(r0, NoAction), (r1, NoAction), (r2, StartStreaming 2)], s)"
proof -
  have u: "uri_matches ''rtsp://h/cam'' ''cam''" by code_simp
  have t: "req_header (demo_request Setup) ''transport'' = Some ''RTP/AVP/TCP;unicast;interleaved=2-3''"
    by code_simp
  have "parse_uint u8_max ''2'' = Some 2" "parse_uint u8_max ''3'' = Some 3"
    by (simp_all add: parse_uint_def is_ascii_digit_def digit_val_def)
  moreover have "str_contains ''RTP/AVP/TCP;unicast;interleaved=2-3'' ''RTP/AVP/TCP''" by code_simp
  moreover have "trim ''RTP/AVP/TCP'' = ''RTP/AVP/TCP''" "trim ''unicast'' = ''unicast''"
    "trim ''interleaved=2-3'' = ''interleaved=2-3''"
    by (rule trim_solid; simp add: solid_def)+
  ultimately have p: "parse_interleaved ''RTP/AVP/TCP;unicast;interleaved=2-3'' = Some (2, 3)"
    by (simp add: parse_interleaved_def)
  have f: "req_method (demo_request m) = m" "req_uri (demo_request m) = ''rtsp://h/cam''"
    "expected_path demo_ctx = ''cam''" for m by (simp_all add: demo_request_def demo_ctx_def)
  show ?thesis
    by (simp add: session_handle_def session_new_def f u p t Let_def)
qed

theorem streaming_negotiated_witness:
  "negotiated [(demo_request Describe, demo_ctx), (demo_request Setup, demo_ctx)] = Some 2"
proof -
  obtain r0 r1 r2 s where "converse session_new
      [(demo_request Describe, demo_ctx), (demo_request Setup, demo_ctx), (demo_request Play, demo_ctx)]
     = ([(r0, NoAction), (r1, NoAction), (r2, StartStreaming 2)], s)"
    using demo_conversation by blast
  from streaming_negotiated [OF this, of 2 2] show ?thesis by simp
qed

theorem error_leaves_session_witness:
  "\<exists>resp act s'. session_handle session_new (demo_request Play) demo_ctx = (resp, act, s') \<and>
     status resp = 455 \<and> s' = session_new"
proof -
  have u: "uri_matches ''rtsp://h/cam'' ''cam''" by code_simp
  obtain resp act s' where h: "session_handle session_new (demo_request Play) demo_ctx = (resp, act, s')"
    by (cases "session_handle session_new (demo_request Play) demo_ctx") auto
  moreover from h have "status resp = 455"
    by (auto simp: session_handle_def session_new_def demo_request_def demo_ctx_def u Let_def resp_defs)
  ultimately show ?thesis using error_leaves_session [OF h] by auto
qed

section \<open>The camera path\<close>

lemma takeWhile_free: "c \<notin> set a \<Longrightarrow> b = [] \<or> hd b = c \<Longrightarrow> takeWhile (\<lambda>x. x \<noteq> c) (a @ b) = a"
  by (induction a) (cases b; auto)+

lemma uri_matches_pieces: "uri_matches u p \<Longrightarrow> CHR ''/'' \<notin> set p \<and> CHR '';'' \<notin> set p"
  by (auto simp: uri_matches_def Let_def hd_split_on dest!: set_takeWhileD)

lemma uri_accepted:
  assumes "CHR ''/'' \<notin> set host"
  shows "(if CHR ''/'' \<in> set p \<or> CHR '';'' \<in> set p then \<not> uri_matches u p
          else p = [] \<or> uri_matches (''rtsp://'' @ host @ ''/'' @ p) p \<and>
               uri_matches (''rtsp://'' @ host @ ''/'' @ p @ ''/'' @ x) p \<and>
               uri_matches (''rtsp://'' @ host @ ''/'' @ p @ '';'' @ y) p)"
proof (cases "CHR ''/'' \<in> set p \<or> CHR '';'' \<in> set p")
  case True
  then show ?thesis using uri_matches_pieces [of u p] by auto
next
  case False
  have m: "uri_matches (''rtsp://'' @ host @ ''/'' @ p @ suf) p"
    if "p \<noteq> []" "suf = [] \<or> hd suf = CHR ''/'' \<or> hd suf = CHR '';''" for suf
  proof -
    have parts: "splitn 4 (CHR ''/'') (''rtsp://'' @ host @ ''/'' @ p @ suf) = [''rtsp:'', [], host, p @ suf]"
      using split_once_append [OF assms, of "p @ suf"]
      by (simp add: numeral_eq_Suc)
    have "trim_start_char (CHR ''/'') (p @ suf) = p @ suf"
      using that(1) False by (cases p) (auto simp: trim_start_char_def)
    then have "uri_matches (''rtsp://'' @ host @ ''/'' @ p @ suf) p \<longleftrightarrow>
        takeWhile (\<lambda>x. x \<noteq> CHR '';'') (takeWhile (\<lambda>x. x \<noteq> CHR ''/'') (p @ suf)) = p"
      unfolding uri_matches_def parts by (simp add: Let_def hd_split_on)
    also have "takeWhile (\<lambda>x. x \<noteq> CHR ''/'') (p @ suf) = p @ takeWhile (\<lambda>x. x \<noteq> CHR ''/'') suf"
      using False by (intro takeWhile_append2) auto
    also have "takeWhile (\<lambda>x. x \<noteq> CHR '';'') (p @ takeWhile (\<lambda>x. x \<noteq> CHR ''/'') suf) = p"
      using False that(2) by (intro takeWhile_free) (cases suf; auto)+
    finally show ?thesis by simp
  qed
  show ?thesis using False m [of "[]"] m [of "''/'' @ x"] m [of "'';'' @ y"] by auto
qed

text \<open>Which URIs name the camera: for a configured path without slash and semicolon, the URI
  with that path under any host is accepted, also with a stream id or parameters behind it;
  a configured path that contains a slash or a semicolon is never matched, so every request
  but OPTIONS is answered 404.\<close>

theorem uri_acceptance:
  assumes "CHR ''/'' \<notin> set host"
  shows "(if CHR ''/'' \<in> set p \<or> CHR '';'' \<in> set p then \<not> uri_matches u p
          else p = [] \<or> uri_matches (''rtsp://'' @ host @ ''/'' @ p) p \<and>
               uri_matches (''rtsp://'' @ host @ ''/'' @ p @ ''/'' @ x) p \<and>
               uri_matches (''rtsp://'' @ host @ ''/'' @ p @ '';'' @ y) p)"
  by (rule uri_accepted [OF assms])

theorem uri_acceptance_witness:
  "uri_matches ''rtsp://127.0.0.1:8554/cam'' ''cam'' \<and> uri_matches ''rtsp://127.0.0.1:8554/cam/streamid=0'' ''cam'' \<and>
   \<not> uri_matches ''rtsp://127.0.0.1:8554/garage/cam'' ''garage/cam''"
  using uri_acceptance [of "''127.0.0.1:8554''" "''cam''" _ "''streamid=0''"]
    uri_acceptance [of "''127.0.0.1:8554''" "''garage/cam''" "''rtsp://127.0.0.1:8554/garage/cam''"]
  by simp

end
