(* ===== verification/Interleaved.thy ===== *)
theory Interleaved
  imports Prelude
begin

text \<open>
  RTP over RTSP: the interleaved frame of RFC 2326 section 10.12
  (\<open>src/rtsp/interleaved.rs\<close>) and the RTP header serialiser of \<open>src/rtsp/server.rs\<close>.
  The decoders are the specification: what a client reading the RFCs does.
\<close>

section \<open>Interleaved frames\<close>

definition max_frame_payload :: nat where "max_frame_payload = 65535"

text \<open>The frame appended to \<open>buf\<close>; an oversize payload fails the assertion.\<close>

definition encode_frame :: "bytes \<Rightarrow> u8 \<Rightarrow> bytes \<Rightarrow> bytes outcome" where
  "encode_frame buf channel payload =
     (if length payload \<le> max_frame_payload
      then Ret (buf @ [0x24, channel] @ be16 (word_of_nat (length payload)) @ payload)
      else Panic)"

fun decode_frame :: "bytes \<Rightarrow> ((u8 \<times> bytes) \<times> bytes) option" where
  "decode_frame (d # ch # hi # lo # rest) =
     (let n = unat (of_be16 hi lo) in
      if d = 0x24 \<and> n \<le> length rest then Some ((ch, take n rest), drop n rest) else None)"
| "decode_frame _ = None"

definition frame_bytes :: "u8 \<times> bytes \<Rightarrow> bytes" where
  "frame_bytes f = (case encode_frame [] (fst f) (snd f) of Ret b \<Rightarrow> b | Panic \<Rightarrow> [])"

definition fits_frame :: "u8 \<times> bytes \<Rightarrow> bool" where
  "fits_frame f \<longleftrightarrow> length (snd f) \<le> max_frame_payload"

lemma encode_frame_append:
  "fits_frame (ch, p) \<Longrightarrow> encode_frame buf ch p = Ret (buf @ frame_bytes (ch, p))"
  by (simp add: encode_frame_def frame_bytes_def fits_frame_def)

interpretation frames: stream_codec frame_bytes decode_frame fits_frame
proof unfold_locales
  fix f rest assume f: "fits_frame f"
  obtain ch p where cp: "f = (ch, p)" by force
  with f have "length p < 2 ^ 16" by (simp add: fits_frame_def max_frame_payload_def)
  then have "unat (word_of_nat (length p) :: u16) = length p" by (simp add: unat_of_nat)
  with f cp show "decode_frame (frame_bytes f @ rest) = Some (f, rest)"
    by (simp add: frame_bytes_def encode_frame_def be16_def fits_frame_def)
  from f show "frame_bytes f \<noteq> []"
    by (simp add: frame_bytes_def encode_frame_def fits_frame_def)
qed

section \<open>RTP headers\<close>

record rtp_ext =
  ext_id :: u8
  ext_payload :: bytes

record rtp_header =
  rh_version :: u8
  rh_padding :: bool
  rh_extension :: bool
  rh_marker :: bool
  rh_payload_type :: u8
  rh_seq :: u16
  rh_timestamp :: u32
  rh_ssrc :: u32
  rh_csrc :: "u32 list"
  rh_ext_profile :: u16
  rh_exts :: "rtp_ext list"

definition rtp_first :: "rtp_header \<Rightarrow> u8" where
  "rtp_first h =
     (push_bit 6 (rh_version h AND 0x3)) OR (if rh_padding h then 0x20 else 0)
     OR (if rh_extension h then 0x10 else 0) OR (word_of_nat (length (rh_csrc h)) AND 0x0F)"

definition rtp_second :: "rtp_header \<Rightarrow> u8" where
  "rtp_second h = (rh_payload_type h AND 0x7F) OR (if rh_marker h then 0x80 else 0)"

text \<open>\<open>while buf.len() % 4 != 0\<close>: the padding to the next 32-bit boundary of the buffer.\<close>

definition pad4 :: "bytes \<Rightarrow> bytes" where
  "pad4 buf = buf @ replicate ((4 - length buf mod 4) mod 4) 0"

definition push_ext :: "bytes \<Rightarrow> rtp_ext \<Rightarrow> bytes" where
  "push_ext buf e =
     pad4 (buf @ [ext_id e, word_of_nat (length (ext_payload e))] @ ext_payload e)"

definition ext_len_words :: "rtp_ext list \<Rightarrow> u16" where
  "ext_len_words es = word_of_nat (sum_list (map (\<lambda>e. (length (ext_payload e) + 1 + 3) div 4) es))"

definition header_to_bytes :: "rtp_header \<Rightarrow> bytes" where
  "header_to_bytes h =
     (let buf = [rtp_first h, rtp_second h] @ be16 (rh_seq h) @ be32 (rh_timestamp h)
                @ be32 (rh_ssrc h) @ concat (map be32 (rh_csrc h))
      in if rh_extension h
         then foldl push_ext (buf @ be16 (rh_ext_profile h) @ be16 (ext_len_words (rh_exts h)))
                (rh_exts h)
         else buf)"

text \<open>A reader of the fixed header, the CSRC list and the header extension (RFC 3550 sections 5.1 and
  5.3.1): it skips as many words of the extension as its length field announces and returns the
  rest of the packet, with the profile of the extension in the header.\<close>

fun read_csrcs :: "nat \<Rightarrow> bytes \<Rightarrow> (u32 list \<times> bytes) option" where
  "read_csrcs 0 bs = Some ([], bs)"
| "read_csrcs (Suc n) (a # b # c # d # bs) =
     map_option (\<lambda>(cs, r). (of_be32 a b c d # cs, r)) (read_csrcs n bs)"
| "read_csrcs (Suc n) bs = None"

fun read_extension :: "bool \<Rightarrow> bytes \<Rightarrow> (u16 \<times> bytes) option" where
  "read_extension False bs = Some (0, bs)"
| "read_extension True (p1 # p0 # l1 # l0 # bs) =
     (let n = 4 * unat (of_be16 l1 l0) in
      if n \<le> length bs then Some (of_be16 p1 p0, drop n bs) else None)"
| "read_extension True _ = None"

fun read_rtp :: "bytes \<Rightarrow> (rtp_header \<times> bytes) option" where
  "read_rtp (a # b # s1 # s0 # t3 # t2 # t1 # t0 # r3 # r2 # r1 # r0 # rest) =
     (case read_csrcs (unat (a AND 0x0F)) rest of
        None \<Rightarrow> None
      | Some (cs, r) \<Rightarrow>
          map_option (\<lambda>(profile, payload).
            (\<lparr>rh_version = drop_bit 6 a, rh_padding = bit a 5, rh_extension = bit a 4,
              rh_marker = bit b 7, rh_payload_type = b AND 0x7F,
              rh_seq = of_be16 s1 s0, rh_timestamp = of_be32 t3 t2 t1 t0,
              rh_ssrc = of_be32 r3 r2 r1 r0, rh_csrc = cs,
              rh_ext_profile = profile, rh_exts = []\<rparr>, payload)) (read_extension (bit a 4) r))"
| "read_rtp _ = None"

text \<open>What such a reader sees of a header: all but the elements of the extension.\<close>

definition as_read :: "rtp_header \<Rightarrow> rtp_header" where
  "as_read h = h\<lparr>rh_ext_profile := (if rh_extension h then rh_ext_profile h else 0), rh_exts := []\<rparr>"

lemma read_csrcs_be: "read_csrcs (length cs) (concat (map be32 cs) @ r) = Some (cs, r)"
  by (induction cs) (simp_all add: be32_def)

lemma rtp_first_bits:
  "rtp_first h =
     push_bit 6 (take_bit 2 (rh_version h)) OR push_bit 5 (of_bool (rh_padding h))
     OR push_bit 4 (of_bool (rh_extension h)) OR take_bit 4 (word_of_nat (length (rh_csrc h)))"
  by (simp add: rtp_first_def take_bit_eq_mask mask_eq_exp_minus_1)

lemma rtp_second_bits:
  "rtp_second h = take_bit 7 (rh_payload_type h) OR push_bit 7 (of_bool (rh_marker h))"
  by (simp add: rtp_second_def take_bit_eq_mask mask_eq_exp_minus_1)

lemma rtp_first_fields:
  "drop_bit 6 (rtp_first h) = take_bit 2 (rh_version h)"
  "bit (rtp_first h) 5 = rh_padding h" "bit (rtp_first h) 4 = rh_extension h"
  "rtp_first h AND 0x0F = take_bit 4 (word_of_nat (length (rh_csrc h)))"
proof -
  have m: "(0x0F :: u8) = mask 4" by (simp add: mask_eq_exp_minus_1)
  show "drop_bit 6 (rtp_first h) = take_bit 2 (rh_version h)"
    by (rule bit_word_eqI) (auto simp: rtp_first_bits bit_simps)
  show "bit (rtp_first h) 5 = rh_padding h" "bit (rtp_first h) 4 = rh_extension h"
    by (auto simp: rtp_first_bits bit_simps)
  show "rtp_first h AND 0x0F = take_bit 4 (word_of_nat (length (rh_csrc h)))"
    unfolding m by (rule bit_word_eqI) (auto simp: rtp_first_bits bit_simps)
qed

lemma rtp_second_fields:
  "rtp_second h AND 0x7F = take_bit 7 (rh_payload_type h)" "bit (rtp_second h) 7 = rh_marker h"
proof -
  have m: "(0x7F :: u8) = mask 7" by (simp add: mask_eq_exp_minus_1)
  show "rtp_second h AND 0x7F = take_bit 7 (rh_payload_type h)"
    unfolding m by (rule bit_word_eqI) (auto simp: rtp_second_bits bit_simps)
  show "bit (rtp_second h) 7 = rh_marker h" by (auto simp: rtp_second_bits bit_simps)
qed

lemma small_word_take_bit: "unat w < 2 ^ n \<Longrightarrow> take_bit n w = w"
  for w :: "'a::len word"
proof -
  assume "unat w < 2 ^ n"
  then have "unat (take_bit n w) = unat w"
    by (simp add: unsigned_take_bit_eq take_bit_nat_eq_self)
  then show ?thesis by (rule unsigned_word_eqI)
qed

section \<open>Header extensions\<close>

text \<open>The words that follow the extension's length field.\<close>

definition ext_words_written :: "rtp_header \<Rightarrow> nat" where
  "ext_words_written h =
     (length (header_to_bytes h) - (12 + 4 * length (rh_csrc h)) - 4) div 4"

definition ext_words_announced :: "rtp_header \<Rightarrow> nat" where
  "ext_words_announced h = unat (ext_len_words (rh_exts h))"

lemma mod4_cases:
  obtains (zero) q where "n = 4 * q" | (one) q where "n = 4 * q + 1"
    | (two) q where "n = 4 * q + 2" | (three) q where "n = 4 * q + (3::nat)"
proof -
  have "n = 4 * (n div 4) + n mod 4" by simp
  moreover have "n mod 4 = 0 \<or> n mod 4 = 1 \<or> n mod 4 = 2 \<or> n mod 4 = 3"
    using mod_less_divisor [of 4 n] by linarith
  ultimately have "n = 4 * (n div 4) \<or> n = 4 * (n div 4) + 1 \<or> n = 4 * (n div 4) + 2
    \<or> n = 4 * (n div 4) + 3" by linarith
  then show ?thesis using that by blast
qed

lemma pad4_arith: "n + 2 + (4 - (n + 2) mod 4) mod 4 = 4 * ((n + 5) div 4)"
  for n :: nat
proof (cases n rule: mod4_cases)
  case (zero q)
  have "(4 * q + 2) mod 4 = 2" by presburger
  moreover have "(4 * q + 5) div 4 = q + 1" by presburger
  ultimately have "(4 * q + 2) mod 4 = 2" "(4 * q + 5) div 4 = q + 1" by simp_all
  with zero show ?thesis by simp
next
  case (one q)
  have "(4 * q + 1 + 2) mod 4 = 3" "(4 * q + 1 + 5) div 4 = q + 1" by presburger+
  with one show ?thesis by simp
next
  case (two q)
  have "(4 * q + 2 + 2) mod 4 = 0" "(4 * q + 2 + 5) div 4 = q + 1" by presburger+
  with two show ?thesis by simp
next
  case (three q)
  have "(4 * q + 3 + 2) mod 4 = 1" "(4 * q + 3 + 5) div 4 = q + 2" by presburger+
  with three show ?thesis by simp
qed

lemma ext_words_arith: "(n + 1 + 3) div 4 = (n + 5) div 4 \<longleftrightarrow> n mod 4 \<noteq> 3"
  for n :: nat
proof (cases n rule: mod4_cases)
  case (zero q)
  have "(4 * q + 1 + 3) div 4 = q + 1" "(4 * q + 5) div 4 = q + 1" by presburger+
  moreover have "(4 * q) mod 4 \<noteq> 3" by simp
  with zero show ?thesis by simp
next
  case (one q)
  have "(4 * q + 1 + 1 + 3) div 4 = q + 1" "(4 * q + 1 + 5) div 4 = q + 1"
    "(4 * q + 1) mod 4 \<noteq> 3" by presburger+
  with one show ?thesis by simp
next
  case (two q)
  have "(4 * q + 2 + 1 + 3) div 4 = q + 1" "(4 * q + 2 + 5) div 4 = q + 1"
    "(4 * q + 2) mod 4 \<noteq> 3" by presburger+
  with two show ?thesis by simp
next
  case (three q)
  have "(4 * q + 3 + 1 + 3) div 4 = q + 1" "(4 * q + 3 + 5) div 4 = q + 2"
    "(4 * q + 3) mod 4 = 3" by presburger+
  with three show ?thesis by simp
qed

lemma length_push_ext:
  assumes "length buf mod 4 = 0"
  shows "length (push_ext buf e) = length buf + 4 * ((length (ext_payload e) + 5) div 4)"
proof -
  obtain q where q: "length buf = 4 * q" using assms by (metis mod_0_imp_dvd dvd_def)
  let ?n = "length (ext_payload e)"
  have "(length buf + (?n + 2)) mod 4 = (?n + 2) mod 4"
    unfolding q by (rule mod_mult_self4)
  moreover have "length (push_ext buf e) =
      length buf + (?n + 2) + (4 - (length buf + (?n + 2)) mod 4) mod 4"
    by (simp add: push_ext_def pad4_def)
  ultimately show ?thesis using pad4_arith [of ?n] by simp
qed

lemma length_push_exts:
  "length buf mod 4 = 0 \<Longrightarrow>
   length (foldl push_ext buf es) =
     length buf + 4 * sum_list (map (\<lambda>e. (length (ext_payload e) + 5) div 4) es)"
proof (induction es arbitrary: buf)
  case (Cons e es)
  from Cons.prems have "length (push_ext buf e) mod 4 = 0" by (simp add: length_push_ext)
  from Cons.IH [OF this] Cons.prems show ?case by (simp add: length_push_ext algebra_simps)
qed simp

lemma length_be32s: "length (concat (map be32 cs)) = 4 * length cs"
  by (induction cs) auto

lemma ext_words_written_eq:
  assumes "rh_extension h"
  shows "ext_words_written h = sum_list (map (\<lambda>e. (length (ext_payload e) + 5) div 4) (rh_exts h))"
proof -
  let ?base = "[rtp_first h, rtp_second h] @ be16 (rh_seq h) @ be32 (rh_timestamp h)
    @ be32 (rh_ssrc h) @ concat (map be32 (rh_csrc h)) @ be16 (rh_ext_profile h)
    @ be16 (ext_len_words (rh_exts h))"
  have l: "length ?base = 4 * (4 + length (rh_csrc h))" by (simp add: length_be32s)
  have "header_to_bytes h = foldl push_ext ?base (rh_exts h)"
    using assms by (simp add: header_to_bytes_def)
  moreover have "length ?base mod 4 = 0" unfolding l by simp
  ultimately have "length (header_to_bytes h) = 4 * (4 + length (rh_csrc h)) +
      4 * sum_list (map (\<lambda>e. (length (ext_payload e) + 5) div 4) (rh_exts h))"
    using length_push_exts [of ?base "rh_exts h"] l by simp
  then show ?thesis by (simp add: ext_words_written_def)
qed

lemma ext_sums_le:
  "sum_list (map (\<lambda>e. (length (ext_payload e) + 1 + 3) div 4) es)
   \<le> sum_list (map (\<lambda>e. (length (ext_payload e) + 5) div 4) es)"
  by (induction es) (auto intro!: add_mono div_le_mono)

lemma ext_sums_eq_iff:
  "sum_list (map (\<lambda>e. (length (ext_payload e) + 1 + 3) div 4) es)
     = sum_list (map (\<lambda>e. (length (ext_payload e) + 5) div 4) es)
   \<longleftrightarrow> (\<forall>e\<in>set es. length (ext_payload e) mod 4 \<noteq> 3)"
proof (induction es)
  case (Cons e es)
  have "(length (ext_payload e) + 1 + 3) div 4 \<le> (length (ext_payload e) + 5) div 4"
    by (rule div_le_mono) simp
  moreover note ext_sums_le [of es]
  ultimately have "sum_list (map (\<lambda>e. (length (ext_payload e) + 1 + 3) div 4) (e # es))
      = sum_list (map (\<lambda>e. (length (ext_payload e) + 5) div 4) (e # es)) \<longleftrightarrow>
    (length (ext_payload e) + 1 + 3) div 4 = (length (ext_payload e) + 5) div 4 \<and>
    sum_list (map (\<lambda>e. (length (ext_payload e) + 1 + 3) div 4) es)
      = sum_list (map (\<lambda>e. (length (ext_payload e) + 5) div 4) es)"
    unfolding list.map sum_list.Cons by linarith
  then show ?case unfolding Cons.IH ext_words_arith by simp
qed simp

lemma announced_iff:
  assumes "rh_extension h" and "ext_words_written h < 2 ^ 16"
  shows "ext_words_announced h = ext_words_written h \<longleftrightarrow>
         (\<forall>e\<in>set (rh_exts h). length (ext_payload e) mod 4 \<noteq> 3)"
proof -
  let ?a = "sum_list (map (\<lambda>e. (length (ext_payload e) + 1 + 3) div 4) (rh_exts h))"
  have w: "ext_words_written h = sum_list (map (\<lambda>e. (length (ext_payload e) + 5) div 4) (rh_exts h))"
    by (rule ext_words_written_eq [OF assms(1)])
  then have "?a < 2 ^ 16" using assms(2) ext_sums_le [of "rh_exts h"] by linarith
  then have "ext_words_announced h = ?a"
    unfolding ext_words_announced_def ext_len_words_def by (simp add: unat_of_nat)
  then show ?thesis unfolding w by (simp only: ext_sums_eq_iff)
qed

text \<open>The length field of the header extension is right exactly when no element's payload
  length is 3 modulo 4: the code reserves one byte of overhead per element in the sum and
  writes two (id and length), so such an element occupies one word more than announced.\<close>

theorem rtp_extension_length:
  assumes "rh_extension h" and "ext_words_written h < 2 ^ 16"
  shows "ext_words_announced h = ext_words_written h \<longleftrightarrow>
         (\<forall>e\<in>set (rh_exts h). length (ext_payload e) mod 4 \<noteq> 3)"
proof -
  show ?thesis by (rule announced_iff [OF assms])
qed

theorem rtp_extension_length_witness:
  "\<exists>h. rh_exts h = [\<lparr>ext_id = 2, ext_payload = [1, 2, 3]\<rparr>] \<and>
       ext_words_announced h \<noteq> ext_words_written h"
proof -
  let ?h = "\<lparr>rh_version = 2, rh_padding = False, rh_extension = True, rh_marker = False,
    rh_payload_type = 96, rh_seq = 1, rh_timestamp = 2, rh_ssrc = 3, rh_csrc = [],
    rh_ext_profile = 0xBEDE, rh_exts = [\<lparr>ext_id = 2, ext_payload = [1, 2, 3]\<rparr>]\<rparr>"
  have "ext_words_written ?h < 2 ^ 16" by (simp add: ext_words_written_eq)
  from rtp_extension_length [OF _ this] show ?thesis by (intro exI [of _ ?h]) simp
qed

section \<open>Reading a header back\<close>

text \<open>Headers whose fields fit their places and whose extension, if there is one, is announced with its
  length.\<close>

definition readable_header :: "rtp_header \<Rightarrow> bool" where
  "readable_header h \<longleftrightarrow>
     rh_version h < 4 \<and> rh_payload_type h < 128 \<and> length (rh_csrc h) < 16 \<and>
     (rh_extension h \<longrightarrow> ext_words_written h < 2 ^ 16 \<and>
        list_all (\<lambda>e. length (ext_payload e) mod 4 \<noteq> 3) (rh_exts h))"

lemma push_exts_append: "\<exists>z. foldl push_ext buf es = buf @ z"
proof (induction es arbitrary: buf)
  case (Cons e es)
  obtain y where "push_ext buf e = buf @ y" by (simp add: push_ext_def pad4_def)
  with Cons [of "push_ext buf e"] show ?case by auto
qed simp

definition fixed_header :: "rtp_header \<Rightarrow> bytes" where
  "fixed_header h = [rtp_first h, rtp_second h] @ be16 (rh_seq h) @ be32 (rh_timestamp h)
     @ be32 (rh_ssrc h) @ concat (map be32 (rh_csrc h))"

text \<open>The header on the wire: the fixed part, and the extension behind its profile and length.\<close>

lemma header_parts:
  assumes "rh_extension h"
  obtains z where "header_to_bytes h = fixed_header h @ be16 (rh_ext_profile h) @ be16 (ext_len_words (rh_exts h)) @ z"
    "length z = 4 * ext_words_written h"
proof -
  let ?base = "fixed_header h @ be16 (rh_ext_profile h) @ be16 (ext_len_words (rh_exts h))"
  obtain z where z: "foldl push_ext ?base (rh_exts h) = ?base @ z" using push_exts_append by blast
  have h: "header_to_bytes h = foldl push_ext ?base (rh_exts h)"
    using assms by (simp add: header_to_bytes_def fixed_header_def)
  have l: "length ?base = 4 * (4 + length (rh_csrc h))" by (simp add: fixed_header_def length_be32s)
  then have "length ?base mod 4 = 0" by simp
  from length_push_exts [OF this, of "rh_exts h"] z have "length z = 4 * ext_words_written h"
    unfolding ext_words_written_eq [OF assms] by simp
  with that h z show thesis by simp
qed

lemma read_fixed_header:
  assumes "rh_version h < 4" "rh_payload_type h < 128" "length (rh_csrc h) < 16"
  shows "read_rtp (fixed_header h @ rest) =
    map_option (\<lambda>(profile, payload). (h\<lparr>rh_ext_profile := profile, rh_exts := []\<rparr>, payload))
      (read_extension (rh_extension h) rest)"
proof -
  let ?n = "length (rh_csrc h)"
  have v: "take_bit 2 (rh_version h) = rh_version h"
    "take_bit 7 (rh_payload_type h) = rh_payload_type h"
    using assms by (auto intro!: small_word_take_bit simp: word_less_nat_alt)
  have "?n < 2 ^ 4" using assms by simp
  then have n: "unat (take_bit 4 (word_of_nat ?n :: u8)) = ?n"
    by (subst small_word_take_bit) (simp_all add: unat_of_nat)
  have whole: "h\<lparr>rh_ext_profile := p, rh_exts := []\<rparr> = \<lparr>rh_version = rh_version h, rh_padding = rh_padding h,
      rh_extension = rh_extension h, rh_marker = rh_marker h, rh_payload_type = rh_payload_type h, rh_seq = rh_seq h,
      rh_timestamp = rh_timestamp h, rh_ssrc = rh_ssrc h, rh_csrc = rh_csrc h, rh_ext_profile = p, rh_exts = []\<rparr>" for p
    by (cases h) simp
  show ?thesis
    unfolding whole
    by (simp add: fixed_header_def be16_def be32_def rtp_first_fields rtp_second_fields v n read_csrcs_be)
qed

lemma read_rtp_header:
  assumes "readable_header h"
  shows "read_rtp (header_to_bytes h @ payload) = Some (as_read h, payload)"
proof (cases "rh_extension h")
  case False
  then have "header_to_bytes h = fixed_header h" by (simp add: header_to_bytes_def fixed_header_def)
  then show ?thesis
    using assms False by (simp add: readable_header_def read_fixed_header as_read_def)
next
  case True
  then obtain z where z: "header_to_bytes h = fixed_header h @ be16 (rh_ext_profile h) @ be16 (ext_len_words (rh_exts h)) @ z"
    "length z = 4 * ext_words_written h" by (rule header_parts)
  have "unat (ext_len_words (rh_exts h)) = ext_words_written h"
    using announced_iff [OF True] assms True by (simp add: readable_header_def list_all_iff ext_words_announced_def)
  then have "read_extension True (be16 (rh_ext_profile h) @ be16 (ext_len_words (rh_exts h)) @ z @ payload) =
      Some (rh_ext_profile h, payload)"
    using z(2) by (simp add: be16_def)
  with assms True z(1) show ?thesis by (simp add: readable_header_def read_fixed_header as_read_def)
qed

text \<open>RTP header round trip: a header with at most 15 contributing sources, and an extension whose
  elements do not meet the miscounted lengths, followed by any payload, is read back field by
  field by an RFC 3550 reader, which is left with exactly the payload.\<close>

theorem rtp_header_roundtrip:
  assumes "readable_header h"
  shows "read_rtp (header_to_bytes h @ payload) = Some (as_read h, payload)"
  by (rule read_rtp_header [OF assms])

theorem rtp_header_roundtrip_witness:
  "\<exists>h. rh_seq h = 12345 \<and> rh_csrc h = [7] \<and> rh_extension h \<and> rh_exts h = [\<lparr>ext_id = 1, ext_payload = [8, 9]\<rparr>] \<and>
       read_rtp (header_to_bytes h @ [1, 2]) = Some (as_read h, [1, 2])"
proof -
  let ?h = "\<lparr>rh_version = 2, rh_padding = False, rh_extension = True, rh_marker = True,
    rh_payload_type = 96, rh_seq = 12345, rh_timestamp = 67890, rh_ssrc = 0xDEADBEEF,
    rh_csrc = [7], rh_ext_profile = 0x1000, rh_exts = [\<lparr>ext_id = 1, ext_payload = [8, 9]\<rparr>]\<rparr>"
  have "readable_header ?h" by (simp add: readable_header_def ext_words_written_eq)
  from rtp_header_roundtrip [OF this, of "[1, 2]"] show ?thesis by (intro exI [of _ ?h]) simp
qed

end
