(* ===== verification/RtspServer.thy ===== *)
theory RtspServer
  imports RtspSession Interleaved
begin

text \<open>
  The RTSP connection task (\<open>handle_connection\<close> and \<open>forward_rtp\<close> of \<open>src/rtsp/server.rs\<close>).
  The socket is the list of the chunks its reads return, an empty one being the end of the
  stream. The stream source is seen through what its \<open>subscribe\<close> answers.
\<close>

section \<open>One request\<close>

datatype source_error = Unavailable string

record source_view =
  src_camera_name :: string
  src_rtsp_path :: string
  src_subscribe :: "source_error + h264_params"

datatype conn_end = Running | SubscribeFailed source_error | NoSubscription | Forward u8 | TornDownByClient

record connection =
  c_session :: rtsp_session
  c_subscription :: "h264_params option"
  c_out :: bytes
  c_end :: conn_end

definition conn_new :: connection where
  "conn_new = \<lparr>c_session = session_new, c_subscription = None, c_out = [], c_end = Running\<rparr>"

definition needs_subscription :: "rtsp_method \<Rightarrow> bool" where
  "needs_subscription m \<longleftrightarrow> m = Describe \<or> m = Setup \<or> m = Play"

definition default_params :: h264_params where
  "default_params = \<lparr>profile_level_id = ''42c01e'', sprop_parameter_sets = [],
     packetization_mode = 1, payload_type = 96\<rparr>"

text \<open>The second half of the loop body, with the subscription settled: answer, write, act.\<close>

definition conn_answer ::
  "source_view \<Rightarrow> string \<Rightarrow> h264_params option \<Rightarrow> connection \<Rightarrow> rtsp_request \<Rightarrow> connection \<times> bool"
where
  "conn_answer src sid sub c req =
     (let h264 = (case sub of None \<Rightarrow> default_params | Some p \<Rightarrow> p);
          ctx = \<lparr>camera_name = src_camera_name src, ctx_h264 = h264,
                 expected_path = src_rtsp_path src, new_session_id = sid\<rparr>;
          (resp, act, s) = session_handle (c_session c) req ctx;
          c1 = c\<lparr>c_session := s, c_subscription := sub,
                 c_out := c_out c @ to_bytes (format_response resp)\<rparr>
      in case act of
           NoAction \<Rightarrow> (c1, True)
         | StartStreaming ch \<Rightarrow>
             (c1\<lparr>c_end := (case sub of None \<Rightarrow> NoSubscription | Some _ \<Rightarrow> Forward ch)\<rparr>, False)
         | Stop \<Rightarrow> (c1\<lparr>c_end := TornDownByClient\<rparr>, False))"

definition conn_request ::
  "source_view \<Rightarrow> string \<Rightarrow> connection \<Rightarrow> rtsp_request \<Rightarrow> connection \<times> bool"
where
  "conn_request src sid c req =
     (if c_subscription c = None \<and> needs_subscription (req_method req) then
        (case src_subscribe src of
           Inl e \<Rightarrow> (c\<lparr>c_end := SubscribeFailed e\<rparr>, False)
         | Inr p \<Rightarrow> conn_answer src sid (Some p) c req)
      else conn_answer src sid (c_subscription c) c req)"

section \<open>The connection\<close>

definition connection_session_id :: "nat \<Rightarrow> string" where
  "connection_session_id n = ''BUDDY3D-'' @ show_nat n"

text \<open>\<open>More\<close>: the client closed the connection between requests (or inside one); \<open>Stopped\<close>: the
  task ended by itself; \<open>Failed\<close>: the parser gave up.\<close>

definition handle_connection ::
  "source_view \<Rightarrow> nat \<Rightarrow> bytes list \<Rightarrow> (connection, request_failure) fed"
where
  "handle_connection src counter reads =
     feed_chunks next_request (conn_request src (connection_session_id counter))
       (More conn_new []) (takeWhile (\<lambda>r. r \<noteq> []) reads)"

text \<open>The specification: the requests handled one after the other.\<close>

fun serve :: "('s \<Rightarrow> 'm \<Rightarrow> 's \<times> bool) \<Rightarrow> 's \<Rightarrow> 'm list \<Rightarrow> ('s, 'e) fed" where
  "serve h s [] = More s []"
| "serve h s (m # ms) = (case h s m of (s', go) \<Rightarrow> if go then serve h s' ms else Stopped s')"

text \<open>A client's request: method, URI, headers, body.\<close>

type_synonym client_request = "rtsp_method \<times> string \<times> (string \<times> string) list \<times> bytes"

fun sent_bytes :: "client_request \<Rightarrow> bytes" where
  "sent_bytes (m, uri, hs, body) = request_bytes m uri hs body"

fun sent_ok :: "client_request \<Rightarrow> bool" where
  "sent_ok (m, uri, hs, body) \<longleftrightarrow> sendable_request m uri hs body"

fun received :: "client_request \<Rightarrow> rtsp_request" where
  "received (m, uri, hs, body) =
     \<lparr>req_method = m, req_uri = uri, req_headers = headers_of hs, req_body = body\<rparr>"

lemma next_request_nil [simp]: "next_request [] = None"
  by (simp add: next_request_def parse_request_def)

lemma handle_connection_feed:
  "handle_connection src n reads =
     feed next_request (conn_request src (connection_session_id n)) conn_new
       (concat (takeWhile (\<lambda>r. r \<noteq> []) reads))"
proof -
  have "feed next_request h s [] = More s []" for h :: "connection \<Rightarrow> rtsp_request \<Rightarrow> connection \<times> bool" and s
    by (simp add: rtsp.feed_unfold)
  then show ?thesis
    unfolding handle_connection_def
    using rtsp.feed_chunks_concat [of "conn_request src (connection_session_id n)" conn_new "[]"] by simp
qed

lemma next_request_sent:
  "sent_ok r \<Longrightarrow> next_request (sent_bytes r @ rest) = Some (Inr (received r, length (sent_bytes r)))"
  by (cases r) (simp add: next_request_def parse_request_sent)

lemma feed_sent:
  "\<forall>r\<in>set rs. sent_ok r \<Longrightarrow>
   feed next_request h s (concat (map sent_bytes rs)) = serve h s (map received rs)"
proof (induction rs arbitrary: s)
  case Nil
  show ?case by (simp add: rtsp.feed_unfold)
next
  case (Cons r rs)
  let ?rest = "concat (map sent_bytes rs)"
  have "feed next_request h s (sent_bytes r @ ?rest) =
      (case h s (received r) of (s', go) \<Rightarrow> if go then feed next_request h s' ?rest else Stopped s')"
    using Cons.prems by (simp add: rtsp.feed_unfold [of h s "sent_bytes r @ ?rest"] next_request_sent
        split: prod.split)
  with Cons show ?case by (simp split: prod.split)
qed

text \<open>A source that answers every subscription with an error.\<close>

definition closed_source :: source_view where
  "closed_source = \<lparr>src_camera_name = ''cam'', src_rtsp_path = ''/live'', src_subscribe = Inl (Unavailable ''down'')\<rparr>"

text \<open>C3. The connection task does what its requests say, however the network cuts them: for any
  pipelined sequence of well-formed requests and any way the reads chop up their bytes, the
  task behaves as if it had been handed the requests one by one, in order; all answers, the
  session state, the subscription and the way the connection ends are the same.\<close>

theorem connection_serves_requests:
  assumes "\<forall>r\<in>set rs. sent_ok r"
    and "concat (takeWhile (\<lambda>x. x \<noteq> []) reads) = concat (map sent_bytes rs)"
  shows "handle_connection src n reads =
         serve (conn_request src (connection_session_id n)) conn_new (map received rs)"
  unfolding handle_connection_feed assms(2) by (rule feed_sent [OF assms(1)])

theorem connection_serves_requests_witness:
  "handle_connection closed_source 4 [take 10 (request_bytes Options ''*'' [] []),
      drop 10 (request_bytes Options ''*'' [] []) @ request_bytes Options ''*'' [(''CSeq'', ''2'')] [], []] =
   serve (conn_request closed_source (connection_session_id 4)) conn_new
     [received (Options, ''*'', [], []), received (Options, ''*'', [(''CSeq'', ''2'')], [])]"
proof -
  let ?a = "(Options, ''*'', [], []) :: client_request"
  let ?b = "(Options, ''*'', [(''CSeq'', ''2'')], []) :: client_request"
  have l: "length (request_bytes Options ''*'' [] []) = 22"
    "length (request_bytes Options ''*'' [(''CSeq'', ''2'')] []) = 31" by code_simp+
  have h: "\<forall>h\<in>set [(''CSeq'', ''2'')]. sendable_header h" by code_simp
  have u: "\<forall>c\<in>set ''*''. solid c" by code_simp
  have "headers_of [] ''content-length'' = None" "headers_of [(''CSeq'', ''2'')] ''content-length'' = None"
    by code_simp+
  with l h u have ok: "\<forall>r\<in>set [?a, ?b]. sent_ok r" by (simp add: sendable_request_def)
  have "take 10 (request_bytes Options ''*'' [] []) \<noteq> []" "request_bytes Options ''*'' [(''CSeq'', ''2'')] [] \<noteq> []"
    using l by auto
  then have "concat (takeWhile (\<lambda>x. x \<noteq> []) [take 10 (request_bytes Options ''*'' [] []),
      drop 10 (request_bytes Options ''*'' [] []) @ request_bytes Options ''*'' [(''CSeq'', ''2'')] [], []]) =
    concat (map sent_bytes [?a, ?b])" by simp
  from connection_serves_requests [OF ok this, of closed_source 4] show ?thesis by simp
qed

section \<open>Forwarding RTP\<close>

datatype forward_event =
    Packet rtp_header bytes   \<comment> \<open>a packet from the broadcast channel\<close>
  | Lagged nat                \<comment> \<open>the receiver fell behind\<close>
  | Closed                    \<comment> \<open>the channel is gone\<close>
  | ClientData                \<comment> \<open>bytes from the client, discarded\<close>
  | ClientGone                \<comment> \<open>end of file or a read error\<close>

text \<open>What is written to the stream, and whether the function has returned.\<close>

fun forward_rtp :: "u8 \<Rightarrow> bytes \<Rightarrow> forward_event list \<Rightarrow> (bytes \<times> bool) outcome" where
  "forward_rtp channel out [] = Ret (out, False)"
| "forward_rtp channel out (Packet h p # es) =
     obind (encode_frame [] channel (header_to_bytes h @ p)) (\<lambda>frame.
       forward_rtp channel (out @ frame) es)"
| "forward_rtp channel out (Lagged n # es) = forward_rtp channel out es"
| "forward_rtp channel out (Closed # es) = Ret (out, True)"
| "forward_rtp channel out (ClientData # es) = forward_rtp channel out es"
| "forward_rtp channel out (ClientGone # es) = Ret (out, True)"

fun forwarded :: "forward_event list \<Rightarrow> (rtp_header \<times> bytes) list" where
  "forwarded [] = []"
| "forwarded (Packet h p # es) = (h, p) # forwarded es"
| "forwarded (Closed # es) = []"
| "forwarded (ClientGone # es) = []"
| "forwarded (_ # es) = forwarded es"

definition packet_fits :: "rtp_header \<times> bytes \<Rightarrow> bool" where
  "packet_fits hp \<longleftrightarrow> readable_header (fst hp) \<and> length (header_to_bytes (fst hp)) + length (snd hp) \<le> max_frame_payload"

text \<open>The packet as its reader sees it.\<close>

definition seen_packet :: "rtp_header \<times> bytes \<Rightarrow> rtp_header \<times> bytes" where
  "seen_packet hp = (as_read (fst hp), snd hp)"

definition on_wire :: "u8 \<Rightarrow> rtp_header \<times> bytes \<Rightarrow> u8 \<times> bytes" where
  "on_wire ch hp = (ch, header_to_bytes (fst hp) @ snd hp)"

lemma forward_rtp_frames:
  "\<forall>hp\<in>set (forwarded es). fits_frame (on_wire ch hp) \<Longrightarrow>
   \<exists>fin. forward_rtp ch out es = Ret (out @ concat (map (frame_bytes \<circ> on_wire ch) (forwarded es)), fin)"
proof (induction ch out es rule: forward_rtp.induct)
  case (2 channel out h p es)
  have "encode_frame [] channel (header_to_bytes h @ p) = Ret (frame_bytes (on_wire channel (h, p)))"
    using 2 encode_frame_append [of channel "header_to_bytes h @ p" "[]"] by (simp add: on_wire_def)
  with 2 show ?case by simp
qed auto

lemma forward_reads_back:
  assumes "\<forall>hp\<in>set (forwarded es). packet_fits hp"
  shows "\<exists>out fin fs. forward_rtp ch [] es = Ret (out, fin) \<and>
           decode_all decode_frame (length (forwarded es)) out = Some fs \<and>
           map fst fs = replicate (length (forwarded es)) ch \<and>
           map (read_rtp \<circ> snd) fs = map (Some \<circ> seen_packet) (forwarded es)"
proof -
  let ?fs = "map (on_wire ch) (forwarded es)"
  have fit: "\<forall>f\<in>set ?fs. fits_frame f"
    using assms by (auto simp: packet_fits_def fits_frame_def on_wire_def)
  obtain fin where "forward_rtp ch [] es = Ret (concat (map frame_bytes ?fs), fin)"
    using forward_rtp_frames [of es ch "[]"] fit by auto
  moreover have "decode_all decode_frame (length (forwarded es)) (concat (map frame_bytes ?fs)) = Some ?fs"
    by (rule frames.decode_all_enc [OF fit]) simp
  moreover have "map fst ?fs = replicate (length (forwarded es)) ch"
    by (simp add: on_wire_def o_def map_replicate_const)
  moreover have "map (read_rtp \<circ> snd) ?fs = map (Some \<circ> seen_packet) (forwarded es)"
    using assms by (auto simp: on_wire_def packet_fits_def read_rtp_header seen_packet_def)
  ultimately show ?thesis by blast
qed

text \<open>The viewer gets the camera's packets: for any mix of packets, lag reports and client
  bytes, what is written to the socket is a sequence of interleaved frames on the negotiated
  channel, and an RTP reader finds in them exactly the packets of the broadcast channel, header
  by header (the elements of an extension are skipped) and payload by payload, in order, up to
  the point where the stream or the client ends.\<close>

theorem forward_exact:
  assumes "\<forall>hp\<in>set (forwarded es). packet_fits hp"
  shows "\<exists>out fin fs. forward_rtp ch [] es = Ret (out, fin) \<and>
           decode_all decode_frame (length (forwarded es)) out = Some fs \<and>
           map fst fs = replicate (length (forwarded es)) ch \<and>
           map (read_rtp \<circ> snd) fs = map (Some \<circ> seen_packet) (forwarded es)"
  by (rule forward_reads_back [OF assms])

theorem forward_exact_witness:
  "\<exists>h out fin fs. rh_seq h = 65535 \<and> forward_rtp 2 [] [Packet h [1, 2], Lagged 3, ClientData, ClientGone, Packet h []] = Ret (out, fin) \<and>
     decode_all decode_frame 1 out = Some fs \<and> map (read_rtp \<circ> snd) fs = [Some (h, [1, 2])]"
proof -
  let ?h = "\<lparr>rh_version = 2, rh_padding = False, rh_extension = False, rh_marker = True,
    rh_payload_type = 96, rh_seq = 65535, rh_timestamp = 67890, rh_ssrc = 0xDEADBEEF,
    rh_csrc = [], rh_ext_profile = 0, rh_exts = []\<rparr>"
  have "\<forall>hp\<in>set (forwarded [Packet ?h [1, 2], Lagged 3, ClientData, ClientGone, Packet ?h []]). packet_fits hp"
    by (simp add: packet_fits_def readable_header_def max_frame_payload_def header_to_bytes_def)
  from forward_exact [OF this, of 2] obtain out fin fs where
    "forward_rtp 2 [] [Packet ?h [1, 2], Lagged 3, ClientData, ClientGone, Packet ?h []] = Ret (out, fin)"
    "decode_all decode_frame 1 out = Some fs" "map (read_rtp \<circ> snd) fs = [Some (?h, [1, 2])]"
    by (auto simp: seen_packet_def as_read_def simp del: forward_rtp.simps)
  then show ?thesis by (intro exI [of _ ?h]) auto
qed

end
