(* ===== verification/RtspAnswers.thy ===== *)
theory RtspAnswers
  imports RtspServer
begin

text \<open>
  What a client reads from the RTSP connection: a reader for responses, the round trip of
  \<open>Response::format\<close> (\<open>src/rtsp/message.rs\<close>), and the well-formedness of everything that
  \<open>handle_connection\<close> (\<open>src/rtsp/server.rs\<close>) writes before it starts to stream.
\<close>

section \<open>Lines\<close>

text \<open>A text without the pair CR LF; a lone CR or LF is allowed.\<close>

fun no_crlf :: "string \<Rightarrow> bool" where
  "no_crlf (x # y # s) \<longleftrightarrow> \<not> (x = CR \<and> y = LF) \<and> no_crlf (y # s)"
| "no_crlf s \<longleftrightarrow> True"

lemma no_crlf_Cons: "x \<noteq> CR \<Longrightarrow> no_crlf (x # s) = no_crlf s"
  by (cases s) simp_all

lemma no_crlf_append: "CR \<notin> set a \<Longrightarrow> no_crlf (a @ b) = no_crlf b"
  by (induction a) (auto simp: no_crlf_Cons)

lemma no_crlf_free: "CR \<notin> set a \<Longrightarrow> no_crlf a"
  using no_crlf_append [of a "[]"] by simp

lemma no_crlf_tl: "no_crlf (x # s) \<Longrightarrow> no_crlf s"
  by (cases s) auto

lemma no_crlf_take: "no_crlf (b @ c) \<Longrightarrow> no_crlf b"
  by (induction b rule: no_crlf.induct) auto

lemma no_crlf_infix: "no_crlf (a @ b @ c) \<Longrightarrow> no_crlf b"
  by (induction a) (simp add: no_crlf_take, metis append_Cons no_crlf_tl)

lemma find_crlf: "no_crlf l \<Longrightarrow> find_sub crlf (l @ CR # LF # s) = Some (length l)"
  by (induction l rule: no_crlf.induct) auto

lemma split_str2_head:
  "split_str2 a b (y # s) = p # ps \<Longrightarrow> p = [] \<or> hd p = y"
  by (cases s) (auto split: if_splits list.splits)

lemma split_str2_no_crlf: "l \<in> set (split_str2 CR LF s) \<Longrightarrow> no_crlf l"
proof (induction CR LF s arbitrary: l rule: split_str2.induct)
  case (1 x y s)
  show ?case
  proof (cases "x = CR \<and> y = LF")
    case False
    obtain p ps where p: "split_str2 CR LF (y # s) = p # ps"
      by (cases "split_str2 CR LF (y # s)") auto
    with 1(2) False have ok: "\<And>q. q \<in> set (p # ps) \<Longrightarrow> no_crlf q" by metis
    have "no_crlf (x # p)"
      using ok [of p] False split_str2_head [OF p] by (cases p) auto
    with ok 1(3) False p show ?thesis by auto
  qed (use 1 in auto)
qed auto

section \<open>Reading a response\<close>

text \<open>The lines up to the empty one, and what follows it.\<close>

function read_head :: "string \<Rightarrow> (string list \<times> string) option" where
  "read_head s =
     (case find_sub crlf s of
        None \<Rightarrow> None
      | Some i \<Rightarrow>
          if i = 0 then Some ([], drop 2 s)
          else map_option (\<lambda>(ls, rest). (take i s # ls, rest)) (read_head (drop (i + 2) s)))"
  by pat_completeness auto
termination
  by (relation "measure length") (auto dest: find_sub_bound)

declare read_head.simps [simp del]

lemma read_head_lines:
  "\<forall>l\<in>set ls. l \<noteq> [] \<and> no_crlf l \<Longrightarrow>
   read_head (concat (map (\<lambda>l. l @ crlf) ls) @ crlf @ s) = Some (ls, s)"
proof (induction ls)
  case Nil
  show ?case by (simp add: read_head.simps [of "CR # LF # s"])
next
  case (Cons l ls)
  let ?s = "concat (map (\<lambda>l. l @ crlf) ls) @ crlf @ s"
  have "find_sub crlf (l @ CR # LF # ?s) = Some (length l)" by (rule find_crlf) (use Cons in simp)
  moreover have "read_head ?s = Some (ls, s)" by (rule Cons.IH) (use Cons.prems in simp)
  moreover have "l \<noteq> []" using Cons.prems by simp
  ultimately have "read_head (l @ CR # LF # ?s) = Some (l # ls, s)"
    by (subst read_head.simps) simp
  then show ?case by simp
qed

definition read_header :: "string \<Rightarrow> (string \<times> string) option" where
  "read_header l = Option.bind (split_once (CHR '':'') l) (\<lambda>(name, v). map_option (Pair name) (strip_prefix '' '' v))"

fun read_headers :: "string list \<Rightarrow> (string \<times> string) list option" where
  "read_headers [] = Some []"
| "read_headers (l # ls) = Option.bind (read_header l) (\<lambda>h. map_option ((#) h) (read_headers ls))"

definition read_status :: "string \<Rightarrow> (u16 \<times> string) option" where
  "read_status l =
     Option.bind (strip_prefix ''RTSP/1.0 '' l) (\<lambda>t.
     Option.bind (split_once (CHR '' '') t) (\<lambda>(code, why).
       map_option (\<lambda>n. (word_of_nat n, why)) (parse_uint u16_max code)))"

definition read_cseq :: "string \<Rightarrow> u32 option" where
  "read_cseq l = Option.bind (strip_prefix ''CSeq: '' l) (\<lambda>t. map_option word_of_nat (parse_uint u32_max t))"

text \<open>The length of the body, when the first header after \<open>CSeq\<close> announces one that has arrived.\<close>

fun body_headers :: "(string \<times> string) list \<Rightarrow> string \<Rightarrow> (nat option \<times> (string \<times> string) list) option" where
  "body_headers [] rest = Some (None, [])"
| "body_headers ((name, v) # hs) rest =
     (if name = ''Content-Length'' then map_option (\<lambda>n. (Some n, hs)) (parse_uint (length rest) v)
      else Some (None, (name, v) # hs))"

definition read_response :: "string \<Rightarrow> (rtsp_response \<times> string) option" where
  "read_response s =
     (case read_head s of
        Some (start # cs # hs, rest) \<Rightarrow>
          Option.bind (read_status start) (\<lambda>(code, why).
          Option.bind (read_cseq cs) (\<lambda>seq.
          Option.bind (Option.bind (read_headers hs) (\<lambda>hs. body_headers hs rest)) (\<lambda>(n, hs).
            Some (\<lparr>status = code, reason = why, resp_cseq = seq, resp_headers = hs,
                   resp_body = map_option (\<lambda>n. take n rest) n\<rparr>,
                  (case n of None \<Rightarrow> rest | Some n \<Rightarrow> drop n rest)))))
      | _ \<Rightarrow> None)"

definition decode_response :: "bytes \<Rightarrow> (rtsp_response \<times> bytes) option" where
  "decode_response b = map_option (\<lambda>(r, rest). (r, to_bytes rest)) (read_response (of_bytes b))"

text \<open>Responses whose fields cannot be taken for framing.\<close>

definition header_ok :: "string \<times> string \<Rightarrow> bool" where
  "header_ok h \<longleftrightarrow> CHR '':'' \<notin> set (fst h) \<and> CR \<notin> set (fst h) \<and> fst h \<noteq> ''Content-Length'' \<and> no_crlf (snd h)"

definition response_ok :: "rtsp_response \<Rightarrow> bool" where
  "response_ok r \<longleftrightarrow> no_crlf (reason r) \<and> (\<forall>h\<in>set (resp_headers r). header_ok h)"

section \<open>The round trip of a response\<close>

definition response_lines :: "rtsp_response \<Rightarrow> string list" where
  "response_lines r =
     (''RTSP/1.0 '' @ show_nat (unat (status r)) @ '' '' @ reason r)
     # (''CSeq: '' @ show_nat (unat (resp_cseq r)))
     # (case resp_body r of None \<Rightarrow> [] | Some b \<Rightarrow> [''Content-Length: '' @ show_nat (length b)])
     @ map header_line (resp_headers r)"

lemma format_lines:
  "format_response r = concat (map (\<lambda>l. l @ crlf) (response_lines r)) @ crlf
     @ (case resp_body r of None \<Rightarrow> [] | Some b \<Rightarrow> b)"
  by (simp add: format_response_def response_lines_def header_line_def comp_def case_prod_unfold
      split: option.split)

lemma no_crlf_nat [simp]: "CR \<notin> set (show_nat n)" "no_crlf (show_nat n)"
proof -
  show "CR \<notin> set (show_nat n)" using show_nat_digits [of CR n] by (auto simp: is_ascii_digit_def)
  then show "no_crlf (show_nat n)" by (rule no_crlf_free)
qed

lemma lines_ok:
  assumes "response_ok r"
  shows "\<forall>l\<in>set (response_lines r). l \<noteq> [] \<and> no_crlf l"
proof -
  have "no_crlf (header_line h)" if "h \<in> set (resp_headers r)" for h
    using assms that
    by (auto simp: response_ok_def header_ok_def header_line_def no_crlf_append no_crlf_Cons)
  moreover have "no_crlf (show_nat n @ CHR '' '' # reason r)" for n
    using assms by (simp add: response_ok_def no_crlf_append no_crlf_Cons)
  ultimately show ?thesis
    by (auto simp: response_lines_def no_crlf_Cons header_line_def split: option.split)
qed

lemma read_headers_lines:
  "\<forall>h\<in>set hs. header_ok h \<Longrightarrow> read_headers (map header_line hs) = Some hs"
proof (induction hs)
  case (Cons h hs)
  have "read_header (header_line h) = Some h"
    using Cons.prems strip_prefix_append [of "'' ''" "snd h"]
    by (simp add: read_header_def header_line_def header_ok_def split_once_append)
  with Cons show ?case by simp
qed simp

lemma read_status_line: "read_status (''RTSP/1.0 '' @ show_nat (unat (c :: u16)) @ '' '' @ why) = Some (c, why)"
proof -
  have "unat c < 2 ^ LENGTH(16)" by (rule unsigned_less)
  then have "parse_uint u16_max (show_nat (unat c)) = Some (unat c)" by (intro parse_show) simp
  moreover have "CHR '' '' \<notin> set (show_nat (unat c))"
    using show_nat_digits [of "CHR '' ''"] by (auto simp: is_ascii_digit_def)
  moreover have "strip_prefix ''RTSP/1.0 '' (''RTSP/1.0 '' @ show_nat (unat c) @ '' '' @ why) =
      Some (show_nat (unat c) @ CHR '' '' # why)"
    unfolding strip_prefix_append by simp
  ultimately show ?thesis by (simp add: read_status_def split_once_append)
qed

lemma read_cseq_line: "read_cseq (''CSeq: '' @ show_nat (unat (n :: u32))) = Some n"
proof -
  have "unat n < 2 ^ LENGTH(32)" by (rule unsigned_less)
  then have "parse_uint u32_max (show_nat (unat n)) = Some (unat n)" by (intro parse_show) simp
  then show ?thesis by (simp add: read_cseq_def)
qed

lemma read_format:
  assumes "response_ok r"
  shows "read_response (format_response r @ rest) = Some (r, rest)"
proof -
  let ?b = "case resp_body r of None \<Rightarrow> [] | Some b \<Rightarrow> b"
  have head: "read_head (format_response r @ rest) = Some (response_lines r, ?b @ rest)"
    using read_head_lines [OF lines_ok [OF assms], of "?b @ rest"] by (simp add: format_lines)
  have hs: "read_headers (map header_line (resp_headers r)) = Some (resp_headers r)"
    by (rule read_headers_lines) (use assms in \<open>simp add: response_ok_def\<close>)
  show ?thesis
  proof (cases "resp_body r")
    case None
    have "body_headers (resp_headers r) rest = Some (None, resp_headers r)"
      using assms by (cases "resp_headers r") (auto simp: response_ok_def header_ok_def)
    with None head hs show ?thesis
      unfolding read_response_def response_lines_def
      by (simp add: read_status_line [simplified] read_cseq_line [simplified])
  next
    case (Some b)
    have "read_header (''Content-Length: '' @ show_nat (length b)) = Some (''Content-Length'', show_nat (length b))"
      using split_once_append [of "CHR '':''" "''Content-Length''" "CHR '' '' # show_nat (length b)"]
        strip_prefix_append [of "'' ''" "show_nat (length b)"]
      by (simp add: read_header_def)
    with Some head hs show ?thesis
      unfolding read_response_def response_lines_def
      by (simp add: read_status_line [simplified] read_cseq_line [simplified])
  qed
qed

interpretation answers: stream_codec "\<lambda>r. to_bytes (format_response r)" decode_response response_ok
proof unfold_locales
  fix r rest assume ok: "response_ok r"
  have "of_bytes (to_bytes (format_response r) @ rest) = format_response r @ of_bytes rest"
    by (simp add: of_bytes_def to_bytes_def comp_def)
  then show "decode_response (to_bytes (format_response r) @ rest) = Some (r, rest)"
    using read_format [OF ok] by (simp add: decode_response_def)
next
  fix r show "to_bytes (format_response r) \<noteq> []"
    by (simp add: format_response_def to_bytes_def)
qed

section \<open>What the connection writes\<close>

lemma parsed_uri:
  assumes "parse_request buf = Ret (Inr (req, n))"
  shows "no_crlf (req_uri req)"
proof -
  obtain idx m where l: "parse_request_line (hd (split_str2 CR LF (of_bytes (take idx buf)))) = Inr (m, req_uri req)"
    using assms by (auto simp: parse_request_def Let_def rbind_Inr_iff split: option.splits if_splits sum.splits)
  let ?line = "hd (split_str2 CR LF (of_bytes (take idx buf)))"
  have "\<exists>v. ?line = m @ CHR '' '' # req_uri req @ CHR '' '' # v"
    using l by (auto simp: parse_request_line_def numeral_3_eq_3 split: option.splits list.splits
        dest!: split_once_Some)
  then obtain v where v: "?line = (m @ '' '') @ req_uri req @ (CHR '' '' # v)" by auto
  have "no_crlf ?line" by (rule split_str2_no_crlf) (rule hd_in_set, simp)
  then show ?thesis unfolding v by (rule no_crlf_infix)
qed

definition session_id_ok :: "rtsp_session \<Rightarrow> bool" where
  "session_id_ok s \<longleftrightarrow> (\<forall>sid. session_id s = Some sid \<longrightarrow> no_crlf sid)"

definition answer_ok :: "rtsp_response \<Rightarrow> bool" where
  "answer_ok r \<longleftrightarrow> response_ok r \<and> status r \<in> {200, 400, 404, 455, 461, 501}"

lemma answer_ok_simps [simp]:
  "answer_ok (resp_ok q)"
  "answer_ok (resp_error st why q) \<longleftrightarrow> no_crlf why \<and> st \<in> {200, 400, 404, 455, 461, 501}"
  "answer_ok (with_header k v r) \<longleftrightarrow> answer_ok r \<and> header_ok (k, v)"
  "answer_ok (with_body ty b r) \<longleftrightarrow> answer_ok r \<and> header_ok (''Content-Type'', ty)"
  by (auto simp: answer_ok_def response_ok_def resp_defs)

lemma handle_answer_ok:
  assumes h: "session_handle s req ctx = (resp, act, s')"
    and "no_crlf (req_uri req)" "no_crlf (new_session_id ctx)"
    and "session_id_ok s" "rs_state s = SetUp \<longrightarrow> session_id s \<noteq> None"
  shows "answer_ok resp \<and> session_id_ok s' \<and> (rs_state s' = SetUp \<longrightarrow> session_id s' \<noteq> None)"
proof -
  have tr: "no_crlf (''RTP/AVP/TCP;unicast;interleaved='' @ show_u8 a @ ''-'' @ show_u8 b)" for a b
    by (simp add: show_u8_def no_crlf_append no_crlf_Cons)
  have pub: "no_crlf ''OPTIONS, DESCRIBE, SETUP, PLAY, TEARDOWN, GET_PARAMETER''" by code_simp
  obtain q where q: "(case req_cseq req of None \<Rightarrow> 0 | Some n \<Rightarrow> n) = q" by simp
  show ?thesis
    using assms(2-) h unfolding session_handle_def Let_def q
    by (cases "req_method req")
       (auto simp: tr pub header_ok_def session_id_ok_def simp del: append_Cons append.simps
          split: if_splits option.splits)
qed

definition conn_ok :: "connection \<Rightarrow> bool" where
  "conn_ok c \<longleftrightarrow>
     (\<exists>rs. c_out c = concat (map (\<lambda>r. to_bytes (format_response r)) rs) \<and> (\<forall>r\<in>set rs. answer_ok r)) \<and>
     session_id_ok (c_session c) \<and> (rs_state (c_session c) = SetUp \<longrightarrow> session_id (c_session c) \<noteq> None)"

lemma connection_sid_ok: "no_crlf (connection_session_id n)"
  by (simp add: connection_session_id_def no_crlf_Cons)

lemma conn_answer_ok:
  assumes "conn_ok c" "no_crlf (req_uri req)" "conn_answer src (connection_session_id n) sub c req = (c', go)"
  shows "conn_ok c'"
proof -
  define ctx where "ctx = \<lparr>camera_name = src_camera_name src,
      ctx_h264 = (case sub of None \<Rightarrow> default_params | Some p \<Rightarrow> p),
      expected_path = src_rtsp_path src, new_session_id = connection_session_id n\<rparr>"
  obtain resp act s where h: "session_handle (c_session c) req ctx = (resp, act, s)"
    by (cases "session_handle (c_session c) req ctx") auto
  have ok: "answer_ok resp \<and> session_id_ok s \<and> (rs_state s = SetUp \<longrightarrow> session_id s \<noteq> None)"
    by (rule handle_answer_ok [OF h assms(2)])
      (use assms(1) connection_sid_ok in \<open>simp_all add: conn_ok_def ctx_def\<close>)
  have c': "c_out c' = c_out c @ to_bytes (format_response resp) \<and> c_session c' = s"
    using assms(3) h by (auto simp: conn_answer_def ctx_def [symmetric] Let_def split: session_action.splits)
  from assms(1) obtain rs where rs: "c_out c = concat (map (\<lambda>r. to_bytes (format_response r)) rs)"
    "\<forall>r\<in>set rs. answer_ok r" by (auto simp: conn_ok_def)
  with c' ok have "c_out c' = concat (map (\<lambda>r. to_bytes (format_response r)) (rs @ [resp])) \<and>
      (\<forall>r\<in>set (rs @ [resp]). answer_ok r)" by auto
  with c' ok show ?thesis unfolding conn_ok_def by blast
qed

lemma conn_request_ok:
  assumes "conn_ok c" "no_crlf (req_uri req)" "conn_request src (connection_session_id n) c req = (c', go)"
  shows "conn_ok c'"
  using assms conn_answer_ok [OF assms(1,2)]
  by (auto simp: conn_request_def conn_ok_def split: if_splits sum.splits)

text \<open>C16. Whatever bytes a client sends, and however they arrive, what the server writes back before
  it streams is a sequence of well-formed responses for a reader that takes CR LF, and nothing
  else, as the end of a line (as the server's own parser does): with the framing of RTSP (lines,
  \<open>Content-Length\<close>) it reads all of it, response by response, each with one of the six status
  codes the session uses. (The URI is echoed in a header as it came, so a reader that takes a lone
  LF as the end of a line too can be misled: \<open>uri_echoed_raw\<close>.)\<close>

theorem answers_well_formed:
  "\<exists>rs. decode_all decode_response (length rs) (c_out (fed_state (handle_connection src n reads))) = Some rs \<and>
        list_all (\<lambda>r. status r \<in> {200, 400, 404, 455, 461, 501}) rs"
proof -
  have "conn_ok (fed_state (handle_connection src n reads))"
    unfolding handle_connection_feed
  proof (rule rtsp.feed_invariant)
    show "conn_ok conn_new"
      by (auto simp: conn_ok_def conn_new_def session_new_def session_id_ok_def intro: exI [of _ "[]"])
  next
    fix c req k b c' go
    assume c: "conn_ok c" and r: "next_request b = Some (Inr (req, k))"
      and h: "conn_request src (connection_session_id n) c req = (c', go)"
    from r have "parse_request b = Ret (Inr (req, k))"
      by (auto simp: next_request_def split: outcome.splits sum.splits parse_error.splits)
    from conn_request_ok [OF c parsed_uri [OF this] h] show "conn_ok c'" .
  qed
  then obtain rs where rs: "c_out (fed_state (handle_connection src n reads)) =
      concat (map (\<lambda>r. to_bytes (format_response r)) rs)" "\<forall>r\<in>set rs. answer_ok r"
    by (auto simp: conn_ok_def)
  have "decode_all decode_response (length rs) (concat (map (\<lambda>r. to_bytes (format_response r)) rs)) = Some rs"
    by (rule answers.decode_all_enc) (use rs(2) in \<open>simp_all add: answer_ok_def\<close>)
  with rs show ?thesis by (auto simp: answer_ok_def list_all_iff)
qed

section \<open>The echoed URI\<close>

text \<open>A URI with lone line feeds is accepted, matches the camera's path and is written into
  \<open>Content-Base\<close> as it is. There is no CR LF in it, but a receiver that accepts LF alone as the end
  of a line (RFC 2326, section 4) would find the end of the response inside of it.\<close>

definition split_uri :: string where
  "split_uri = ''rtsp://h/cam/'' @ [LF] @ ''Content-Length:0'' @ [LF, LF]"

lemma uri_echoed_raw:
  assumes "req_method req = Describe" "req_uri req = split_uri" "expected_path ctx = ''cam''"
  shows "parse_request_line (''DESCRIBE '' @ split_uri @ '' RTSP/1.0'') = Inr (''DESCRIBE'', split_uri) \<and>
         no_crlf (''DESCRIBE '' @ split_uri @ '' RTSP/1.0'') \<and>
         (\<exists>resp s'. session_handle s req ctx = (resp, NoAction, s') \<and> status resp = 200 \<and>
            (''Content-Base'', split_uri) \<in> set (resp_headers resp))"
proof (intro conjI)
  show "parse_request_line (''DESCRIBE '' @ split_uri @ '' RTSP/1.0'') = Inr (''DESCRIBE'', split_uri)"
    "no_crlf (''DESCRIBE '' @ split_uri @ '' RTSP/1.0'')" by code_simp+
  have "uri_matches split_uri ''cam''" by code_simp
  then show "\<exists>resp s'. session_handle s req ctx = (resp, NoAction, s') \<and> status resp = 200 \<and>
      (''Content-Base'', split_uri) \<in> set (resp_headers resp)"
    using assms by (simp add: session_handle_def resp_defs Let_def)
qed

end
