(* ===== verification/RtspListener.thy ===== *)
theory RtspListener
  imports RtspServer
begin

text \<open>
  The accept loop of \<open>Server::start\<close> (\<open>src/rtsp/server.rs\<close>) and the session numbers of its
  connections. A connection task is spawned on accept and takes its number from the shared
  counter when it first runs, so numbers are given in the order in which the tasks start.
\<close>

record listener =
  ls_counter :: u64
  ls_waiting :: nat          \<comment> \<open>connection tasks spawned and not yet started\<close>
  ls_ids :: "string list"    \<comment> \<open>the session ids taken, oldest first\<close>
  ls_accepting :: bool

datatype listener_event = Accepted | AcceptFailed | TaskStarts | HandleDropped

definition listener_new :: listener where
  "listener_new = \<lparr>ls_counter = 0, ls_waiting = 0, ls_ids = [], ls_accepting = True\<rparr>"

fun listener_step :: "listener \<Rightarrow> listener_event \<Rightarrow> listener" where
  "listener_step l Accepted = (if ls_accepting l then l\<lparr>ls_waiting := ls_waiting l + 1\<rparr> else l)"
| "listener_step l AcceptFailed = l"
| "listener_step l TaskStarts =
     (if ls_waiting l = 0 then l
      else l\<lparr>ls_waiting := ls_waiting l - 1, ls_counter := ls_counter l + 1,
             ls_ids := ls_ids l @ [connection_session_id (unat (ls_counter l))]\<rparr>)"
| "listener_step l HandleDropped = l\<lparr>ls_accepting := False\<rparr>"

section \<open>Properties\<close>

text \<open>The connections accepted: those that arrive before the handle is dropped.\<close>

definition accepted :: "listener_event list \<Rightarrow> nat" where
  "accepted es = count_list (takeWhile (\<lambda>e. e \<noteq> HandleDropped) es) Accepted"

definition listener_ok :: "listener \<Rightarrow> bool" where
  "listener_ok l \<longleftrightarrow> ls_counter l = of_nat (length (ls_ids l)) \<and>
     ls_ids l = map (\<lambda>n. connection_session_id (n mod 2 ^ 64)) [0..<length (ls_ids l)]"

lemma listener_step_ok [inv_intros]: "listener_ok l \<Longrightarrow> listener_ok (listener_step l e)"
proof (cases e)
  case TaskStarts
  assume ok: "listener_ok l"
  show ?thesis
  proof (cases "ls_waiting l = 0")
    case False
    let ?n = "length (ls_ids l)"
    have "unat (ls_counter l) = ?n mod 2 ^ 64"
      using ok by (simp add: listener_ok_def unsigned_of_nat take_bit_eq_mod)
    with ok False TaskStarts show ?thesis by (auto simp: listener_ok_def)
  qed (use ok TaskStarts in simp)
qed (auto simp: listener_ok_def)

lemma listener_run_ok: "listener_ok (run listener_step listener_new es)"
proof (induction es rule: rev_induct)
  case Nil
  show ?case by (simp add: listener_ok_def listener_new_def)
next
  case (snoc e es)
  then show ?case by (simp add: run_append inv_intros)
qed

lemma listener_closed:
  "\<not> ls_accepting l \<Longrightarrow> \<not> ls_accepting (run listener_step l es) \<and>
   ls_waiting (run listener_step l es) + length (ls_ids (run listener_step l es)) = ls_waiting l + length (ls_ids l)"
proof (induction es arbitrary: l)
  case (Cons e es)
  have "\<not> ls_accepting (listener_step l e)" using Cons.prems by (cases e) auto
  moreover have "ls_waiting (listener_step l e) + length (ls_ids (listener_step l e)) = ls_waiting l + length (ls_ids l)"
    using Cons.prems by (cases e) auto
  ultimately show ?case using Cons.IH [of "listener_step l e"] by simp
qed simp

lemma listener_counts:
  "ls_accepting l \<Longrightarrow>
   ls_waiting (run listener_step l es) + length (ls_ids (run listener_step l es)) =
   ls_waiting l + length (ls_ids l) + accepted es"
proof (induction es arbitrary: l)
  case (Cons e es)
  show ?case
  proof (cases "e = HandleDropped")
    case True
    with listener_closed [of "listener_step l e" es] show ?thesis by (simp add: accepted_def)
  next
    case False
    with Cons.prems have "ls_accepting (listener_step l e)" by (cases e) auto
    moreover have "ls_waiting (listener_step l e) + length (ls_ids (listener_step l e)) =
        ls_waiting l + length (ls_ids l) + (if e = Accepted then 1 else 0)"
      using False Cons.prems by (cases e) auto
    ultimately show ?thesis using Cons.IH [of "listener_step l e"] False by (simp add: accepted_def)
  qed
qed (simp add: accepted_def)

lemma take_upt_bound: "x \<in> set (take k [0..<n]) \<Longrightarrow> x < k"
  by (auto simp: in_set_conv_nth)

lemma session_id_inj: "connection_session_id m = connection_session_id n \<Longrightarrow> m = n"
  using show_nat_inj [of m n] by (simp add: connection_session_id_def)

text \<open>Every accepted connection is served, under a session id of its own: whatever the order in
  which connections arrive, tasks start and accepts fail, no connection accepted before the handle
  is dropped is lost or served twice, and no two of the first 2 to the power 64 get the same id.\<close>

theorem session_ids_distinct:
  "length (ls_ids (run listener_step listener_new es)) + ls_waiting (run listener_step listener_new es) = accepted es \<and>
   distinct (take (2 ^ 64) (ls_ids (run listener_step listener_new es)))"
proof
  show "length (ls_ids (run listener_step listener_new es)) + ls_waiting (run listener_step listener_new es) = accepted es"
    using listener_counts [of listener_new es] by (simp add: listener_new_def add.commute)
next
  let ?ids = "ls_ids (run listener_step listener_new es)"
  have "?ids = map (\<lambda>n. connection_session_id (n mod 2 ^ 64)) [0..<length ?ids]"
    using listener_run_ok [of es] by (simp add: listener_ok_def)
  then have t: "take (2 ^ 64) ?ids =
      map (\<lambda>n. connection_session_id (n mod 2 ^ 64)) (take (2 ^ 64) [0..<length ?ids])"
    by (metis take_map)
  have "inj_on (\<lambda>n. connection_session_id (n mod 2 ^ 64)) (set (take (2 ^ 64) [0..<length ?ids]))"
  proof (rule inj_onI)
    fix m n :: nat
    assume "m \<in> set (take (2 ^ 64) [0..<length ?ids])"
    then have m: "m < 2 ^ 64" by (rule take_upt_bound)
    assume "n \<in> set (take (2 ^ 64) [0..<length ?ids])"
    then have n: "n < 2 ^ 64" by (rule take_upt_bound)
    assume e: "connection_session_id (m mod 2 ^ 64) = connection_session_id (n mod 2 ^ 64)"
    from session_id_inj [OF e] m n show "m = n" by simp
  qed
  then show "distinct (take (2 ^ 64) ?ids)" unfolding t by (simp add: distinct_map)
qed

end
