(* ===== verification/Proto.thy ===== *)
theory Proto
  imports Prelude
begin

text \<open>
  The protobuf messages of the signaling service (\<open>src/proto/buddy3d.rs\<close>), one record per struct.
  Their wire encoding is the derived \<open>prost::Message\<close> code, which is not in the repository: the
  components that send or receive messages take the encoders and decoders as the record \<open>prost\<close>.
  Encoding into a growable buffer returns a \<open>Result\<close>, hence the option.
\<close>

record client_authentication =
  ca_token :: string
  ca_client_kind :: string
  ca_access_jwt :: string

record trigger_message =
  tg_field1 :: u32
  tg_field2 :: u32
  tg_token :: string

record ice_server =
  is_server_type :: u32
  is_host :: string
  is_port :: u32
  is_transport :: u32

record ice_server_group =
  ig_servers :: "ice_server list"
  ig_username :: string
  ig_credential :: string

record ice_config =
  ic_server_groups :: "ice_server_group list"
  ic_field2 :: u32
  ic_ttl_seconds :: u32

record sdp_body =
  sb_sdp :: string
  sb_mid :: string

record ice_candidate_body =
  cb_candidate :: string
  cb_stream_id :: string

record webrtc_signal =
  ws_token :: string
  ws_session_id :: string
  ws_peer_id :: string
  ws_body :: bytes
  ws_msg_type :: u32
  ws_direction :: u32
  ws_ice_config :: "ice_config option"

record camera_identity =
  ci_camera_name :: string
  ci_mac_address :: string
  ci_ip_address :: string
  ci_field5 :: u32

record camera_identity_outer =
  co_identity :: "camera_identity option"

record sys_info =
  si_uptime_epoch :: u32
  si_uptime_seconds :: u64
  si_uptime_human :: string
  si_load_avg :: string
  si_mem_total_kb :: u64
  si_mem_free_kb :: u64
  si_mem_available_kb :: u64
  si_cpu_temp_int :: u32

record status_flags =
  sf_field1 :: u32

record stream_config =
  sc_mode :: u32
  sc_quality :: u32
  sc_rtsp_url :: string

record camera_capabilities =
  cc_fw_version :: string
  cc_hw_version :: string
  cc_camera_name :: string
  cc_opaque_f4 :: bytes
  cc_stream_config :: "stream_config option"
  cc_opaque_f7 :: bytes
  cc_opaque_f9 :: bytes

record status_message =
  cs_opaque_f2 :: bytes
  cs_opaque_f3 :: bytes
  cs_identity :: "camera_identity_outer option"
  cs_capabilities :: "camera_capabilities option"
  cs_token :: string
  cs_sys_info :: "sys_info option"
  cs_camera_id :: string
  cs_flags :: "status_flags option"

record features_message =
  ft_token :: string
  ft_fw_version :: string
  ft_hw_version :: string
  ft_schema_version :: string
  ft_features_json :: string
  ft_features_hash :: string

section \<open>Codecs\<close>

record prost =
  enc_auth :: "client_authentication \<Rightarrow> bytes option"
  enc_trigger :: "trigger_message \<Rightarrow> bytes option"
  enc_signal :: "webrtc_signal \<Rightarrow> bytes option"
  enc_sdp :: "sdp_body \<Rightarrow> bytes option"
  enc_candidate :: "ice_candidate_body \<Rightarrow> bytes option"
  dec_status :: "bytes \<Rightarrow> status_message option"
  dec_features :: "bytes \<Rightarrow> features_message option"
  dec_signal :: "bytes \<Rightarrow> webrtc_signal option"
  dec_sdp :: "bytes \<Rightarrow> sdp_body option"
  dec_candidate :: "bytes \<Rightarrow> ice_candidate_body option"

text \<open>\<open>WebRtcSignal::default()\<close>.\<close>

definition signal_default :: webrtc_signal where
  "signal_default = \<lparr>ws_token = [], ws_session_id = [], ws_peer_id = [], ws_body = [],
     ws_msg_type = 0, ws_direction = 0, ws_ice_config = None\<rparr>"

end
