(* ===== verification/Json.thy ===== *)
theory Json
  imports Prelude
begin

text \<open>
  JSON documents as \<open>serde_json\<close> hands them to the program. The parser and the printer belong to
  that crate and are arguments of the definitions that use them; a document keeps the members of
  an object in the order and with the duplicates of its text. A \<open>Value\<close> looks a key up in a map
  built by inserting the members in order, so the last one wins; a struct derived with
  \<open>Deserialize\<close> rejects a field that occurs twice.
\<close>

datatype json_number = PosInt u64 | NegInt u64 | JFloat u64   \<comment> \<open>magnitude, or the bits of an \<open>f64\<close>\<close>

datatype json =
    JNull
  | JBool bool
  | JNum json_number
  | JStr string
  | JArr "json list"
  | JObj "(string \<times> json) list"

section \<open>Accessors of a value\<close>

fun json_get :: "string \<Rightarrow> json \<Rightarrow> json option" where
  "json_get k (JObj kvs) = map_of (rev kvs) k"
| "json_get k _ = None"

fun as_str :: "json \<Rightarrow> string option" where
  "as_str (JStr s) = Some s"
| "as_str _ = None"

fun as_bool :: "json \<Rightarrow> bool option" where
  "as_bool (JBool b) = Some b"
| "as_bool _ = None"

fun as_u64 :: "json \<Rightarrow> u64 option" where
  "as_u64 (JNum (PosInt n)) = Some n"
| "as_u64 _ = None"

fun as_array :: "json \<Rightarrow> json list option" where
  "as_array (JArr vs) = Some vs"
| "as_array _ = None"

fun as_object :: "json \<Rightarrow> (string \<times> json) list option" where
  "as_object (JObj kvs) = Some kvs"
| "as_object _ = None"

section \<open>Derived structs\<close>

text \<open>The value of a field of a struct: absent, present once, or an error (a duplicate, or a value of
  the wrong type).\<close>

datatype 'a field_value = Absent | Bad | Present 'a

text \<open>A struct is read from an object, each field under its name or one of its aliases, or from an
  array that lists the fields in order and may stop early.\<close>

definition named_field :: "(string \<times> json) list \<Rightarrow> string list \<Rightarrow> json field_value" where
  "named_field kvs names =
     (case filter (\<lambda>kv. fst kv \<in> set names) kvs of
        [] \<Rightarrow> Absent | [kv] \<Rightarrow> Present (snd kv) | _ \<Rightarrow> Bad)"

fun struct_fields :: "string list list \<Rightarrow> json \<Rightarrow> json field_value list option" where
  "struct_fields fields (JObj kvs) = Some (map (named_field kvs) fields)"
| "struct_fields fields (JArr vs) =
     (if length vs \<le> length fields
      then Some (map Present vs @ replicate (length fields - length vs) Absent) else None)"
| "struct_fields fields _ = None"

fun required :: "(json \<Rightarrow> 'a option) \<Rightarrow> json field_value \<Rightarrow> 'a option" where
  "required conv (Present v) = conv v"
| "required conv _ = None"

fun defaulted :: "'a \<Rightarrow> (json \<Rightarrow> 'a option) \<Rightarrow> json field_value \<Rightarrow> 'a option" where
  "defaulted d conv Absent = Some d"
| "defaulted d conv Bad = None"
| "defaulted d conv (Present v) = conv v"

text \<open>An optional value: \<open>null\<close> is \<open>None\<close>.\<close>

definition as_option :: "(json \<Rightarrow> 'a option) \<Rightarrow> json \<Rightarrow> 'a option option" where
  "as_option conv v = (if v = JNull then Some None else map_option Some (conv v))"

definition as_list :: "(json \<Rightarrow> 'a option) \<Rightarrow> json \<Rightarrow> 'a list option" where
  "as_list conv v = Option.bind (as_array v) (\<lambda>vs. those (map conv vs))"

lemma struct_fields_length: "struct_fields fields v = Some fs \<Longrightarrow> length fs = length fields"
  by (cases v) (auto split: if_splits)

end
