(* ===== verification/PrusaClient.thy ===== *)
theory PrusaClient
  imports RateLimit RustStr
begin

text \<open>
  Every HTTPS request goes through \<open>PrusaClient::send\<close> (\<open>src/prusa/client.rs\<close>): a permit of the
  rate limiter, the request, the report of its outcome, the result. What the network answers is
  the argument \<open>reply\<close>: an error, or a status with a body that may fail to arrive.
\<close>

record response =
  rs_status :: nat
  rs_headers :: "(string \<times> string) list"
  rs_body :: "string option"

datatype request_error =
    NetworkError string
  | ServerFailure nat string
  | ClientFailure nat string

definition is_server_error :: "response \<Rightarrow> bool" where
  "is_server_error r \<longleftrightarrow> 500 \<le> rs_status r \<and> rs_status r < 600"

definition is_client_error :: "response \<Rightarrow> bool" where
  "is_client_error r \<longleftrightarrow> 400 \<le> rs_status r \<and> rs_status r < 500"

text \<open>The first characters of a text, each with all its bytes.\<close>

fun take_chars :: "nat \<Rightarrow> string \<Rightarrow> string" where
  "take_chars 0 s = []"
| "take_chars (Suc n) s =
     (if s = [] then [] else first_char s @ take_chars n (drop (length (first_char s)) s))"

definition body_preview :: "response \<Rightarrow> string" where
  "body_preview r = (case rs_body r of None \<Rightarrow> [] | Some b \<Rightarrow> take_chars 800 b)"

definition send_outcome :: "string + response \<Rightarrow> http_outcome" where
  "send_outcome reply =
     (case reply of
        Inr r \<Rightarrow> if is_server_error r then ServerOrNetworkError
                 else if is_client_error r then ClientError else Success
      | Inl _ \<Rightarrow> ServerOrNetworkError)"

definition send_result :: "string + response \<Rightarrow> request_error + response" where
  "send_result reply =
     (case reply of
        Inl e \<Rightarrow> Inl (NetworkError e)
      | Inr r \<Rightarrow>
          if is_server_error r then Inl (ServerFailure (rs_status r) (body_preview r))
          else if is_client_error r then Inl (ClientFailure (rs_status r) (body_preview r))
          else Inr r)"

text \<open>The whole call, alone on the limiter: the time of the request, the limiter afterwards and the
  result; \<open>None\<close> when the fuel of the wait loop runs out. In the program other tasks can use the
  limiter between the permit and its completion; what holds then is \<open>limiter_paced\<close>, over any
  interleaving of the single operations.\<close>

definition client_send ::
  "nat \<Rightarrow> time \<Rightarrow> rate_limiter \<Rightarrow> string + response \<Rightarrow>
   (time \<times> rate_limiter \<times> (request_error + response)) option outcome"
where
  "client_send fuel now l reply =
     obind (rl_acquire fuel now l) (\<lambda>granted. Ret (map_option (\<lambda>(t, l1).
       (t, rl_complete (send_outcome reply) l1, send_result reply)) granted))"

section \<open>Properties\<close>

lemma length_take_chars_ascii:
  "\<forall>c\<in>set s. (of_char c :: nat) < 0x80 \<Longrightarrow> take_chars n s = take n s"
proof (induction n arbitrary: s)
  case (Suc n)
  then show ?case by (cases s) (simp_all add: first_char_def)
qed simp

lemma send_outcome_cost:
  "send_outcome reply = ServerOrNetworkError \<longleftrightarrow>
   (\<exists>e. send_result reply = Inl (NetworkError e)) \<or> (\<exists>n b. send_result reply = Inl (ServerFailure n b))"
  by (auto simp: send_outcome_def send_result_def is_server_error_def is_client_error_def split: sum.splits)

lemma send_result_ok:
  "send_result reply = Inr r \<longleftrightarrow> reply = Inr r \<and> (rs_status r < 400 \<or> 600 \<le> rs_status r)"
  by (auto simp: send_result_def is_server_error_def is_client_error_def split: sum.splits if_splits)

text \<open>C29. The cost of a request: when the bucket holds a token, a call of \<open>send\<close> goes out at once and
  leaves the bucket exactly as the refill left it if the server answered with anything but a 5xx,
  and one token lower on a 5xx or a network error; and the caller gets the response itself exactly
  for the statuses below 400 and from 600 up, so a redirect counts as a success.\<close>

theorem send_accounting:
  assumes "rl_tick now l = Ret l1" and "rl_ok l1" and "0 < rl_level l1"
  shows "\<exists>l2. client_send (Suc fuel) now l reply = Ret (Some (now, l2, send_result reply)) \<and> rl_ok l2 \<and>
           rl_level l2 + (if \<exists>r. reply = Inr r \<and> \<not> is_server_error r then 0 else 1) = rl_level l1 \<and>
           (\<forall>r. send_result reply = Inr r \<longleftrightarrow> reply = Inr r \<and> (rs_status r < 400 \<or> 600 \<le> rs_status r))"
proof -
  have spend: "rl_ok (rl_spend l1)" "rl_level (rl_spend l1) = rl_level l1 - 1" "rl_cap (rl_spend l1) = rl_cap l1"
    using limiter.spend_law [OF assms(2,3)] by (auto simp: rl_spend_def)
  have acq: "rl_acquire (Suc fuel) now l = Ret (Some (now, rl_spend l1))"
    using assms by (simp add: rl_try_acquire_def rl_spend_def word_less_nat_alt)
  have refund: "rl_ok (rl_refund (rl_spend l1)) \<and> rl_level (rl_refund (rl_spend l1)) = rl_level l1"
    using rl_refund_level [OF spend(1)] spend assms(2,3) by (simp add: rl_ok_def)
  have "send_outcome reply = ServerOrNetworkError \<longleftrightarrow> \<not> (\<exists>r. reply = Inr r \<and> \<not> is_server_error r)"
    by (auto simp: send_outcome_def split: sum.splits)
  then have "rl_ok (rl_complete (send_outcome reply) (rl_spend l1)) \<and>
      rl_level (rl_complete (send_outcome reply) (rl_spend l1)) +
        (if \<exists>r. reply = Inr r \<and> \<not> is_server_error r then 0 else 1) = rl_level l1"
    using spend refund assms(3) by (auto simp: rl_complete_def)
  moreover have "client_send (Suc fuel) now l reply =
      Ret (Some (now, rl_complete (send_outcome reply) (rl_spend l1), send_result reply))"
    unfolding client_send_def acq by simp
  ultimately show ?thesis
    by (intro exI [of _ "rl_complete (send_outcome reply) (rl_spend l1)"]) (simp only: send_result_ok, simp)
qed

theorem send_accounting_witness:
  "\<exists>l2. client_send 1 0 (rl_new 3 (secs 60) 0) (Inl ''timeout'') =
       Ret (Some (0, l2, Inl (NetworkError ''timeout''))) \<and> rl_level l2 + 1 = 3"
  using send_accounting [of 0 "rl_new 3 (secs 60) 0" "rl_new 3 (secs 60) 0" 0 "Inl ''timeout''"]
  by (auto simp: rl_new_def rl_tick_def rl_ok_def secs_def as_secs_def send_result_def)

end
