(* ===== verification/Api.thy ===== *)
theory Api
  imports Json PrusaClient
begin

text \<open>
  The REST surface (\<open>src/prusa/api.rs\<close>): the shapes of the answers and how they are read. The
  URLs belong to the \<open>url\<close> crate; a call is seen through the result of \<open>client_send\<close>, and the JSON
  parser is the argument \<open>parse\<close>.
\<close>

record printer =
  pr_uuid :: string
  pr_name :: string

record camera =
  cam_id :: u64
  cam_name :: "string option"
  cam_token :: string

record ice_server_config =
  isc_urls :: json
  isc_username :: "string option"
  isc_credential :: "string option"

record webrtc_config =
  wc_ice_servers :: "ice_server_config list"
  wc_ttl_seconds :: u64

section \<open>Reading\<close>

definition printer_of_json :: "json \<Rightarrow> printer option" where
  "printer_of_json v =
     (case struct_fields [[''uuid''], [''name'']] v of
        Some [a, b] \<Rightarrow>
          Option.bind (required as_str a) (\<lambda>uuid.
          Option.bind (required as_str b) (\<lambda>name.
            Some \<lparr>pr_uuid = uuid, pr_name = name\<rparr>))
      | _ \<Rightarrow> None)"

text \<open>A missing optional field reads as \<open>None\<close>.\<close>

definition camera_of_json :: "json \<Rightarrow> camera option" where
  "camera_of_json v =
     (case struct_fields [[''id''], [''name''], [''token'']] v of
        Some [a, b, c] \<Rightarrow>
          Option.bind (required as_u64 a) (\<lambda>num.
          Option.bind (defaulted None (as_option as_str) b) (\<lambda>name.
          Option.bind (required as_str c) (\<lambda>token.
            Some \<lparr>cam_id = num, cam_name = name, cam_token = token\<rparr>)))
      | _ \<Rightarrow> None)"

text \<open>An envelope with one required field.\<close>

definition single_field :: "string \<Rightarrow> (json \<Rightarrow> 'a option) \<Rightarrow> json \<Rightarrow> 'a option" where
  "single_field k conv v =
     (case struct_fields [[k]] v of Some [a] \<Rightarrow> required conv a | _ \<Rightarrow> None)"

definition printers_envelope :: "json \<Rightarrow> printer list option" where
  "printers_envelope = single_field ''printers'' (as_list printer_of_json)"

definition cameras_envelope :: "json \<Rightarrow> camera list option" where
  "cameras_envelope = single_field ''cameras'' (as_list camera_of_json)"

definition ice_server_of_json :: "json \<Rightarrow> ice_server_config option" where
  "ice_server_of_json v =
     (case struct_fields [[''urls'', ''url''], [''username''], [''credential'']] v of
        Some [a, b, c] \<Rightarrow>
          Option.bind (required Some a) (\<lambda>urls.
          Option.bind (defaulted None (as_option as_str) b) (\<lambda>user.
          Option.bind (defaulted None (as_option as_str) c) (\<lambda>cred.
            Some \<lparr>isc_urls = urls, isc_username = user, isc_credential = cred\<rparr>)))
      | _ \<Rightarrow> None)"

definition webrtc_inner :: "json \<Rightarrow> ice_server_config list option" where
  "webrtc_inner v =
     (case struct_fields [[''ice_servers'', ''iceServers'']] v of
        Some [a] \<Rightarrow> defaulted [] (as_list ice_server_of_json) a
      | _ \<Rightarrow> None)"

definition webrtc_envelope :: "json \<Rightarrow> webrtc_config option" where
  "webrtc_envelope v =
     (case struct_fields [[''configuration''], [''ttl'']] v of
        Some [a, b] \<Rightarrow>
          Option.bind (required webrtc_inner a) (\<lambda>servers.
          Option.bind (defaulted 0 as_u64 b) (\<lambda>ttl.
            Some \<lparr>wc_ice_servers = servers, wc_ttl_seconds = ttl\<rparr>))
      | _ \<Rightarrow> None)"

section \<open>Calls\<close>

text \<open>The decoded body of a successful response; any failure to read or decode it is a network error.\<close>

definition json_of_response ::
  "(string \<Rightarrow> json option) \<Rightarrow> (json \<Rightarrow> 'a option) \<Rightarrow> request_error + response \<Rightarrow> request_error + 'a"
where
  "json_of_response parse conv res =
     rbind res (\<lambda>r. ok_or (NetworkError ''decode'')
       (Option.bind (Option.bind (rs_body r) parse) conv))"

definition list_printers ::
  "(string \<Rightarrow> json option) \<Rightarrow> request_error + response \<Rightarrow> request_error + printer list"
where
  "list_printers parse = json_of_response parse printers_envelope"

definition list_cameras ::
  "(string \<Rightarrow> json option) \<Rightarrow> request_error + response \<Rightarrow> request_error + camera list"
where
  "list_cameras parse = json_of_response parse cameras_envelope"

definition fetch_webrtc_config ::
  "(string \<Rightarrow> json option) \<Rightarrow> request_error + response \<Rightarrow> request_error + webrtc_config"
where
  "fetch_webrtc_config parse = json_of_response parse webrtc_envelope"

text \<open>\<open>urls\<close> is a string or an array; anything in the array that is not a string is dropped.\<close>

fun url_list :: "json \<Rightarrow> string list" where
  "url_list (JStr s) = [s]"
| "url_list (JArr vs) = List.map_filter as_str vs"
| "url_list _ = []"

end
