(* ===== verification/EngineIo.thy ===== *)
theory EngineIo
  imports Json RustStr
begin

text \<open>
  Engine.IO text frames (\<open>src/prusa/signaling/engineio.rs\<close>): one digit for the packet type, then
  its payload. The JSON parser is the argument \<open>parse\<close>.
\<close>

record open_payload =
  op_sid :: string
  op_upgrades :: "string list"
  op_ping_interval :: u64
  op_ping_timeout :: u64
  op_max_payload :: u64

datatype eio_packet =
    EioOpen open_payload
  | EioClose
  | EioPing
  | EioPong
  | EioMessage string
  | EioNoop

datatype eio_error = EioEmpty | EioUnknownType string | EioBadOpen

text \<open>The derived deserialiser of the struct \<open>Wire\<close>.\<close>

definition wire_of_json :: "json \<Rightarrow> open_payload option" where
  "wire_of_json v =
     (case struct_fields [[''sid''], [''upgrades''], [''pingInterval''], [''pingTimeout''],
        [''maxPayload'']] v of
        Some [a, b, c, d, e] \<Rightarrow>
          Option.bind (required as_str a) (\<lambda>sid.
          Option.bind (defaulted [] (as_list as_str) b) (\<lambda>ups.
          Option.bind (required as_u64 c) (\<lambda>pi.
          Option.bind (required as_u64 d) (\<lambda>pt.
          Option.bind (defaulted 0 as_u64 e) (\<lambda>mp.
            Some \<lparr>op_sid = sid, op_upgrades = ups, op_ping_interval = pi, op_ping_timeout = pt,
                  op_max_payload = mp\<rparr>)))))
      | _ \<Rightarrow> None)"

fun eio_parse_text :: "(string \<Rightarrow> json option) \<Rightarrow> string \<Rightarrow> eio_error + eio_packet" where
  "eio_parse_text parse [] = Inl EioEmpty"
| "eio_parse_text parse (kind # rest) =
     (if kind = CHR ''0'' then
        (case Option.bind (parse rest) wire_of_json of
           None \<Rightarrow> Inl EioBadOpen | Some w \<Rightarrow> Inr (EioOpen w))
      else if kind = CHR ''1'' then Inr EioClose
      else if kind = CHR ''2'' then Inr EioPing
      else if kind = CHR ''3'' then Inr EioPong
      else if kind = CHR ''4'' then Inr (EioMessage rest)
      else if kind = CHR ''6'' then Inr EioNoop
      else Inl (EioUnknownType (first_char (kind # rest))))"

definition encode_pong :: string where
  "encode_pong = ''3''"

definition encode_message :: "string \<Rightarrow> string" where
  "encode_message payload = CHR ''4'' # payload"

lemma eio_message [simp, decode_simps]:
  "eio_parse_text parse (encode_message p) = Inr (EioMessage p)"
  "eio_parse_text parse encode_pong = Inr EioPong"
  by (simp_all add: encode_message_def encode_pong_def)

end
