(* ===== verification/SocketIo.thy ===== *)
theory SocketIo
  imports Json RustStr "HOL-Library.AList"
begin

text \<open>
  Socket.IO packets and the binary-attachment correlator
  (\<open>src/prusa/signaling/socketio.rs\<close>). \<open>parse\<close> and \<open>print\<close> stand for
  \<open>serde_json::from_str\<close> and \<open>to_string\<close>.
\<close>

section \<open>Text packets\<close>

datatype sio_packet =
    SioConnect "json option"
  | SioDisconnect
  | SioEvent "u64 option" string "json list"
  | SioAck u64 "json list"
  | SioBinaryHeader u32 "u64 option" string "u32 list"

datatype sio_error =
    SioEmpty
  | SioUnknownType string
  | BadJson
  | BadBinaryHeader
  | MissingEventName

definition split_optional_id :: "string \<Rightarrow> u64 option \<times> string" where
  "split_optional_id s =
     (let head = takeWhile is_ascii_digit s; tail = dropWhile is_ascii_digit s in
      if head = [] then (None, s)
      else (map_option of_nat (parse_uint u64_max head), tail))"

text \<open>A body that must be an array, as \<open>Vec<Value>\<close> is deserialised.\<close>

definition parse_args :: "(string \<Rightarrow> json option) \<Rightarrow> string \<Rightarrow> sio_error + json list" where
  "parse_args parse body = ok_or BadJson (Option.bind (parse body) as_array)"

fun event_name :: "json list \<Rightarrow> sio_error + string \<times> json list" where
  "event_name [] = Inl MissingEventName"
| "event_name (v # vs) = rbind (ok_or MissingEventName (as_str v)) (\<lambda>name. Inr (name, vs))"

definition placeholder_num :: "json \<Rightarrow> u32 option" where
  "placeholder_num v =
     (if Option.bind (json_get ''_placeholder'' v) as_bool = Some True
      then map_option ucast (Option.bind (json_get ''num'' v) as_u64) else None)"

fun sio_parse_text :: "(string \<Rightarrow> json option) \<Rightarrow> string \<Rightarrow> sio_error + sio_packet" where
  "sio_parse_text parse [] = Inl SioEmpty"
| "sio_parse_text parse (kind # rest) =
     (if kind = CHR ''0'' then
        (if rest = [] then Inr (SioConnect None)
         else rbind (ok_or BadJson (parse rest)) (\<lambda>v. Inr (SioConnect (Some v))))
      else if kind = CHR ''1'' then Inr SioDisconnect
      else if kind = CHR ''2'' then
        (case split_optional_id rest of (num, body) \<Rightarrow>
          rbind (parse_args parse body) (\<lambda>args.
          rbind (event_name args) (\<lambda>(name, tl). Inr (SioEvent num name tl))))
      else if kind = CHR ''3'' then
        (case split_optional_id rest of (id_opt, body) \<Rightarrow>
          rbind (ok_or BadBinaryHeader id_opt) (\<lambda>num.
          rbind (parse_args parse body) (\<lambda>args. Inr (SioAck num args))))
      else if kind = CHR ''5'' then
        rbind (ok_or BadBinaryHeader (split_once CHR ''-'' rest)) (\<lambda>(count, after_dash).
        rbind (ok_or BadBinaryHeader (parse_uint u32_max count)) (\<lambda>n.
          (case split_optional_id after_dash of (num, body) \<Rightarrow>
            rbind (parse_args parse body) (\<lambda>args.
            rbind (event_name args) (\<lambda>(name, tl).
              Inr (SioBinaryHeader (of_nat n) num name (List.map_filter placeholder_num tl)))))))
      else Inl (SioUnknownType (first_char (kind # rest))))"

section \<open>Encoding\<close>

definition encode_connect :: "(json \<Rightarrow> string) \<Rightarrow> json \<Rightarrow> string" where
  "encode_connect print auth = CHR ''0'' # print auth"

definition placeholder :: "nat \<Rightarrow> json" where
  "placeholder i = JObj [(''_placeholder'', JBool True), (''num'', JNum (PosInt (of_nat i)))]"

definition event_args :: "string \<Rightarrow> u32 \<Rightarrow> json" where
  "event_args name n = JArr (JStr name # map placeholder [0..<unat n])"

definition encode_binary_event ::
  "(json \<Rightarrow> string) \<Rightarrow> string \<Rightarrow> u32 \<Rightarrow> u64 option \<Rightarrow> string"
where
  "encode_binary_event print name n ack_id =
     (let body = print (event_args name n) in
      case ack_id of
        Some num \<Rightarrow> ''5'' @ show_nat (unat n) @ ''-'' @ show_nat (unat num) @ body
      | None \<Rightarrow> ''5'' @ show_nat (unat n) @ ''-'' @ body)"

section \<open>The correlator\<close>

record pending_event =
  pe_name :: string
  pe_expected :: u32
  pe_received :: "(u32 \<times> bytes) list"   \<comment> \<open>the hash map, keys distinct\<close>

record correlator =
  pending :: "pending_event option"

datatype sio_event =
    TextEvent string "json list"
  | BinaryEvent string "bytes list"
  | Connected "json option"
  | Disconnected
  | AckEvent u64 "json list"

datatype correlator_error =
    ParseFailed sio_error
  | UnexpectedBinary
  | InterleavedText u32 u32
  | TooManyBinaries u32 u32

definition correlator_new :: correlator where
  "correlator_new = \<lparr>pending = None\<rparr>"

fun deliver :: "correlator \<Rightarrow> sio_packet \<Rightarrow> correlator \<times> sio_event option" where
  "deliver c (SioConnect auth) = (c, Some (Connected auth))"
| "deliver c SioDisconnect = (c, Some Disconnected)"
| "deliver c (SioEvent num name args) = (c, Some (TextEvent name args))"
| "deliver c (SioAck num args) = (c, Some (AckEvent num args))"
| "deliver c (SioBinaryHeader n num name ps) =
     (if n = 0 then (c, Some (BinaryEvent name []))
      else (c\<lparr>pending := Some \<lparr>pe_name = name, pe_expected = n, pe_received = []\<rparr>\<rparr>, None))"

definition feed_text ::
  "(string \<Rightarrow> json option) \<Rightarrow> correlator \<Rightarrow> string \<Rightarrow> correlator \<times> (correlator_error + sio_event option)"
where
  "feed_text parse c frame =
     (case pending c of
        Some p \<Rightarrow> (c, Inl (InterleavedText (of_nat (length (pe_received p))) (pe_expected p)))
      | None \<Rightarrow>
          (case sio_parse_text parse frame of
             Inl e \<Rightarrow> (c, Inl (ParseFailed e))
           | Inr pkt \<Rightarrow> (case deliver c pkt of (c', ev) \<Rightarrow> (c', Inr ev))))"

definition collect :: "pending_event \<Rightarrow> bytes list" where
  "collect p = map (\<lambda>i. case map_of (pe_received p) (of_nat i) of None \<Rightarrow> [] | Some b \<Rightarrow> b)
     [0..<unat (pe_expected p)]"

definition feed_binary :: "correlator \<Rightarrow> bytes \<Rightarrow> correlator \<times> (correlator_error + sio_event option)" where
  "feed_binary c payload =
     (case pending c of
        None \<Rightarrow> (c, Inl UnexpectedBinary)
      | Some p \<Rightarrow>
          (let next_num = of_nat (length (pe_received p)) :: u32 in
           if pe_expected p \<le> next_num then
             (c, Inl (TooManyBinaries (next_num + 1) (pe_expected p)))
           else
             (let p' = p\<lparr>pe_received := AList.update next_num payload (pe_received p)\<rparr> in
              if of_nat (length (pe_received p')) = pe_expected p'
              then (c\<lparr>pending := None\<rparr>, Inr (Some (BinaryEvent (pe_name p') (collect p'))))
              else (c\<lparr>pending := Some p'\<rparr>, Inr None))))"

section \<open>The correlator as a list of attachments\<close>

text \<open>A specification without keys or counters: the attachments so far, in arrival order.\<close>

datatype frame = TextFrame string | BinaryFrame bytes

type_synonym collecting = "(string \<times> nat \<times> bytes list) option"
type_synonym feed_result = "correlator_error + sio_event option"

fun feed_frame :: "(string \<Rightarrow> json option) \<Rightarrow> correlator \<Rightarrow> frame \<Rightarrow> correlator \<times> feed_result" where
  "feed_frame parse c (TextFrame t) = feed_text parse c t"
| "feed_frame parse c (BinaryFrame b) = feed_binary c b"

fun spec_deliver :: "sio_packet \<Rightarrow> collecting \<times> sio_event option" where
  "spec_deliver (SioBinaryHeader n num name ps) =
     (if n = 0 then (None, Some (BinaryEvent name [])) else (Some (name, unat n, []), None))"
| "spec_deliver pkt = (None, snd (deliver correlator_new pkt))"

fun spec_frame :: "(string \<Rightarrow> json option) \<Rightarrow> collecting \<Rightarrow> frame \<Rightarrow> collecting \<times> feed_result" where
  "spec_frame parse None (TextFrame t) =
     (case sio_parse_text parse t of
        Inl e \<Rightarrow> (None, Inl (ParseFailed e))
      | Inr pkt \<Rightarrow> (case spec_deliver pkt of (c, ev) \<Rightarrow> (c, Inr ev)))"
| "spec_frame parse None (BinaryFrame b) = (None, Inl UnexpectedBinary)"
| "spec_frame parse (Some (name, n, bs)) (TextFrame t) =
     (Some (name, n, bs), Inl (InterleavedText (of_nat (length bs)) (of_nat n)))"
| "spec_frame parse (Some (name, n, bs)) (BinaryFrame b) =
     (if Suc (length bs) = n then (None, Inr (Some (BinaryEvent name (bs @ [b]))))
      else (Some (name, n, bs @ [b]), Inr None))"

text \<open>The results of a run over a list of frames.\<close>

fun outputs :: "('s \<Rightarrow> 'i \<Rightarrow> 's \<times> 'o) \<Rightarrow> 's \<Rightarrow> 'i list \<Rightarrow> 'o list" where
  "outputs f s [] = []"
| "outputs f s (i # is) = (case f s i of (s', o1) \<Rightarrow> o1 # outputs f s' is)"

definition numbered :: "bytes list \<Rightarrow> (u32 \<times> bytes) list" where
  "numbered bs = zip (map of_nat [0..<length bs]) bs"

definition pending_ok :: "pending_event \<Rightarrow> bool" where
  "pending_ok p \<longleftrightarrow> pe_received p = numbered (map snd (pe_received p))
     \<and> length (pe_received p) < unat (pe_expected p)"

definition correlator_ok :: "correlator \<Rightarrow> bool" where
  "correlator_ok c \<longleftrightarrow> (case pending c of None \<Rightarrow> True | Some p \<Rightarrow> pending_ok p)"

definition collecting_of :: "correlator \<Rightarrow> collecting" where
  "collecting_of c =
     map_option (\<lambda>p. (pe_name p, unat (pe_expected p), map snd (pe_received p))) (pending c)"

lemma update_fresh: "k \<notin> fst ` set ps \<Longrightarrow> AList.update k v ps = ps @ [(k, v)]"
  by (induction ps) auto

lemma numbered_keys: "fst ` set (numbered bs) = of_nat ` {..<length bs}"
proof -
  have "map fst (numbered bs) = map of_nat [0..<length bs]" by (simp add: numbered_def)
  then have "set (map fst (numbered bs)) = of_nat ` {..<length bs}" by (auto simp: atLeast0LessThan)
  then show ?thesis by simp
qed

lemma length_numbered [simp]: "length (numbered bs) = length bs"
  by (simp add: numbered_def)

lemma numbered_snoc: "numbered (bs @ [b]) = numbered bs @ [(of_nat (length bs), b)]"
  by (simp add: numbered_def)

lemma of_nat_u32_inj: "i < 2 ^ 32 \<Longrightarrow> j < 2 ^ 32 \<Longrightarrow> (of_nat i :: u32) = of_nat j \<longleftrightarrow> i = j"
proof -
  assume "i < 2 ^ 32" "j < 2 ^ 32"
  then have "unat (of_nat i :: u32) = i" "unat (of_nat j :: u32) = j" by (simp_all add: unat_of_nat)
  then show ?thesis by metis
qed

lemma numbered_fresh:
  assumes "length bs < 2 ^ 32"
  shows "(of_nat (length bs) :: u32) \<notin> fst ` set (numbered bs)"
  unfolding numbered_keys using assms of_nat_u32_inj by fastforce

lemma update_numbered:
  "length bs < 2 ^ 32 \<Longrightarrow> AList.update (of_nat (length bs)) b (numbered bs) = numbered (bs @ [b])"
  by (simp add: update_fresh numbered_fresh numbered_snoc)

lemma map_of_numbered:
  "length bs \<le> 2 ^ 32 \<Longrightarrow> i < length bs \<Longrightarrow> map_of (numbered bs) (of_nat i) = Some (bs ! i)"
proof (induction bs arbitrary: i rule: rev_induct)
  case (snoc b bs)
  then have fresh: "map_of (numbered bs) (of_nat (length bs)) = None"
    using numbered_fresh [of bs] by (simp add: map_of_eq_None_iff)
  show ?case
  proof (cases "i = length bs")
    case True
    with fresh show ?thesis by (simp add: numbered_snoc map_add_def)
  next
    case False
    with snoc.prems have "i < length bs" "(of_nat i :: u32) \<noteq> of_nat (length bs)"
      using of_nat_u32_inj [of i "length bs"] by auto
    with snoc show ?thesis by (simp add: numbered_snoc map_add_def nth_append)
  qed
qed simp

lemma unat_u32_bound: "unat (w :: u32) < 2 ^ 32"
  using unsigned_less [of w] by simp

lemma collect_numbered:
  assumes "pe_received p = numbered bs" and "length bs = unat (pe_expected p)"
  shows "collect p = bs"
proof -
  have "length bs \<le> 2 ^ 32" using assms(2) unat_u32_bound [of "pe_expected p"] by simp
  then show ?thesis
    using assms by (intro nth_equalityI) (simp_all add: collect_def map_of_numbered)
qed

lemma map_snd_numbered [simp]: "map snd (numbered bs) = bs"
  by (simp add: numbered_def)

lemma unat_of_nat_u32: "n < 2 ^ 32 \<Longrightarrow> unat (of_nat n :: u32) = n"
  by (simp add: unat_of_nat take_bit_nat_eq_self)

lemma word_of_nat_inverse_u32: "of_nat (unat w) = (w :: u32)"
  by simp

lemma feed_binary_refines:
  assumes "correlator_ok c" and "feed_binary c b = (c', r)"
  shows "correlator_ok c' \<and> spec_frame parse (collecting_of c) (BinaryFrame b) = (collecting_of c', r)"
proof (cases "pending c")
  case None
  with assms show ?thesis by (auto simp: feed_binary_def collecting_of_def)
next
  case (Some p)
  define bs where "bs = map snd (pe_received p)"
  have ok: "pe_received p = numbered bs" "length bs < unat (pe_expected p)"
    using assms(1) Some by (simp_all add: correlator_ok_def pending_ok_def bs_def)
  have lt: "length bs < 2 ^ 32" "Suc (length bs) \<le> 2 ^ 32"
    using ok(2) unat_u32_bound [of "pe_expected p"] by simp_all
  have next_num: "\<not> pe_expected p \<le> of_nat (length (pe_received p))"
    using ok lt by (simp add: word_le_nat_alt unat_of_nat_u32)
  define p' where "p' = p\<lparr>pe_received := numbered (bs @ [b])\<rparr>"
  have full: "of_nat (Suc (length bs)) = pe_expected p \<longleftrightarrow> Suc (length bs) = unat (pe_expected p)"
    using ok(2) unat_u32_bound [of "pe_expected p"]
    by (metis Suc_leI le_less_trans unat_of_nat_u32 word_of_nat_inverse_u32)
  have c': "(c', r) = (if of_nat (Suc (length bs)) = pe_expected p
      then (c\<lparr>pending := None\<rparr>, Inr (Some (BinaryEvent (pe_name p) (collect p'))))
      else (c\<lparr>pending := Some p'\<rparr>, Inr None))"
    unfolding assms(2) [symmetric]
    using Some next_num ok(1) update_numbered [OF lt(1), of b]
    by (simp add: feed_binary_def Let_def p'_def)
  show ?thesis
  proof (cases "Suc (length bs) = unat (pe_expected p)")
    case True
    then have "collect p' = bs @ [b]"
      by (intro collect_numbered) (simp_all add: p'_def)
    with c' True full have "c' = c\<lparr>pending := None\<rparr>" "r = Inr (Some (BinaryEvent (pe_name p) (bs @ [b])))"
      by simp_all
    with True Some show ?thesis by (simp add: collecting_of_def correlator_ok_def bs_def)
  next
    case False
    with ok(2) have "Suc (length bs) < unat (pe_expected p)" by simp
    moreover from c' False full have "c' = c\<lparr>pending := Some p'\<rparr>" "r = Inr None" by simp_all
    ultimately show ?thesis using False Some ok
      by (simp add: collecting_of_def correlator_ok_def pending_ok_def p'_def)
  qed
qed

lemma feed_text_refines:
  assumes "correlator_ok c" and "feed_text parse c t = (c', r)"
  shows "correlator_ok c' \<and> spec_frame parse (collecting_of c) (TextFrame t) = (collecting_of c', r)"
proof (cases "pending c")
  case None
  have deliver: "correlator_ok (fst (deliver c pkt)) \<and>
      spec_deliver pkt = (collecting_of (fst (deliver c pkt)), snd (deliver c pkt))" for pkt
    using None by (cases pkt)
      (auto simp: correlator_ok_def collecting_of_def pending_ok_def numbered_def unat_gt_0)
  show ?thesis
  proof (cases "sio_parse_text parse t")
    case (Inl e)
    with None assms show ?thesis by (auto simp: feed_text_def collecting_of_def)
  next
    case (Inr pkt)
    with None assms(2) deliver [of pkt] show ?thesis
      by (auto simp: feed_text_def collecting_of_def split: prod.splits)
  qed
next
  case (Some p)
  with assms show ?thesis by (auto simp: feed_text_def collecting_of_def)
qed

lemma feed_frame_refines:
  "correlator_ok c \<Longrightarrow> feed_frame parse c f = (c', r) \<Longrightarrow>
   correlator_ok c' \<and> spec_frame parse (collecting_of c) f = (collecting_of c', r)"
  by (cases f; simp only: feed_frame.simps)
    (erule (1) feed_text_refines feed_binary_refines)+

lemma outputs_refine:
  "correlator_ok c \<Longrightarrow>
   outputs (feed_frame parse) c fs = outputs (spec_frame parse) (collecting_of c) fs"
proof (induction fs arbitrary: c)
  case (Cons f fs)
  obtain c' r where step: "feed_frame parse c f = (c', r)" by (cases "feed_frame parse c f") auto
  with feed_frame_refines [OF Cons.prems] have "correlator_ok c'"
    "spec_frame parse (collecting_of c) f = (collecting_of c', r)" by auto
  with Cons.IH step show ?case by simp
qed simp

lemma correlator_new_ok [simp]: "correlator_ok correlator_new" "collecting_of correlator_new = None"
  by (simp_all add: correlator_ok_def correlator_new_def collecting_of_def)

lemma outputs_new:
  "outputs (feed_frame parse) correlator_new fs = outputs (spec_frame parse) None fs"
  using outputs_refine [of correlator_new] by simp

text \<open>C22. The correlator keeps attachments in a hash map keyed by a wrapping 32-bit counter; over
  any sequence of text and binary frames it gives exactly the results of a specification that
  appends attachments to a list until the announced number is there. In particular the attachments
  come out in arrival order, none is lost or repeated, and the branch for too many binaries, which
  the specification does not have, is never taken.\<close>

theorem correlator_equivalent:
  "outputs (feed_frame parse) correlator_new fs = outputs (spec_frame parse) None fs"
  by (rule outputs_new)

section \<open>A binary event on the wire\<close>

text \<open>What is asked of the JSON library for one document: it reads back what it printed, and prints
  an array with its bracket first.\<close>

definition prints_array :: "(string \<Rightarrow> json option) \<Rightarrow> (json \<Rightarrow> string) \<Rightarrow> json \<Rightarrow> bool" where
  "prints_array parse print v \<longleftrightarrow> parse (print v) = Some v \<and> take 1 (print v) = ''[''"

lemma split_optional_id_bracket [simp]:
  "take 1 b = ''['' \<Longrightarrow> split_optional_id b = (None, b)"
  by (cases b) (auto simp: split_optional_id_def is_ascii_digit_def Let_def)

lemma takeWhile_digits:
  "list_all is_ascii_digit ds \<Longrightarrow> take 1 b = ''['' \<Longrightarrow>
   takeWhile is_ascii_digit (ds @ b) = ds \<and> dropWhile is_ascii_digit (ds @ b) = b"
proof (induction ds)
  case Nil
  then show ?case by (cases b) (auto simp: is_ascii_digit_def)
qed auto

lemma unat_u64_le: "unat (i :: u64) \<le> u64_max"
proof -
  have "unat i < 2 ^ LENGTH(64)" by (rule unsigned_less)
  then show ?thesis by simp
qed

lemma split_optional_id_shown:
  assumes "take 1 b = ''[''"
  shows "split_optional_id (show_nat (unat i) @ b) = (Some (i :: u64), b)"
proof -
  have "list_all is_ascii_digit (show_nat (unat i))"
    using show_nat_digits by (auto simp: list_all_iff)
  then have "takeWhile is_ascii_digit (show_nat (unat i) @ b) = show_nat (unat i)"
    "dropWhile is_ascii_digit (show_nat (unat i) @ b) = b"
    using takeWhile_digits assms by auto
  moreover have "unat i \<le> u64_max" by (rule unat_u64_le)
  ultimately show ?thesis by (simp add: split_optional_id_def)
qed

lemma dash_not_shown: "CHR ''-'' \<notin> set (show_nat n)"
  using show_nat_digits by (fastforce simp: is_ascii_digit_def)

lemma parse_binary_event:
  assumes "prints_array parse print (event_args name n)"
  shows "sio_parse_text parse (encode_binary_event print name n ack) =
         Inr (SioBinaryHeader n ack name (map of_nat [0..<unat n]))"
proof -
  define b where "b = print (event_args name n)"
  have b: "parse b = Some (event_args name n)" "take 1 b = ''[''"
    using assms by (simp_all add: prints_array_def b_def)
  define tail where "tail = (case ack of None \<Rightarrow> b | Some k \<Rightarrow> show_nat (unat k) @ b)"
  have split: "split_optional_id tail = (ack, b)"
    using b(2) by (cases ack) (simp_all add: tail_def split_optional_id_shown)
  have nums: "List.map_filter placeholder_num (map placeholder xs) = map of_nat xs"
    if "\<forall>x\<in>set xs. x < 2 ^ 32" for xs
    using that
  proof (induction xs)
    case (Cons x xs)
    have "ucast (of_nat x :: u64) = (of_nat x :: u32)"
      using Cons.prems by (simp add: unsigned_of_nat take_bit_nat_eq_self)
    with Cons show ?case
      by (simp add: List.map_filter_def placeholder_num_def placeholder_def)
  qed (simp add: List.map_filter_def)
  have "encode_binary_event print name n ack = CHR ''5'' # show_nat (unat n) @ CHR ''-'' # tail"
    by (cases ack) (simp_all add: encode_binary_event_def tail_def b_def)
  moreover have "split_once CHR ''-'' (show_nat (unat n) @ CHR ''-'' # tail) = Some (show_nat (unat n), tail)"
    by (rule split_once_append) (rule dash_not_shown)
  moreover have "parse_uint u32_max (show_nat (unat n)) = Some (unat n)"
    using unat_u32_bound [of n] by (intro parse_show) simp
  moreover have "List.map_filter placeholder_num (map placeholder [0..<unat n]) = map of_nat [0..<unat n]"
    using unat_u32_bound [of n] by (intro nums) auto
  ultimately show ?thesis
    using split b(1) by (simp add: parse_args_def event_args_def)
qed

lemma spec_collects:
  "length xs + length bs = n \<Longrightarrow> xs \<noteq> [] \<Longrightarrow>
   outputs (spec_frame parse) (Some (name, n, bs)) (map BinaryFrame xs) =
   replicate (length xs - 1) (Inr None) @ [Inr (Some (BinaryEvent name (bs @ xs)))]"
proof (induction xs arbitrary: bs)
  case (Cons x xs)
  show ?case
  proof (cases "xs = []")
    case False
    then obtain k where "length xs = Suc k" by (cases xs) auto
    with Cons.prems Cons.IH [of "bs @ [x]"] False show ?thesis by simp
  qed (use Cons.prems in simp)
qed simp

text \<open>A binary event survives the wire: the header produced by \<open>encode_binary_event\<close>, with or
  without an acknowledgement id, followed by its attachments as binary frames, makes the
  correlator deliver exactly one event, after the last attachment, with the name and with the
  attachments in order, and nothing before it.\<close>

theorem binary_event_roundtrip:
  assumes "prints_array parse print (event_args name n)"
    and "length attachments = unat n"
  shows "outputs (feed_frame parse) correlator_new
           (TextFrame (encode_binary_event print name n ack) # map BinaryFrame attachments) =
         replicate (unat n) (Inr None) @ [Inr (Some (BinaryEvent name attachments))]"
proof (cases "n = 0")
  case True
  with assms show ?thesis
    unfolding outputs_new by (simp add: parse_binary_event)
next
  case False
  then have "0 < unat n" by (simp add: unat_gt_0)
  with assms(2) have "attachments \<noteq> []" by auto
  moreover from this have "replicate (length attachments) y = y # replicate (length attachments - 1) y" for y :: feed_result
    by (cases attachments) simp_all
  ultimately show ?thesis
    using False assms spec_collects [of attachments "[]" "unat n" parse name]
    unfolding outputs_new by (simp add: parse_binary_event)
qed

text \<open>A library that knows one document.\<close>

definition print_one :: "string \<Rightarrow> json \<Rightarrow> string" where
  "print_one text v = text"

definition parse_one :: "string \<Rightarrow> json \<Rightarrow> string \<Rightarrow> json option" where
  "parse_one text v s = (if s = text then Some v else None)"

lemma prints_array_one: "take 1 text = ''['' \<Longrightarrow> prints_array (parse_one text v) (print_one text) v"
  by (simp add: prints_array_def parse_one_def print_one_def)

theorem binary_event_roundtrip_witness:
  "let v = event_args ''webrtc'' 2; parse = parse_one ''[webrtc]'' v; print = print_one ''[webrtc]'' in
   outputs (feed_frame parse) correlator_new
     (TextFrame (encode_binary_event print ''webrtc'' 2 (Some 7)) # map BinaryFrame [[1, 2], [3]]) =
   replicate (unat (2 :: u32)) (Inr None) @ [Inr (Some (BinaryEvent ''webrtc'' [[1, 2], [3]]))]"
  unfolding Let_def
  by (rule binary_event_roundtrip [OF prints_array_one]) simp_all

end
