(* ===== verification/SignalingClient.thy ===== *)
theory SignalingClient
  imports EngineIo SocketIo
begin

text \<open>
  The Socket.IO transport (\<open>src/prusa/signaling/client.rs\<close>): the opening handshake and the task
  that owns the WebSocket. Every arm of its \<open>select!\<close> is an input of a step function; a step says
  which frames are written, which events are handed to the consumer and whether the task goes on.
  \<open>capacity\<close> is the number of frames the sink accepts during the step, so a write error after any
  frame is covered. Time is in milliseconds.
\<close>

datatype ws_message = WsText string | WsBinary bytes | WsClose | WsOther

datatype outbound = OutConnect json | OutBinary string bytes bool

datatype inbound =
    InConnected "string option"
  | InDisconnected
  | InBinary string bytes
  | InAck u64 "json list"
  | TransportClosed string

datatype client_error = Connect string | Io string | EngineIoError eio_error | MissingOpen | ClientClosed string

section \<open>Opening\<close>

text \<open>The first item of the stream: nothing, an error or a message.\<close>

definition client_open ::
  "(string \<Rightarrow> json option) \<Rightarrow> (string + ws_message) option \<Rightarrow> client_error + open_payload"
where
  "client_open parse first =
     (case first of
        None \<Rightarrow> Inl MissingOpen
      | Some (Inl e) \<Rightarrow> Inl (Io e)
      | Some (Inr (WsText t)) \<Rightarrow>
          rbind (map_err EngineIoError (eio_parse_text parse t)) (\<lambda>p.
            case p of EioOpen w \<Rightarrow> Inr w | _ \<Rightarrow> Inl MissingOpen)
      | Some (Inr _) \<Rightarrow> Inl MissingOpen)"

record driver =
  dr_correlator :: correlator
  dr_next_ack :: u64
  dr_period :: nat
  dr_deadline :: nat

definition driver_new :: "open_payload \<Rightarrow> nat \<Rightarrow> driver" where
  "driver_new w now =
     (let period = unat (op_ping_interval w) + 5000 in
      \<lparr>dr_correlator = correlator_new, dr_next_ack = 0, dr_period = period, dr_deadline = now + period\<rparr>)"

section \<open>One turn of the task\<close>

datatype driver_input =
    StreamEnd
  | StreamError string
  | Message ws_message
  | Submit outbound      \<comment> \<open>an event of the caller\<close>
  | SubmitClosed         \<comment> \<open>every sender is gone\<close>
  | PingTimer            \<comment> \<open>the timer branch is polled\<close>
  | InboundDropped       \<comment> \<open>the consumer is gone\<close>

record turn =
  t_driver :: driver
  t_written :: "ws_message list"
  t_events :: "inbound list"
  t_running :: bool

definition turn_end :: "driver \<Rightarrow> ws_message list \<Rightarrow> inbound list \<Rightarrow> turn" where
  "turn_end d ws evs = \<lparr>t_driver = d, t_written = ws, t_events = evs, t_running = False\<rparr>"

definition turn_go :: "driver \<Rightarrow> ws_message list \<Rightarrow> inbound list \<Rightarrow> turn" where
  "turn_go d ws evs = \<lparr>t_driver = d, t_written = ws, t_events = evs, t_running = True\<rparr>"

definition reset_timer :: "nat \<Rightarrow> driver \<Rightarrow> driver" where
  "reset_timer now d = d\<lparr>dr_deadline := now + dr_period d\<rparr>"

definition first_attachment :: "bytes list \<Rightarrow> bytes" where
  "first_attachment bs = (case bs of [] \<Rightarrow> [] | b # _ \<Rightarrow> b)"

text \<open>What the consumer sees of a correlator event; text-only events and errors are only logged.\<close>

fun text_inbound :: "correlator_error + sio_event option \<Rightarrow> inbound list" where
  "text_inbound (Inr (Some (Connected auth))) =
     [InConnected (Option.bind (Option.bind auth (json_get ''sid'')) as_str)]"
| "text_inbound (Inr (Some Disconnected)) = [InDisconnected]"
| "text_inbound (Inr (Some (AckEvent num args))) = [InAck num args]"
| "text_inbound (Inr (Some (BinaryEvent name atts))) = [InBinary name (first_attachment atts)]"
| "text_inbound _ = []"

fun binary_inbound :: "correlator_error + sio_event option \<Rightarrow> inbound list" where
  "binary_inbound (Inr (Some (BinaryEvent name atts))) = [InBinary name (first_attachment atts)]"
| "binary_inbound _ = []"

definition on_text :: "(string \<Rightarrow> json option) \<Rightarrow> nat \<Rightarrow> driver \<Rightarrow> string \<Rightarrow> turn" where
  "on_text parse capacity d t =
     (case eio_parse_text parse t of
        Inr EioPing \<Rightarrow>
          (if capacity = 0 then turn_end d [] [TransportClosed ''write ping reply failed'']
           else turn_go d [WsText encode_pong] [])
      | Inr (EioMessage payload) \<Rightarrow>
          (case feed_text parse (dr_correlator d) payload of
             (c, r) \<Rightarrow> turn_go (d\<lparr>dr_correlator := c\<rparr>) [] (text_inbound r))
      | _ \<Rightarrow> turn_go d [] [])"

definition on_binary :: "driver \<Rightarrow> bytes \<Rightarrow> turn" where
  "on_binary d b =
     (case feed_binary (dr_correlator d) b of
        (c, r) \<Rightarrow> turn_go (d\<lparr>dr_correlator := c\<rparr>) [] (binary_inbound r))"

text \<open>The frames of an outbound event; only events that want an acknowledgement take an id.\<close>

fun outbound_frames :: "(json \<Rightarrow> string) \<Rightarrow> driver \<Rightarrow> outbound \<Rightarrow> driver \<times> ws_message list" where
  "outbound_frames print d (OutConnect auth) =
     (d, [WsText (encode_message (encode_connect print auth))])"
| "outbound_frames print d (OutBinary name payload expect_ack) =
     (let (ack_id, d') = (if expect_ack
            then (Some (dr_next_ack d), d\<lparr>dr_next_ack := dr_next_ack d + 1\<rparr>) else (None, d))
      in (d', [WsText (encode_message (encode_binary_event print name 1 ack_id)), WsBinary payload]))"

definition on_submit :: "(json \<Rightarrow> string) \<Rightarrow> nat \<Rightarrow> driver \<Rightarrow> outbound \<Rightarrow> turn" where
  "on_submit print capacity d out =
     (case outbound_frames print d out of (d', frames) \<Rightarrow>
        if length frames \<le> capacity then turn_go d' frames []
        else turn_end d' (take capacity frames) [TransportClosed ''write failed''])"

fun driver_step ::
  "(string \<Rightarrow> json option) \<Rightarrow> (json \<Rightarrow> string) \<Rightarrow> nat \<Rightarrow> nat \<Rightarrow> driver \<Rightarrow> driver_input \<Rightarrow> turn"
where
  "driver_step parse print now capacity d StreamEnd = turn_end d [] [TransportClosed ''stream end'']"
| "driver_step parse print now capacity d (StreamError e) = turn_end d [] [TransportClosed e]"
| "driver_step parse print now capacity d (Message (WsText t)) =
     on_text parse capacity (reset_timer now d) t"
| "driver_step parse print now capacity d (Message (WsBinary b)) = on_binary (reset_timer now d) b"
| "driver_step parse print now capacity d (Message WsClose) =
     turn_end d [] [TransportClosed ''close frame'']"
| "driver_step parse print now capacity d (Message WsOther) = turn_go d [] []"
| "driver_step parse print now capacity d (Submit out) = on_submit print capacity d out"
| "driver_step parse print now capacity d SubmitClosed = turn_end d [] []"
| "driver_step parse print now capacity d PingTimer =
     (if dr_deadline d \<le> now then turn_end d [] [TransportClosed ''server ping timeout'']
      else turn_go d [] [])"
| "driver_step parse print now capacity d InboundDropped = turn_end d [] []"

text \<open>A run: every input with its time and the capacity of the sink. A task that has ended ignores
  the rest.\<close>

record session_trace =
  st_driver :: driver
  st_written :: "ws_message list"
  st_events :: "inbound list"
  st_running :: bool

fun drive ::
  "(string \<Rightarrow> json option) \<Rightarrow> (json \<Rightarrow> string) \<Rightarrow> session_trace \<Rightarrow> nat \<times> nat \<times> driver_input \<Rightarrow> session_trace"
where
  "drive parse print st (now, capacity, i) =
     (if st_running st then
        (let t = driver_step parse print now capacity (st_driver st) i in
         \<lparr>st_driver = t_driver t, st_written = st_written st @ t_written t,
          st_events = st_events st @ t_events t, st_running = t_running t\<rparr>)
      else st)"

definition drive_all ::
  "(string \<Rightarrow> json option) \<Rightarrow> (json \<Rightarrow> string) \<Rightarrow> driver \<Rightarrow> (nat \<times> nat \<times> driver_input) list \<Rightarrow> session_trace"
where
  "drive_all parse print d is =
     run (drive parse print) \<lparr>st_driver = d, st_written = [], st_events = [], st_running = True\<rparr> is"

section \<open>The heartbeat\<close>

fun is_traffic :: "driver_input \<Rightarrow> bool" where
  "is_traffic (Message (WsText t)) = True"
| "is_traffic (Message (WsBinary b)) = True"
| "is_traffic _ = False"

fun last_traffic :: "nat \<Rightarrow> (nat \<times> nat \<times> driver_input) list \<Rightarrow> nat" where
  "last_traffic t [] = t"
| "last_traffic t ((now, capacity, i) # is) = last_traffic (if is_traffic i then now else t) is"

lemmas turn_defs = turn_end_def turn_go_def on_text_def on_binary_def on_submit_def reset_timer_def

lemma run_snoc: "run f s (es @ [e]) = f (run f s es) e"
  by (simp add: run_append)

lemma last_traffic_snoc:
  "last_traffic t (is @ [(now, capacity, i)]) = (if is_traffic i then now else last_traffic t is)"
  by (induction t "is" rule: last_traffic.induct) auto

lemma outbound_frames_timer:
  "outbound_frames print d out = (d', frames) \<Longrightarrow>
   dr_deadline d' = dr_deadline d \<and> dr_period d' = dr_period d \<and> dr_correlator d' = dr_correlator d"
  by (cases out) (auto simp: Let_def split: if_splits)

lemma driver_step_timer:
  "dr_period (t_driver (driver_step parse print now capacity d i)) = dr_period d \<and>
   dr_deadline (t_driver (driver_step parse print now capacity d i)) =
     (if is_traffic i then now + dr_period d else dr_deadline d)"
  by (induction parse print now capacity d i rule: driver_step.induct)
    (auto simp: turn_defs split: sum.split eio_packet.split prod.split dest: outbound_frames_timer)

lemma deadline_after:
  "st_running (drive_all parse print d is) \<Longrightarrow> dr_deadline d = t0 + dr_period d \<Longrightarrow>
   dr_period (st_driver (drive_all parse print d is)) = dr_period d \<and>
   dr_deadline (st_driver (drive_all parse print d is)) = last_traffic t0 is + dr_period d"
proof (induction "is" rule: rev_induct)
  case (snoc x xs)
  obtain now cap i where x: "x = (now, cap, i)" by (cases x) auto
  from snoc.prems have "st_running (drive_all parse print d xs)"
    by (auto simp: drive_all_def run_snoc x split: if_splits)
  with snoc driver_step_timer show ?case
    by (simp add: drive_all_def run_snoc x last_traffic_snoc Let_def)
qed (simp add: drive_all_def)

text \<open>C30. The watchdog on the server's pings: after any history, with the task still running, the
  timer branch ends the session exactly when the server has sent no text or binary frame for the
  announced ping interval plus five seconds; WebSocket control frames, the caller's own sends and
  earlier polls of the timer do not count.\<close>

theorem ping_timeout_exact:
  assumes "st_running (drive_all parse print (driver_new w t0) is)"
  shows "st_running (drive_all parse print (driver_new w t0) (is @ [(now, capacity, PingTimer)])) \<longleftrightarrow>
         now < last_traffic t0 is + unat (op_ping_interval w) + 5000"
proof -
  have "dr_deadline (driver_new w t0) = t0 + dr_period (driver_new w t0)"
    "dr_period (driver_new w t0) = unat (op_ping_interval w) + 5000"
    by (simp_all add: driver_new_def Let_def)
  with deadline_after [OF assms, of t0] assms show ?thesis
    by (simp add: drive_all_def run_snoc turn_defs Let_def)
qed

definition sample_open :: open_payload where
  "sample_open = \<lparr>op_sid = ''abc'', op_upgrades = [], op_ping_interval = 25000, op_ping_timeout = 20000,
     op_max_payload = 0\<rparr>"

theorem ping_timeout_exact_witness:
  "st_running (drive_all (\<lambda>_. None) (\<lambda>_. []) (driver_new sample_open 100)
      ([(20100, 1, Message (WsText ''2'')), (45000, 1, Message WsOther)] @ [(50099, 1, PingTimer)])) \<longleftrightarrow>
   (50099::nat) < last_traffic 100 [(20100, 1, Message (WsText ''2'')), (45000, 1, Message WsOther)] +
     unat (op_ping_interval sample_open) + 5000"
  by (rule ping_timeout_exact)
    (simp add: drive_all_def Let_def turn_defs driver_new_def)

section \<open>Pings and pongs\<close>

fun pings :: "(nat \<times> nat \<times> driver_input) list \<Rightarrow> nat" where
  "pings [] = 0"
| "pings ((now, capacity, Message (WsText (CHR ''2'' # t))) # is) = Suc (pings is)"
| "pings (_ # is) = pings is"

lemma pings_append: "pings (xs @ ys) = pings xs + pings ys"
  by (induction xs rule: pings.induct) auto

lemma outbound_frames_no_pong:
  "outbound_frames print d out = (d', frames) \<Longrightarrow> WsText encode_pong \<notin> set frames"
  by (cases out) (auto simp: encode_pong_def encode_message_def Let_def split: if_splits)

lemma eio_ping_iff: "eio_parse_text parse t = Inr EioPing \<longleftrightarrow> (\<exists>r. t = CHR ''2'' # r)"
  by (cases "(parse, t)" rule: eio_parse_text.cases) (auto split: option.splits)

lemma pings_single: "pings [(now, capacity, i)] = (if \<exists>r. i = Message (WsText (CHR ''2'' # r)) then 1 else 0)"
  by (cases "[(now, capacity, i)]" rule: pings.cases) auto

lemma step_pongs:
  assumes "t_running (driver_step parse print now capacity d i)"
  shows "count_list (t_written (driver_step parse print now capacity d i)) (WsText encode_pong) =
         pings [(now, capacity, i)]"
proof (cases "\<exists>t. i = Message (WsText t)")
  case True
  then obtain t where i: "i = Message (WsText t)" ..
  show ?thesis
  proof (cases "eio_parse_text parse t = Inr EioPing")
    case True
    with assms show ?thesis
      by (auto simp: i pings_single turn_defs eio_ping_iff split: if_splits)
  next
    case False
    then have "t_written (driver_step parse print now capacity d i) = []"
      by (auto simp: i turn_defs split: sum.split eio_packet.split prod.split)
    with False show ?thesis by (auto simp: i pings_single eio_ping_iff)
  qed
next
  case False
  then have "pings [(now, capacity, i)] = 0" by (auto simp: pings_single)
  moreover have "WsText encode_pong \<notin> set (t_written (driver_step parse print now capacity d i))"
    using False assms
    by (induction parse print now capacity d i rule: driver_step.induct)
      (auto simp: turn_defs split: prod.splits if_splits dest: outbound_frames_no_pong in_set_takeD)
  ultimately show ?thesis by (simp add: count_list_0_iff)
qed

text \<open>Every Engine.IO ping is answered: while the task runs, the number of pongs written equals
  the number of ping frames received, whatever else is interleaved, pending binary attachments and
  unparsable frames included; nothing else writes a pong.\<close>

theorem pings_answered:
  assumes "st_running (drive_all parse print d is)"
  shows "count_list (st_written (drive_all parse print d is)) (WsText encode_pong) = pings is"
  using assms
proof (induction "is" rule: rev_induct)
  case (snoc x xs)
  obtain now cap i where x: "x = (now, cap, i)" by (cases x) auto
  let ?st = "drive_all parse print d xs"
  from snoc.prems have "st_running ?st" "t_running (driver_step parse print now cap (st_driver ?st) i)"
    by (auto simp: drive_all_def run_snoc x Let_def split: if_splits)
  with snoc.IH step_pongs show ?case
    by (simp add: drive_all_def run_snoc x Let_def pings_append)
qed (simp add: drive_all_def)

theorem pings_answered_witness:
  "count_list (st_written (drive_all (\<lambda>_. None) (\<lambda>_. []) (driver_new sample_open 0)
     [(10, 1, Message (WsText ''2'')), (20, 0, Message (WsBinary [7])), (30, 1, Message (WsText ''2probe''))]))
     (WsText encode_pong) =
   pings [(10, 1, Message (WsText ''2'')), (20, 0, Message (WsBinary [7])), (30, 1, Message (WsText ''2probe''))]"
  by (rule pings_answered)
    (simp add: drive_all_def Let_def turn_defs driver_new_def feed_binary_def correlator_new_def)

section \<open>Two drivers\<close>

lemma frames_reach_peer:
  assumes "prints_array parse print (event_args name 1)" and "pending (dr_correlator peer) = None"
  shows "drive_all parse print peer
           [(now, c1, Message (WsText (encode_message (encode_binary_event print name 1 ack)))),
            (now, c2, Message (WsBinary payload))] =
         \<lparr>st_driver = reset_timer now peer, st_written = [], st_events = [InBinary name payload],
          st_running = True\<rparr>"
proof -
  obtain c where c: "dr_correlator peer = c" "pending c = None" using assms(2) by simp
  then have "c = correlator_new" by (cases c) (simp add: correlator_new_def)
  then show ?thesis
    using c(1) parse_binary_event [OF assms(1), of ack]
    by (cases peer)
      (simp add: drive_all_def Let_def turn_defs feed_text_def feed_binary_def correlator_new_def
        collect_def first_attachment_def)
qed

text \<open>C21. A binary event submitted to one driver and written to the socket is delivered by a driver
  at the other end, once, with the same name and payload, and leaves its correlator as it was;
  this holds for events with and without an acknowledgement id.\<close>

theorem event_reaches_peer:
  assumes "prints_array parse print (event_args name 1)"
    and "t_running (on_submit print capacity d (OutBinary name payload expect_ack))"
    and "pending (dr_correlator peer) = None"
    and "t_written (on_submit print capacity d (OutBinary name payload expect_ack)) = [m1, m2]"
  shows "drive_all parse print peer [(now, c1, Message m1), (now, c2, Message m2)] =
         \<lparr>st_driver = reset_timer now peer, st_written = [], st_events = [InBinary name payload],
          st_running = True\<rparr>"
proof -
  obtain ack where m: "m1 = WsText (encode_message (encode_binary_event print name 1 ack))"
    "m2 = WsBinary payload"
    using assms(2,4) by (auto simp: turn_defs Let_def split: if_splits)
  show ?thesis unfolding m by (rule frames_reach_peer [OF assms(1,3)])
qed

theorem event_reaches_peer_witness:
  "let v = event_args ''trigger'' 1; parse = parse_one ''[trigger]'' v; print = print_one ''[trigger]'' in
   drive_all parse print (driver_new sample_open 0)
     [(9, 1, Message (WsText (encode_message (encode_binary_event print ''trigger'' 1 None)))),
      (9, 1, Message (WsBinary [8, 1]))] =
   \<lparr>st_driver = reset_timer 9 (driver_new sample_open 0), st_written = [],
    st_events = [InBinary ''trigger'' [8, 1]], st_running = True\<rparr>"
  unfolding Let_def
  by (rule event_reaches_peer [OF prints_array_one, where capacity = 2 and expect_ack = False
        and d = "driver_new sample_open 0"])
    (simp_all add: turn_defs driver_new_def Let_def correlator_new_def)

end
