(* ===== verification/Signaling.thy ===== *)
theory Signaling
  imports Proto Api SignalingClient
begin

text \<open>
  The signaling session (\<open>src/prusa/signaling/mod.rs\<close>): the handshake over the transport of
  \<open>SignalingClient\<close>, the translator task between raw and typed events, and the ICE configuration
  echoed to the server. The protobuf codecs are the record \<open>px\<close>; \<open>dbg\<close> is the \<open>Debug\<close> rendering of
  a rejected acknowledgement.
\<close>

datatype signaling_event =
    EvStatus status_message
  | EvFeatures features_message
  | EvWebRtc webrtc_signal
  | EvUnknown string bytes
  | EvClosed string

datatype signaling_error = SignalingClientError client_error | SendClosed

section \<open>ICE configuration\<close>

definition server_type :: "string \<Rightarrow> u32" where
  "server_type scheme =
     (if scheme = ''stun'' then 1 else if scheme = ''turn'' then 2
      else if scheme = ''turns'' then 3 else 0)"

definition transport_code :: "string \<Rightarrow> u32" where
  "transport_code query =
     (let v = to_ascii_lowercase (case split_once CHR ''='' query of None \<Rightarrow> [] | Some (_, v) \<Rightarrow> v) in
      if v = ''udp'' then 1 else if v = ''tcp'' then 2 else if v = ''tls'' then 3 else 0)"

definition port_number :: "string \<Rightarrow> u32" where
  "port_number p = (case parse_uint u32_max p of None \<Rightarrow> 0 | Some n \<Rightarrow> of_nat n)"

definition parse_ice_url :: "string \<Rightarrow> ice_server" where
  "parse_ice_url url =
     (let (scheme, rest) = (case split_once CHR '':'' url of None \<Rightarrow> (''stun'', url) | Some x \<Rightarrow> x);
          (host_port, query) = (case split_once CHR ''?'' rest of None \<Rightarrow> (rest, []) | Some x \<Rightarrow> x);
          (host, port) = (case rsplit_once CHR '':'' host_port of
             None \<Rightarrow> (host_port, 0) | Some (h, p) \<Rightarrow> (h, port_number p))
      in \<lparr>is_server_type = server_type scheme, is_host = host, is_port = port,
          is_transport = transport_code query\<rparr>)"

definition ice_group :: "ice_server_config \<Rightarrow> ice_server_group" where
  "ice_group entry =
     \<lparr>ig_servers = map parse_ice_url (url_list (isc_urls entry)),
      ig_username = (case isc_username entry of None \<Rightarrow> [] | Some u \<Rightarrow> u),
      ig_credential = (case isc_credential entry of None \<Rightarrow> [] | Some c \<Rightarrow> c)\<rparr>"

definition build_ice_config :: "webrtc_config \<Rightarrow> ice_config" where
  "build_ice_config cfg =
     \<lparr>ic_server_groups = map ice_group (wc_ice_servers cfg), ic_field2 = 1,
      ic_ttl_seconds = (if unat (wc_ttl_seconds cfg) \<le> u32_max then ucast (wc_ttl_seconds cfg) else 300)\<rparr>"

section \<open>Typed events\<close>

definition translate_binary :: "prost \<Rightarrow> string \<Rightarrow> bytes \<Rightarrow> signaling_event" where
  "translate_binary px name payload =
     (let unknown = EvUnknown name payload in
      if name = ''status'' then
        (case dec_status px payload of None \<Rightarrow> unknown | Some m \<Rightarrow> EvStatus m)
      else if name = ''features'' then
        (case dec_features px payload of None \<Rightarrow> unknown | Some m \<Rightarrow> EvFeatures m)
      else if name = ''webrtc'' then
        (case dec_signal px payload of None \<Rightarrow> unknown | Some m \<Rightarrow> EvWebRtc m)
      else unknown)"

section \<open>The handshake\<close>

record credentials =
  cr_camera_token :: string
  cr_access_jwt :: string
  cr_config :: webrtc_config

text \<open>The outbound event of an encoded message; nothing when encoding fails.\<close>

definition emit :: "string \<Rightarrow> bool \<Rightarrow> bytes option \<Rightarrow> outbound list" where
  "emit name expect_ack buf = (case buf of None \<Rightarrow> [] | Some b \<Rightarrow> [OutBinary name b expect_ack])"

definition auth_message :: "credentials \<Rightarrow> client_authentication" where
  "auth_message cr =
     \<lparr>ca_token = cr_camera_token cr, ca_client_kind = ''client'', ca_access_jwt = cr_access_jwt cr\<rparr>"

definition activation_trigger :: "credentials \<Rightarrow> u32 \<times> u32 \<Rightarrow> trigger_message" where
  "activation_trigger cr f =
     \<lparr>tg_field1 = fst f, tg_field2 = snd f, tg_token = cr_camera_token cr\<rparr>"

definition kickoff_signal :: "credentials \<Rightarrow> string \<Rightarrow> webrtc_signal" where
  "kickoff_signal cr sid =
     signal_default\<lparr>ws_token := cr_camera_token cr, ws_session_id := sid, ws_peer_id := sid,
       ws_msg_type := 1, ws_direction := 2, ws_ice_config := Some (build_ice_config (cr_config cr))\<rparr>"

text \<open>What follows an accepted authentication: both triggers, then the kick-off.\<close>

definition activation :: "prost \<Rightarrow> credentials \<Rightarrow> string \<Rightarrow> outbound list" where
  "activation px cr sid =
     concat (map (\<lambda>f. emit ''trigger'' False (enc_trigger px (activation_trigger cr f))) [(1, 0), (0, 1)])
     @ emit ''webrtc'' False (enc_signal px (kickoff_signal cr sid))"

text \<open>The wait for the reply to CONNECT: the assigned id and the events not yet received, or the
  reason why there is none.\<close>

fun await_connected :: "inbound list \<Rightarrow> string + (string \<times> inbound list)" where
  "await_connected [] = Inl ''stream end''"
| "await_connected (InConnected sid # evs) = Inr (case sid of None \<Rightarrow> [] | Some s \<Rightarrow> s, evs)"
| "await_connected (TransportClosed reason # evs) = Inl reason"
| "await_connected (_ # evs) = await_connected evs"

section \<open>The translator task\<close>

text \<open>What the task does to the outside, in its order: an event submitted to the transport (also one
  that a closed transport refuses, the error is ignored), a status shown to the sink, an event
  delivered to the consumer. The task awaits every submission and every delivery, and can be
  cancelled at each of them.\<close>

datatype translator_effect =
    Submitted outbound
  | StatusShown status_message
  | Delivered signaling_event

record translator =
  tr_acked :: bool
  tr_running :: bool
  tr_log :: "translator_effect list"

definition translator_start :: "prost \<Rightarrow> credentials \<Rightarrow> translator" where
  "translator_start px cr =
     (case enc_auth px (auth_message cr) of
        None \<Rightarrow> \<lparr>tr_acked = False, tr_running = False, tr_log = [Delivered (EvClosed ''encode auth'')]\<rparr>
      | Some b \<Rightarrow> \<lparr>tr_acked = False, tr_running = True,
                   tr_log = [Submitted (OutBinary ''client_authentication'' b True)]\<rparr>)"

definition push_event :: "signaling_event \<Rightarrow> translator \<Rightarrow> translator" where
  "push_event ev st = st\<lparr>tr_log := tr_log st @ [Delivered ev]\<rparr>"

definition sink_status :: "bool \<Rightarrow> signaling_event \<Rightarrow> translator \<Rightarrow> translator" where
  "sink_status has_sink ev st =
     (case ev of EvStatus m \<Rightarrow> if has_sink then st\<lparr>tr_log := tr_log st @ [StatusShown m]\<rparr> else st | _ \<Rightarrow> st)"

definition ack_accepted :: "json list \<Rightarrow> bool" where
  "ack_accepted args = (case args of [] \<Rightarrow> False | v # _ \<Rightarrow> as_u64 v = Some 0)"

definition on_ack ::
  "prost \<Rightarrow> (json list \<Rightarrow> string) \<Rightarrow> credentials \<Rightarrow> string \<Rightarrow> u64 \<Rightarrow> json list \<Rightarrow> translator \<Rightarrow> translator"
where
  "on_ack px dbg cr sid num args st =
     (if \<not> tr_acked st \<and> num = 0 then
        if \<not> ack_accepted args then
          (push_event (EvClosed (''auth ack rejected: '' @ dbg args)) st)\<lparr>tr_running := False\<rparr>
        else st\<lparr>tr_acked := True, tr_log := tr_log st @ map Submitted (activation px cr sid)\<rparr>
      else st)"

fun translator_step ::
  "prost \<Rightarrow> (json list \<Rightarrow> string) \<Rightarrow> bool \<Rightarrow> credentials \<Rightarrow> string \<Rightarrow> translator \<Rightarrow> inbound \<Rightarrow> translator"
where
  "translator_step px dbg has_sink cr sid st (InBinary name payload) =
     (if \<not> tr_running st then st
      else let ev = translate_binary px name payload in push_event ev (sink_status has_sink ev st))"
| "translator_step px dbg has_sink cr sid st (InAck num args) =
     (if \<not> tr_running st then st else on_ack px dbg cr sid num args st)"
| "translator_step px dbg has_sink cr sid st (TransportClosed reason) =
     (if \<not> tr_running st then st else push_event (EvClosed reason) st)"
| "translator_step px dbg has_sink cr sid st InDisconnected =
     (if \<not> tr_running st then st else push_event (EvClosed ''disconnect'') st)"
| "translator_step px dbg has_sink cr sid st (InConnected sid') = st"

text \<open>The three destinations.\<close>

definition submissions :: "translator_effect list \<Rightarrow> outbound list" where
  "submissions fx = List.map_filter (\<lambda>e. case e of Submitted out \<Rightarrow> Some out | _ \<Rightarrow> None) fx"

definition deliveries :: "translator_effect list \<Rightarrow> signaling_event list" where
  "deliveries fx = List.map_filter (\<lambda>e. case e of Delivered ev \<Rightarrow> Some ev | _ \<Rightarrow> None) fx"

definition shown_statuses :: "translator_effect list \<Rightarrow> status_message list" where
  "shown_statuses fx = List.map_filter (\<lambda>e. case e of StatusShown m \<Rightarrow> Some m | _ \<Rightarrow> None) fx"

section \<open>The session\<close>

record signaling =
  sg_session_id :: string
  sg_outbound :: "outbound list"
  sg_events :: "signaling_event list"
  sg_status :: "status_message list"

text \<open>\<open>sink_open\<close>: the transport still takes events when CONNECT is submitted; \<open>raw\<close>: everything it
  delivers, in order; \<open>stop_after\<close>: the number of effects the translator has had when the consumer goes
  away and the task is cancelled, in the middle of the handshake if need be.\<close>

definition connect_payload :: "credentials \<Rightarrow> json" where
  "connect_payload cr = JObj [(''token'', JStr (cr_camera_token cr))]"

definition from_transport ::
  "prost \<Rightarrow> (json list \<Rightarrow> string) \<Rightarrow> bool \<Rightarrow> credentials \<Rightarrow> bool \<Rightarrow> inbound list \<Rightarrow> nat option
   \<Rightarrow> signaling_error + signaling"
where
  "from_transport px dbg has_sink cr sink_open raw stop_after =
     (if \<not> sink_open then Inl SendClosed else
        rbind (map_err (SignalingClientError \<circ> ClientClosed) (await_connected raw)) (\<lambda>(sid, evs).
          (let tr = run (translator_step px dbg has_sink cr sid) (translator_start px cr) evs;
               fx = (case stop_after of None \<Rightarrow> tr_log tr | Some n \<Rightarrow> take n (tr_log tr))
           in Inr \<lparr>sg_session_id = sid,
                   sg_outbound = OutConnect (connect_payload cr) # submissions fx,
                   sg_events = deliveries fx, sg_status = shown_statuses fx\<rparr>)))"

text \<open>The whole of \<open>connect_with_status_sink\<close>: the WebSocket upgrade at the signaling service, the
  opening frame, the transport task (on \<open>inputs\<close>, what its select loop sees) and the session on top
  of it. \<open>connect\<close> is the same without a sink. \<open>upgraded\<close> is what the upgrade gives: the error, or
  the stream's first item.\<close>

definition signaling_url :: string where
  "signaling_url = ''wss://camera-signaling.prusa3d.com/socket.io/?EIO=4&transport=websocket''"

definition upgrade_origin :: string where
  "upgrade_origin = ''https://connect.prusa3d.com''"

definition connect_with_status_sink ::
  "prost \<Rightarrow> (string \<Rightarrow> json option) \<Rightarrow> (json \<Rightarrow> string) \<Rightarrow> (json list \<Rightarrow> string) \<Rightarrow> bool \<Rightarrow> credentials
   \<Rightarrow> (string \<Rightarrow> string \<Rightarrow> string + (string + ws_message) option) \<Rightarrow> nat
   \<Rightarrow> (nat \<times> nat \<times> driver_input) list \<Rightarrow> bool \<Rightarrow> nat option \<Rightarrow> signaling_error + signaling"
where
  "connect_with_status_sink px parse print dbg has_sink cr upgraded now inputs sink_open stop_after =
     rbind (map_err (SignalingClientError \<circ> client_error.Connect) (upgraded signaling_url upgrade_origin)) (\<lambda>first.
     rbind (map_err SignalingClientError (client_open parse first)) (\<lambda>opened.
       from_transport px dbg has_sink cr sink_open
         (st_events (drive_all parse print (driver_new opened now) inputs)) stop_after))"

definition connect_signaling ::
  "prost \<Rightarrow> (string \<Rightarrow> json option) \<Rightarrow> (json \<Rightarrow> string) \<Rightarrow> (json list \<Rightarrow> string) \<Rightarrow> credentials
   \<Rightarrow> (string \<Rightarrow> string \<Rightarrow> string + (string + ws_message) option) \<Rightarrow> nat
   \<Rightarrow> (nat \<times> nat \<times> driver_input) list \<Rightarrow> bool \<Rightarrow> nat option \<Rightarrow> signaling_error + signaling"
where
  "connect_signaling px parse print dbg cr = connect_with_status_sink px parse print dbg False cr"

section \<open>Sending\<close>

definition submit :: "bool \<Rightarrow> outbound \<Rightarrow> signaling_error + outbound" where
  "submit sink_open out = (if sink_open then Inr out else Inl SendClosed)"

definition send_webrtc :: "prost \<Rightarrow> bool \<Rightarrow> webrtc_signal \<Rightarrow> (signaling_error + outbound) outcome" where
  "send_webrtc px sink_open signal =
     (case enc_signal px signal of
        None \<Rightarrow> Panic
      | Some b \<Rightarrow> Ret (submit sink_open (OutBinary ''webrtc'' b False)))"

definition send_trigger :: "bool \<Rightarrow> bytes \<Rightarrow> signaling_error + outbound" where
  "send_trigger sink_open payload = submit sink_open (OutBinary ''trigger'' payload False)"

definition send_configuration :: "bool \<Rightarrow> bytes \<Rightarrow> signaling_error + outbound" where
  "send_configuration sink_open payload = submit sink_open (OutBinary ''configuration'' payload False)"

section \<open>The handshake is gated on its acknowledgement\<close>

text \<open>The specification reads the raw events once, without state. \<open>authorised\<close>: the first
  acknowledgement of event 0 says success.\<close>

fun authorised :: "inbound list \<Rightarrow> bool" where
  "authorised [] = False"
| "authorised (InAck num args # evs) = (if num = 0 then ack_accepted args else authorised evs)"
| "authorised (_ # evs) = authorised evs"

fun delivered :: "prost \<Rightarrow> (json list \<Rightarrow> string) \<Rightarrow> bool \<Rightarrow> inbound list \<Rightarrow> signaling_event list" where
  "delivered px dbg acked [] = []"
| "delivered px dbg acked (InBinary name payload # evs) =
     translate_binary px name payload # delivered px dbg acked evs"
| "delivered px dbg acked (InAck num args # evs) =
     (if acked \<or> num \<noteq> 0 then delivered px dbg acked evs
      else if ack_accepted args then delivered px dbg True evs
      else [EvClosed (''auth ack rejected: '' @ dbg args)])"
| "delivered px dbg acked (TransportClosed reason # evs) = EvClosed reason # delivered px dbg acked evs"
| "delivered px dbg acked (InDisconnected # evs) = EvClosed ''disconnect'' # delivered px dbg acked evs"
| "delivered px dbg acked (InConnected sid # evs) = delivered px dbg acked evs"

lemma translator_stopped: "\<not> tr_running st \<Longrightarrow> translator_step px dbg has_sink cr sid st i = st"
  by (cases i) simp_all

lemma run_stopped:
  "\<not> tr_running st \<Longrightarrow> run (translator_step px dbg has_sink cr sid) st is = st"
  by (induction "is") (simp_all add: translator_stopped)

lemmas effect_defs = submissions_def deliveries_def shown_statuses_def

lemma effects_simps [simp]:
  "submissions [] = []" "deliveries [] = []" "shown_statuses [] = []"
  "submissions (e # fx) = (case e of Submitted out \<Rightarrow> out # submissions fx | _ \<Rightarrow> submissions fx)"
  "deliveries (e # fx) = (case e of Delivered ev \<Rightarrow> ev # deliveries fx | _ \<Rightarrow> deliveries fx)"
  "shown_statuses (e # fx) = (case e of StatusShown m \<Rightarrow> m # shown_statuses fx | _ \<Rightarrow> shown_statuses fx)"
  by (simp_all add: effect_defs map_filter_simps split: translator_effect.split)

lemma effects_append [simp]:
  "submissions (fx @ gx) = submissions fx @ submissions gx"
  "deliveries (fx @ gx) = deliveries fx @ deliveries gx"
  by (induction fx) (simp_all split: translator_effect.split)

lemma effects_submitted [simp]:
  "submissions (map Submitted outs) = outs" "deliveries (map Submitted outs) = []"
  by (induction outs) simp_all

lemma effects_take:
  "prefix (submissions (take n fx)) (submissions fx)" "prefix (deliveries (take n fx)) (deliveries fx)"
  using effects_append [of "take n fx" "drop n fx"] by (simp_all del: effects_append)

lemma sink_status_simps [simp]:
  "tr_acked (sink_status has_sink ev st) = tr_acked st"
  "tr_running (sink_status has_sink ev st) = tr_running st"
  "submissions (tr_log (sink_status has_sink ev st)) = submissions (tr_log st)"
  "deliveries (tr_log (sink_status has_sink ev st)) = deliveries (tr_log st)"
  by (simp_all add: sink_status_def split: signaling_event.split)

lemma push_event_simps [simp]:
  "tr_acked (push_event ev st) = tr_acked st"
  "tr_running (push_event ev st) = tr_running st"
  "tr_log (push_event ev st) = tr_log st @ [Delivered ev]"
  by (simp_all add: push_event_def)

lemma translator_run:
  "tr_running st \<Longrightarrow>
   submissions (tr_log (run (translator_step px dbg has_sink cr sid) st evs)) =
     submissions (tr_log st) @ (if \<not> tr_acked st \<and> authorised evs then activation px cr sid else []) \<and>
   deliveries (tr_log (run (translator_step px dbg has_sink cr sid) st evs)) =
     deliveries (tr_log st) @ delivered px dbg (tr_acked st) evs"
proof (induction evs arbitrary: st)
  case (Cons ev evs)
  show ?case
    using Cons.IH [of "translator_step px dbg has_sink cr sid st ev"] Cons.prems
    by (cases ev) (auto simp: Let_def on_ack_def run_stopped)
qed simp

text \<open>The raw events that follow the reply to CONNECT.\<close>

definition session_events :: "inbound list \<Rightarrow> inbound list" where
  "session_events raw = (case await_connected raw of Inl _ \<Rightarrow> [] | Inr (_, evs) \<Rightarrow> evs)"

text \<open>All that a session can come to submit.\<close>

definition handshake :: "prost \<Rightarrow> credentials \<Rightarrow> bytes \<Rightarrow> inbound list \<Rightarrow> string \<Rightarrow> outbound list" where
  "handshake px cr b raw sid =
     [OutConnect (connect_payload cr), OutBinary ''client_authentication'' b True]
       @ (if authorised (session_events raw) then activation px cr sid else [])"

lemma hd_handshake [simp]: "hd (handshake px cr b raw sid) = OutConnect (connect_payload cr)"
  by (simp add: handshake_def)

lemma from_transport_spec:
  assumes "enc_auth px (auth_message cr) = Some b"
    and "from_transport px dbg has_sink cr True raw stop_after = Inr sg"
  shows "prefix (sg_outbound sg) (handshake px cr b raw (sg_session_id sg)) \<and>
         prefix (sg_events sg) (delivered px dbg False (session_events raw)) \<and>
         hd (sg_outbound sg) = OutConnect (connect_payload cr) \<and>
         (stop_after = None \<longrightarrow> sg_outbound sg = handshake px cr b raw (sg_session_id sg) \<and>
            sg_events sg = delivered px dbg False (session_events raw))"
proof -
  obtain sid evs where aw: "await_connected raw = Inr (sid, evs)"
    using assms(2) by (cases "await_connected raw") (auto simp: from_transport_def)
  let ?st = "translator_start px cr"
  let ?tr = "run (translator_step px dbg has_sink cr sid) ?st evs"
  have "tr_running ?st" "\<not> tr_acked ?st" "tr_log ?st = [Submitted (OutBinary ''client_authentication'' b True)]"
    using assms(1) by (simp_all add: translator_start_def)
  then have fx: "OutConnect (connect_payload cr) # submissions (tr_log ?tr) = handshake px cr b raw sid"
      "deliveries (tr_log ?tr) = delivered px dbg False (session_events raw)"
    using translator_run [of ?st px dbg has_sink cr sid evs]
    by (simp_all add: handshake_def session_events_def aw)
  have cut: "prefix (OutConnect (connect_payload cr) # submissions (take n (tr_log ?tr))) (handshake px cr b raw sid)"
      "prefix (deliveries (take n (tr_log ?tr))) (delivered px dbg False (session_events raw))" for n
    unfolding fx [symmetric] by (simp_all add: effects_take)
  show ?thesis
  proof (cases stop_after)
    case None
    with assms(2) aw fx show ?thesis by (auto simp: from_transport_def Let_def)
  next
    case (Some n)
    with assms(2) aw cut [of n] show ?thesis by (auto simp: from_transport_def Let_def)
  qed
qed

text \<open>C6. The session does nothing ahead of its authentication: whatever the server sends, the events
  submitted are CONNECT and \<open>client_authentication\<close>, followed by the two triggers and the kick-off,
  once, exactly when the first acknowledgement of event 0 reports success; and the consumer gets
  every binary event, translated, in order, up to a rejection. When the consumer goes away the
  task is cancelled at whatever it is awaiting, so that what has been submitted and delivered by
  then is an initial part of that, cut inside the handshake if need be, with CONNECT always in.\<close>

theorem handshake_gated:
  assumes "enc_auth px (auth_message cr) = Some b"
    and "from_transport px dbg has_sink cr True raw stop_after = Inr sg"
  shows "prefix (sg_outbound sg) (handshake px cr b raw (sg_session_id sg)) \<and>
         prefix (sg_events sg) (delivered px dbg False (session_events raw)) \<and>
         hd (sg_outbound sg) = OutConnect (connect_payload cr) \<and>
         (stop_after = None \<longrightarrow> sg_outbound sg = handshake px cr b raw (sg_session_id sg) \<and>
            sg_events sg = delivered px dbg False (session_events raw))"
  by (rule from_transport_spec [OF assms])

definition sample_prost :: prost where
  "sample_prost = \<lparr>enc_auth = (\<lambda>_. Some [1]), enc_trigger = (\<lambda>m. Some [2, ucast (tg_field2 m)]),
     enc_signal = (\<lambda>_. Some [4]), enc_sdp = (\<lambda>_. Some [5]), enc_candidate = (\<lambda>_. Some [6]),
     dec_status = (\<lambda>_. None), dec_features = (\<lambda>_. None), dec_signal = (\<lambda>_. Some signal_default),
     dec_sdp = (\<lambda>_. None), dec_candidate = (\<lambda>_. None)\<rparr>"

definition sample_credentials :: credentials where
  "sample_credentials = \<lparr>cr_camera_token = ''tok'', cr_access_jwt = ''jwt'',
     cr_config = \<lparr>wc_ice_servers = [], wc_ttl_seconds = 300\<rparr>\<rparr>"

definition sample_raw :: "inbound list" where
  "sample_raw = [InDisconnected, InConnected (Some ''s1''), InBinary ''x'' [1], InAck 0 [JNum (PosInt 0)],
     InBinary ''webrtc'' [2]]"

definition sample_session :: signaling where
  "sample_session = \<lparr>sg_session_id = ''s1'',
     sg_outbound = [OutConnect (connect_payload sample_credentials), OutBinary ''client_authentication'' [1] True,
       OutBinary ''trigger'' [2, 0] False, OutBinary ''trigger'' [2, 1] False, OutBinary ''webrtc'' [4] False],
     sg_events = [EvUnknown ''x'' [1], EvWebRtc signal_default], sg_status = []\<rparr>"

lemma sample_from_transport:
  "from_transport sample_prost (\<lambda>_. []) True sample_credentials True sample_raw None = Inr sample_session"
  by (simp add: from_transport_def sample_raw_def sample_session_def translator_start_def sample_prost_def
      translate_binary_def on_ack_def ack_accepted_def activation_def emit_def activation_trigger_def
      push_event_def sink_status_def)

text \<open>The consumer leaves while the second trigger is being submitted.\<close>

lemma sample_cut:
  "from_transport sample_prost (\<lambda>_. []) True sample_credentials True sample_raw (Some 3) =
     Inr \<lparr>sg_session_id = ''s1'',
          sg_outbound = [OutConnect (connect_payload sample_credentials), OutBinary ''client_authentication'' [1] True,
            OutBinary ''trigger'' [2, 0] False],
          sg_events = [EvUnknown ''x'' [1]], sg_status = []\<rparr>"
  by (simp add: from_transport_def sample_raw_def translator_start_def sample_prost_def
      translate_binary_def on_ack_def ack_accepted_def activation_def emit_def activation_trigger_def
      push_event_def sink_status_def)

theorem handshake_gated_witness:
  "sg_outbound sample_session = handshake sample_prost sample_credentials [1] sample_raw ''s1'' \<and>
   sg_events sample_session = delivered sample_prost (\<lambda>_. []) False (session_events sample_raw) \<and>
   prefix [OutConnect (connect_payload sample_credentials), OutBinary ''client_authentication'' [1] True,
            OutBinary ''trigger'' [2, 0] False] (handshake sample_prost sample_credentials [1] sample_raw ''s1'')"
proof -
  have enc: "enc_auth sample_prost (auth_message sample_credentials) = Some [1]" by (simp add: sample_prost_def)
  from handshake_gated [OF enc sample_from_transport] handshake_gated [OF enc sample_cut]
  show ?thesis by (simp add: sample_session_def)
qed

lemma kickoff_last:
  assumes "enc_auth px (auth_message cr) = Some a"
    and "enc_trigger px (activation_trigger cr (1, 0)) = Some t1"
    and "enc_trigger px (activation_trigger cr (0, 1)) = Some t2"
    and "enc_signal px (kickoff_signal cr (sg_session_id sg)) = Some k"
    and "from_transport px dbg has_sink cr True raw stop_after = Inr sg"
    and "(stop_after = None \<and> authorised (session_events raw)) \<or> OutBinary ''webrtc'' k False \<in> set (sg_outbound sg)"
  shows "sg_outbound sg = [OutConnect (connect_payload cr), OutBinary ''client_authentication'' a True,
      OutBinary ''trigger'' t1 False, OutBinary ''trigger'' t2 False, OutBinary ''webrtc'' k False]"
proof -
  note spec = from_transport_spec [OF assms(1,5)]
  let ?ys = "[OutConnect (connect_payload cr), OutBinary ''client_authentication'' a True,
      OutBinary ''trigger'' t1 False, OutBinary ''trigger'' t2 False]"
  have acts: "handshake px cr a raw (sg_session_id sg) = ?ys @ [OutBinary ''webrtc'' k False]"
    if "authorised (session_events raw)"
    using that assms(2-4) by (simp add: handshake_def activation_def emit_def)
  show ?thesis
  proof (cases "OutBinary ''webrtc'' k False \<in> set (sg_outbound sg)")
    case True
    then have "OutBinary ''webrtc'' k False \<in> set (handshake px cr a raw (sg_session_id sg))"
      using spec set_mono_prefix by blast
    then have "authorised (session_events raw)" by (rule contrapos_pp) (simp add: handshake_def)
    with spec acts have "prefix (sg_outbound sg) (?ys @ [OutBinary ''webrtc'' k False])" by simp
    moreover have "\<not> prefix (sg_outbound sg) ?ys" using True set_mono_prefix by fastforce
    ultimately show ?thesis by (simp only: prefix_snoc) simp
  next
    case False
    with assms(6) spec acts show ?thesis by auto
  qed
qed

text \<open>C18. The handshake on the wire: the events of an authorised session, submitted to a fresh driver,
  leave it as exactly nine frames. CONNECT is \<open>40\<close> and its payload; \<open>client_authentication\<close> carries
  acknowledgement id 0, the one the translator waits for; the triggers and the kick-off carry none.
  It is so for every session that submits its kick-off, and that is every authorised one whose
  consumer stays.\<close>

theorem handshake_on_wire:
  assumes "enc_auth px (auth_message cr) = Some a"
    and "enc_trigger px (activation_trigger cr (1, 0)) = Some t1"
    and "enc_trigger px (activation_trigger cr (0, 1)) = Some t2"
    and "enc_signal px (kickoff_signal cr (sg_session_id sg)) = Some k"
    and "from_transport px dbg has_sink cr True raw stop_after = Inr sg"
    and "(stop_after = None \<and> authorised (session_events raw)) \<or> OutBinary ''webrtc'' k False \<in> set (sg_outbound sg)"
  shows "st_written (drive_all parse print (driver_new w t0) (map (\<lambda>out. (now, 2, Submit out)) (sg_outbound sg))) =
     [WsText (''40'' @ print (connect_payload cr)),
      WsText (''451-0'' @ print (event_args ''client_authentication'' 1)), WsBinary a,
      WsText (''451-'' @ print (event_args ''trigger'' 1)), WsBinary t1,
      WsText (''451-'' @ print (event_args ''trigger'' 1)), WsBinary t2,
      WsText (''451-'' @ print (event_args ''webrtc'' 1)), WsBinary k]"
proof -
  have "sg_outbound sg = [OutConnect (connect_payload cr), OutBinary ''client_authentication'' a True,
      OutBinary ''trigger'' t1 False, OutBinary ''trigger'' t2 False, OutBinary ''webrtc'' k False]"
    by (rule kickoff_last [OF assms])
  moreover have "show_nat (Suc 0) = ''1''" "show_nat 0 = ''0''" by code_simp+
  ultimately show ?thesis
    by (simp add: drive_all_def turn_defs Let_def driver_new_def encode_message_def encode_connect_def
        encode_binary_event_def)
qed

theorem handshake_on_wire_witness:
  "st_written (drive_all (\<lambda>_. None) (\<lambda>_. ''J'') (driver_new sample_open 0)
     (map (\<lambda>out. (5, 2, Submit out)) (sg_outbound sample_session))) =
     [WsText ''40J'', WsText ''451-0J'', WsBinary [1], WsText ''451-J'', WsBinary [2, 0],
      WsText ''451-J'', WsBinary [2, 1], WsText ''451-J'', WsBinary [4]]"
  by (subst handshake_on_wire [OF _ _ _ _ sample_from_transport])
    (simp_all add: sample_prost_def activation_trigger_def session_events_def sample_raw_def ack_accepted_def)

section \<open>ICE server URLs\<close>

definition ice_url :: "string \<Rightarrow> string \<Rightarrow> nat \<Rightarrow> string option \<Rightarrow> string" where
  "ice_url scheme host port transport =
     scheme @ '':'' @ host @ '':'' @ show_nat port @
       (case transport of None \<Rightarrow> [] | Some t \<Rightarrow> ''?transport='' @ t)"

text \<open>The URLs of the ICE configuration are taken apart correctly: scheme, host (which may itself
  contain colons, as IPv6 addresses do), port and optional transport are those the URL was made
  of.\<close>

theorem ice_url_roundtrip:
  assumes "CHR '':'' \<notin> set scheme" and "CHR ''?'' \<notin> set host" and "port \<le> u32_max"
  shows "parse_ice_url (ice_url scheme host port transport) =
     \<lparr>is_server_type = server_type scheme, is_host = host, is_port = of_nat port,
      is_transport = (case transport of None \<Rightarrow> 0 | Some t \<Rightarrow> transport_code (''transport='' @ t))\<rparr>"
proof -
  let ?hp = "host @ CHR '':'' # show_nat port"
  have nq: "CHR ''?'' \<notin> set ?hp" using assms(2) show_nat_digits by (fastforce simp: is_ascii_digit_def)
  have nc: "CHR '':'' \<notin> set (show_nat port)" using show_nat_digits by (fastforce simp: is_ascii_digit_def)
  have port: "rsplit_once CHR '':'' ?hp = Some (host, show_nat port)" by (rule rsplit_once_append [OF nc])
  have num: "port_number (show_nat port) = of_nat port" using assms(3) by (simp add: port_number_def)
  show ?thesis
  proof (cases transport)
    case None
    have "split_once CHR '':'' (scheme @ CHR '':'' # ?hp) = Some (scheme, ?hp)"
      by (rule split_once_append [OF assms(1)])
    moreover have "split_once CHR ''?'' ?hp = None" using nq by (simp add: split_once_None)
    moreover have "transport_code [] = 0" by code_simp
    ultimately show ?thesis using None port num by (simp add: parse_ice_url_def ice_url_def)
  next
    case (Some t)
    let ?q = "''transport='' @ t"
    have "split_once CHR '':'' (scheme @ CHR '':'' # (?hp @ CHR ''?'' # ?q)) = Some (scheme, ?hp @ CHR ''?'' # ?q)"
      by (rule split_once_append [OF assms(1)])
    moreover have "split_once CHR ''?'' (?hp @ CHR ''?'' # ?q) = Some (?hp, ?q)"
      by (rule split_once_append [OF nq])
    ultimately show ?thesis using Some port num by (simp add: parse_ice_url_def ice_url_def)
  qed
qed

theorem ice_url_roundtrip_witness:
  "parse_ice_url (ice_url ''turns'' ''[::1]'' 5349 (Some ''UDP'')) =
     \<lparr>is_server_type = 3, is_host = ''[::1]'', is_port = 5349, is_transport = 1\<rparr>"
proof -
  have "server_type ''turns'' = 3" "transport_code (''transport='' @ ''UDP'') = 1" by code_simp+
  then show ?thesis by (subst ice_url_roundtrip) simp_all
qed

end
