(* ===== verification/Mqtt.thy ===== *)
theory Mqtt
  imports Commands Signaling Supervisor
begin

text \<open>
  The Home Assistant side (\<open>src/mqtt/*.rs\<close>): discovery payloads, the state watcher, command parsing
  and dispatch, the one-shot signaling connection, and the hub with its event loop. The MQTT client
  is rumqttc: a request goes into a bounded channel that only polling the event loop empties.
\<close>

section \<open>Discovery\<close>

record device_identity =
  di_camera_id :: string
  di_camera_name :: string
  di_sw_version :: string
  di_topic_prefix :: string
  di_discovery_prefix :: string

record discovery_message =
  dm_topic :: string
  dm_payload :: json

definition device_block :: "device_identity \<Rightarrow> json" where
  "device_block d =
     JObj [(''identifiers'', JArr [JStr (''buddy3d-proxy-'' @ di_camera_id d)]),
           (''name'', JStr (di_camera_name d)), (''manufacturer'', JStr ''Prusa''),
           (''model'', JStr ''Buddy3D Camera''), (''sw_version'', JStr (di_sw_version d))]"

definition topic_root :: "device_identity \<Rightarrow> string" where
  "topic_root d = di_topic_prefix d @ ''/'' @ di_camera_id d"

definition discovery_topic :: "device_identity \<Rightarrow> string \<Rightarrow> string \<Rightarrow> string" where
  "discovery_topic d component object_id =
     di_discovery_prefix d @ ''/'' @ component @ ''/buddy3d_proxy_'' @ di_camera_id d @ ''/'' @ object_id @ ''/config''"

definition unique_id :: "device_identity \<Rightarrow> string \<Rightarrow> string" where
  "unique_id d sfx = ''buddy3d_proxy_'' @ di_camera_id d @ sfx"

definition camera_entity :: "device_identity \<Rightarrow> discovery_message" where
  "camera_entity d =
     \<lparr>dm_topic = discovery_topic d ''camera'' ''snapshot'',
      dm_payload = JObj [(''name'', JStr ''Snapshot''), (''unique_id'', JStr (unique_id d ''_camera'')),
        (''topic'', JStr (topic_root d @ ''/snapshot'')),
        (''availability_topic'', JStr (topic_root d @ ''/availability'')),
        (''device'', device_block d)]\<rparr>"

definition state_sensor :: "device_identity \<Rightarrow> discovery_message" where
  "state_sensor d =
     \<lparr>dm_topic = discovery_topic d ''sensor'' ''state'',
      dm_payload = JObj [(''name'', JStr ''State''), (''unique_id'', JStr (unique_id d ''_state'')),
        (''state_topic'', JStr (topic_root d @ ''/state'')),
        (''availability_topic'', JStr (topic_root d @ ''/availability'')),
        (''icon'', JStr ''mdi:cctv''), (''device'', device_block d)]\<rparr>"

definition mode_select :: "device_identity \<Rightarrow> discovery_message" where
  "mode_select d =
     \<lparr>dm_topic = discovery_topic d ''select'' ''mode'',
      dm_payload = JObj [(''name'', JStr ''Mode''), (''unique_id'', JStr (unique_id d ''_mode'')),
        (''command_topic'', JStr (topic_root d @ ''/mode/set'')),
        (''state_topic'', JStr (topic_root d @ ''/mode/state'')),
        (''options'', JArr [JStr ''Auto'', JStr ''Day'', JStr ''Night'']),
        (''availability_topic'', JStr (topic_root d @ ''/availability'')),
        (''icon'', JStr ''mdi:weather-night''), (''device'', device_block d)]\<rparr>"

definition quality_select :: "device_identity \<Rightarrow> discovery_message" where
  "quality_select d =
     \<lparr>dm_topic = discovery_topic d ''select'' ''quality'',
      dm_payload = JObj [(''name'', JStr ''Quality''), (''unique_id'', JStr (unique_id d ''_quality'')),
        (''command_topic'', JStr (topic_root d @ ''/quality/set'')),
        (''state_topic'', JStr (topic_root d @ ''/quality/state'')),
        (''options'', JArr [JStr ''SD'', JStr ''HD'', JStr ''FHD'']),
        (''availability_topic'', JStr (topic_root d @ ''/availability'')),
        (''icon'', JStr ''mdi:high-definition''), (''device'', device_block d)]\<rparr>"

definition reboot_button :: "device_identity \<Rightarrow> discovery_message" where
  "reboot_button d =
     \<lparr>dm_topic = discovery_topic d ''button'' ''reboot'',
      dm_payload = JObj [(''name'', JStr ''Reboot Camera''), (''unique_id'', JStr (unique_id d ''_reboot'')),
        (''command_topic'', JStr (topic_root d @ ''/reboot/press'')),
        (''payload_press'', JStr ''PRESS''),
        (''availability_topic'', JStr (topic_root d @ ''/availability'')),
        (''device_class'', JStr ''restart''), (''device'', device_block d)]\<rparr>"

definition discovery_all :: "device_identity \<Rightarrow> discovery_message list" where
  "discovery_all d = [camera_entity d, state_sensor d, mode_select d, quality_select d, reboot_button d]"

section \<open>The state watcher\<close>

definition translate_state :: "sup_state \<Rightarrow> bool \<Rightarrow> string" where
  "translate_state st failing =
     (if failing then ''auth_failed''
      else case st of Idle \<Rightarrow> ''idle'' | Connecting \<Rightarrow> ''connecting'' | Streaming \<Rightarrow> ''streaming'')"

text \<open>What the watcher reads each time one of its two watches changes; the first is the initial read.\<close>

record watcher =
  w_last :: string
  w_published :: "string list"

definition watcher_start :: "sup_state \<times> bool \<Rightarrow> watcher" where
  "watcher_start obs =
     (let initial = translate_state (fst obs) (snd obs) in \<lparr>w_last = initial, w_published = [initial]\<rparr>)"

definition watcher_change :: "watcher \<Rightarrow> sup_state \<times> bool \<Rightarrow> watcher" where
  "watcher_change w obs =
     (let now = translate_state (fst obs) (snd obs) in
      if now \<noteq> w_last w then \<lparr>w_last = now, w_published = w_published w @ [now]\<rparr> else w)"

section \<open>Commands\<close>

datatype command = SetMode u32 | SetQuality u32 | Reboot

definition parse_command :: "string \<Rightarrow> bytes \<Rightarrow> command option" where
  "parse_command sfx payload =
     (if \<not> from_utf8_ok payload then None
      else
        (let p = trim (of_bytes payload) in
         if sfx = ''mode/set'' then
           (if p = ''Auto'' then Some (SetMode 1) else if p = ''Day'' then Some (SetMode 2)
            else if p = ''Night'' then Some (SetMode 3) else None)
         else if sfx = ''quality/set'' then
           (if p = ''SD'' then Some (SetQuality 1) else if p = ''HD'' then Some (SetQuality 2)
            else if p = ''FHD'' then Some (SetQuality 3) else None)
         else if sfx = ''reboot/press'' then Some Reboot
         else None))"

fun command_event :: "string \<Rightarrow> command \<Rightarrow> string \<times> bytes" where
  "command_event token (SetMode m) = (''configuration'', encode_set_mode m token)"
| "command_event token (SetQuality q) = (''configuration'', encode_set_quality q token)"
| "command_event token Reboot = (''trigger'', encode_camera_trigger 9 token)"

section \<open>The transient connection\<close>

datatype transient_error = TransientAuth string | TransientApi string | TransientSignaling string

record transient_env =
  te_token :: "string + string"
  te_config :: "string + webrtc_config"
  te_signaling :: "signaling_error + signaling"
  te_open1 :: bool   \<comment> \<open>the transport takes the trigger\<close>
  te_open2 :: bool   \<comment> \<open>and, 200 ms later, the command\<close>

definition transient_submit :: "string \<Rightarrow> bytes \<Rightarrow> transient_env \<Rightarrow> transient_error + outbound" where
  "transient_submit kind payload env =
     (let closed = (\<lambda>_. TransientSignaling ''closed'') in
      if kind = ''configuration'' then map_err closed (send_configuration (te_open2 env) payload)
      else if kind = ''trigger'' then map_err closed (send_trigger (te_open2 env) payload)
      else Inl (TransientSignaling (''unknown kind '' @ kind)))"

definition transient_send ::
  "string \<Rightarrow> string \<Rightarrow> bytes \<Rightarrow> transient_env \<Rightarrow> transient_error + outbound list"
where
  "transient_send token kind payload env =
     rbind (map_err TransientAuth (te_token env)) (\<lambda>_.
     rbind (map_err TransientApi (te_config env)) (\<lambda>_.
     rbind (map_err (\<lambda>_. TransientSignaling ''connect'') (te_signaling env)) (\<lambda>_.
     rbind (map_err (\<lambda>_. TransientSignaling ''closed'') (send_trigger (te_open1 env) (encode_camera_trigger 3 token))) (\<lambda>t.
     rbind (transient_submit kind payload env) (\<lambda>c. Inr [t, c])))))"

definition lookup_camera ::
  "string + string \<Rightarrow> string + printer list \<Rightarrow> (printer \<Rightarrow> string + camera list) \<Rightarrow> transient_error + camera"
where
  "lookup_camera token printers cameras =
     rbind (map_err TransientAuth token) (\<lambda>_.
     rbind (map_err TransientApi printers) (\<lambda>ps.
       case ps of
         [] \<Rightarrow> Inl (TransientApi ''no printers'')
       | p # _ \<Rightarrow>
           rbind (map_err TransientApi (cameras p)) (\<lambda>cs.
             case cs of [] \<Rightarrow> Inl (TransientApi ''no cameras'') | c # _ \<Rightarrow> Inr c)))"

section \<open>Dispatch\<close>

text \<open>\<open>live\<close>: whether a session is registered and, if so, whether its channel still takes events.\<close>

datatype dispatched = ViaLive outbound | ViaTransient "outbound list" | DispatchFailed transient_error

definition dispatch :: "string \<Rightarrow> bool option \<Rightarrow> transient_env \<Rightarrow> command \<Rightarrow> dispatched" where
  "dispatch token live env cmd =
     (case command_event token cmd of (kind, payload) \<Rightarrow>
        if live = Some True then ViaLive (OutBinary kind payload False)
        else (case transient_send token kind payload env of
                Inl e \<Rightarrow> DispatchFailed e | Inr outs \<Rightarrow> ViaTransient outs))"

end
