(* ===== verification/Hub.thy ===== *)
theory Hub
  imports Mqtt
begin

text \<open>
  The hub and its event loop (\<open>src/mqtt/hub.rs\<close>). The request channel of the MQTT client holds 64
  requests; any task may put one in, and only polling the event loop takes one out. The broker URL
  is seen as its scheme, host and port, as the \<open>url\<close> crate parses it.
\<close>

record broker_url =
  bu_scheme :: string
  bu_host :: "string option"
  bu_port :: "u16 option"   \<comment> \<open>\<open>port_or_known_default\<close>\<close>

record hub_config =
  hc_broker :: broker_url
  hc_username :: "string option"
  hc_password :: "string option"
  hc_client_id :: string
  hc_identity :: device_identity

datatype hub_error = HubConfigError string | HubMqtt | HubJson

record mqtt_options =
  mo_client_id :: string
  mo_host :: string
  mo_port :: u16
  mo_keep_alive :: nat
  mo_max_packet :: nat
  mo_credentials :: "(string \<times> string) option"
  mo_will_topic :: string
  mo_will_payload :: string
  mo_tls :: bool

definition hub_connect :: "hub_config \<Rightarrow> hub_error + mqtt_options" where
  "hub_connect cfg =
     rbind (ok_or (HubConfigError ''broker URL missing host'') (bu_host (hc_broker cfg))) (\<lambda>host.
     rbind (ok_or (HubConfigError ''broker URL missing port'') (bu_port (hc_broker cfg))) (\<lambda>port.
       Inr \<lparr>mo_client_id = hc_client_id cfg, mo_host = host, mo_port = port, mo_keep_alive = 30,
            mo_max_packet = 4 * 1024 * 1024,
            mo_credentials = (case (hc_username cfg, hc_password cfg) of
               (Some u, Some p) \<Rightarrow> Some (u, p) | _ \<Rightarrow> None),
            mo_will_topic = topic_root (hc_identity cfg) @ ''/availability'',
            mo_will_payload = ''offline'', mo_tls = (bu_scheme (hc_broker cfg) = ''mqtts'')\<rparr>))"

section \<open>Requests\<close>

text \<open>Every publish of the hub is retained, at least once.\<close>

datatype request = Publish string bytes | Subscribe_to string

definition publish_json :: "(json \<Rightarrow> string) \<Rightarrow> discovery_message \<Rightarrow> request" where
  "publish_json print m = Publish (dm_topic m) (to_bytes (print (dm_payload m)))"

definition command_topics :: "string list" where
  "command_topics = [''mode/set'', ''quality/set'', ''reboot/press'']"

definition announce :: "(json \<Rightarrow> string) \<Rightarrow> device_identity \<Rightarrow> request list" where
  "announce print d =
     map (publish_json print) (discovery_all d) @
     [Publish (topic_root d @ ''/availability'') (to_bytes ''online'')] @
     map (\<lambda>sub. Subscribe_to (topic_root d @ ''/'' @ sub)) command_topics"

definition republish_with_sw_version :: "(json \<Rightarrow> string) \<Rightarrow> device_identity \<Rightarrow> string \<Rightarrow> request list" where
  "republish_with_sw_version print d v =
     map (publish_json print) (discovery_all (d\<lparr>di_sw_version := v\<rparr>))"

definition publish_state :: "device_identity \<Rightarrow> string \<Rightarrow> request" where
  "publish_state d st = Publish (topic_root d @ ''/state'') (to_bytes st)"

definition publish_snapshot :: "device_identity \<Rightarrow> bytes \<Rightarrow> request" where
  "publish_snapshot d jpeg = Publish (topic_root d @ ''/snapshot'') jpeg"

definition publish_mode_state :: "device_identity \<Rightarrow> string \<Rightarrow> request" where
  "publish_mode_state d m = Publish (topic_root d @ ''/mode/state'') (to_bytes m)"

definition publish_quality_state :: "device_identity \<Rightarrow> string \<Rightarrow> request" where
  "publish_quality_state d q = Publish (topic_root d @ ''/quality/state'') (to_bytes q)"

text \<open>What is published after a command was dispatched.\<close>

fun echo :: "device_identity \<Rightarrow> command \<Rightarrow> request list" where
  "echo d (SetMode m) =
     (if m = 1 then [publish_mode_state d ''Auto''] else if m = 2 then [publish_mode_state d ''Day'']
      else if m = 3 then [publish_mode_state d ''Night''] else [])"
| "echo d (SetQuality q) =
     (if q = 1 then [publish_quality_state d ''SD''] else if q = 2 then [publish_quality_state d ''HD'']
      else if q = 3 then [publish_quality_state d ''FHD''] else [])"
| "echo d Reboot = []"

section \<open>The event loop\<close>

definition request_capacity :: nat where "request_capacity = 64"

datatype hub_event =
    ConnAck
  | Incoming string bytes      \<comment> \<open>a publish of the broker\<close>
  | Written                    \<comment> \<open>polling wrote a request to the network\<close>
  | PollError
  | Offered request            \<comment> \<open>another task publishes\<close>

record hub_loop =
  hl_queue :: "request list"
  hl_commands :: "command list"
  hl_blocked :: bool

definition hub_idle :: hub_loop where
  "hub_idle = \<lparr>hl_queue = [], hl_commands = [], hl_blocked = False\<rparr>"

text \<open>Putting requests into the channel from inside the loop: when it fills up, the loop waits for the
  room that only the loop could make.\<close>

definition put_all :: "request list \<Rightarrow> hub_loop \<Rightarrow> hub_loop" where
  "put_all rs h =
     (if length (hl_queue h) + length rs \<le> request_capacity then h\<lparr>hl_queue := hl_queue h @ rs\<rparr>
      else h\<lparr>hl_queue := take request_capacity (hl_queue h @ rs), hl_blocked := True\<rparr>)"

definition command_suffix :: "device_identity \<Rightarrow> string \<Rightarrow> string" where
  "command_suffix d topic =
     (case strip_prefix (topic_root d @ ''/'') topic of None \<Rightarrow> topic | Some s \<Rightarrow> s)"

fun hub_step :: "(json \<Rightarrow> string) \<Rightarrow> device_identity \<Rightarrow> hub_loop \<Rightarrow> hub_event \<Rightarrow> hub_loop" where
  "hub_step print d h ConnAck = (if hl_blocked h then h else put_all (announce print d) h)"
| "hub_step print d h (Incoming topic payload) =
     (if hl_blocked h then h
      else (case parse_command (command_suffix d topic) payload of
              None \<Rightarrow> h | Some cmd \<Rightarrow> h\<lparr>hl_commands := hl_commands h @ [cmd]\<rparr>))"
| "hub_step print d h Written = (if hl_blocked h then h else h\<lparr>hl_queue := tl (hl_queue h)\<rparr>)"
| "hub_step print d h PollError = h"
| "hub_step print d h (Offered r) =
     (if length (hl_queue h) < request_capacity then h\<lparr>hl_queue := hl_queue h @ [r]\<rparr> else h)"

section \<open>Properties\<close>

lemma remdups_adj_snoc:
  assumes "l \<noteq> []"
  shows "remdups_adj (l @ [y]) = remdups_adj l @ (if last l = y then [] else [y])"
proof -
  have e: "l @ [y] = butlast l @ [last l, y]" using assms by simp
  show ?thesis unfolding e using remdups_adj_append_two [of "butlast l" "last l" y] assms by simp
qed

lemma watcher_run:
  "w_published (run watcher_change (watcher_start o0) obs) =
     remdups_adj (map (case_prod translate_state) (o0 # obs)) \<and>
   w_last (run watcher_change (watcher_start o0) obs) = last (map (case_prod translate_state) (o0 # obs))"
proof (induction obs rule: rev_induct)
  case Nil
  show ?case by (simp add: watcher_start_def Let_def case_prod_unfold)
next
  case (snoc o1 obs)
  let ?l = "map (case_prod translate_state) (o0 # obs)"
  have "remdups_adj (?l @ [case_prod translate_state o1]) =
      remdups_adj ?l @ (if last ?l = case_prod translate_state o1 then [] else [case_prod translate_state o1])"
    by (rule remdups_adj_snoc) simp
  with snoc show ?case
    by (auto simp: run_append watcher_change_def Let_def case_prod_unfold)
qed

text \<open>C33. The state topic shows the changes and only them: whatever sequence of supervisor states and
  failure flags the watcher reads, what it publishes is the sequence of their MQTT names with
  consecutive repetitions removed; the name of a failed login hides the supervisor's state.\<close>

theorem watcher_publishes_changes:
  "w_published (run watcher_change (watcher_start o0) obs) =
     remdups_adj (map (\<lambda>(st, failing). if failing then ''auth_failed'' else
       (case st of Idle \<Rightarrow> ''idle'' | Connecting \<Rightarrow> ''connecting'' | Streaming \<Rightarrow> ''streaming'')) (o0 # obs))"
proof -
  have "(\<lambda>(st, failing). if failing then ''auth_failed'' else
       (case st of Idle \<Rightarrow> ''idle'' | Connecting \<Rightarrow> ''connecting'' | Streaming \<Rightarrow> ''streaming'')) = case_prod translate_state"
    by (auto simp: translate_state_def fun_eq_iff)
  then show ?thesis using watcher_run by simp
qed

section \<open>Commands that Home Assistant can send\<close>

text \<open>The options a select entity advertises.\<close>

definition options_of :: "discovery_message \<Rightarrow> string list" where
  "options_of m = (case Option.bind (json_get ''options'' (dm_payload m)) (as_list as_str) of
     None \<Rightarrow> [] | Some os \<Rightarrow> os)"

definition text_field :: "string \<Rightarrow> discovery_message \<Rightarrow> string" where
  "text_field k m = (case Option.bind (json_get k (dm_payload m)) as_str of None \<Rightarrow> [] | Some s \<Rightarrow> s)"

definition works :: "device_identity \<Rightarrow> discovery_message \<Rightarrow> string \<Rightarrow> bool" where
  "works d m opt \<longleftrightarrow>
     (case parse_command (command_suffix d (text_field ''command_topic'' m)) (to_bytes opt) of
        None \<Rightarrow> False
      | Some cmd \<Rightarrow> echo d cmd = [Publish (text_field ''state_topic'' m) (to_bytes opt)])"

lemma command_suffix_root [simp]: "command_suffix d (topic_root d @ CHR ''/'' # s) = s"
proof -
  have "strip_prefix (topic_root d @ ''/'') ((topic_root d @ ''/'') @ s) = Some s"
    by (rule strip_prefix_append)
  then show ?thesis by (simp add: command_suffix_def)
qed

lemma options_select:
  "options_of (mode_select d) = [''Auto'', ''Day'', ''Night'']"
  "options_of (quality_select d) = [''SD'', ''HD'', ''FHD'']"
  by (simp_all add: options_of_def mode_select_def quality_select_def as_list_def)

lemma select_topics:
  "text_field ''command_topic'' (mode_select d) = topic_root d @ ''/mode/set''"
  "text_field ''state_topic'' (mode_select d) = topic_root d @ ''/mode/state''"
  "text_field ''command_topic'' (quality_select d) = topic_root d @ ''/quality/set''"
  "text_field ''state_topic'' (quality_select d) = topic_root d @ ''/quality/state''"
  by (simp_all add: text_field_def mode_select_def quality_select_def)

lemma utf8_text:
  assumes "list_all (\<lambda>c. (of_char c :: nat) < 0x80) t"
  shows "from_utf8_ok (to_bytes t)"
proof -
  have "in_rng 0 0x7F (byte_of_char c)" if "(of_char c :: nat) < 0x80" for c
  proof -
    have "unat (byte_of_char c) = of_char c"
      by (simp add: byte_of_char_def unat_of_nat take_bit_nat_eq_self nat_of_char_less_256)
    with that show ?thesis by (simp add: in_rng_def)
  qed
  with assms show ?thesis by (intro from_utf8_ascii) (auto simp: to_bytes_def list_all_iff)
qed

lemma trim_options [simp]:
  "trim ''Auto'' = ''Auto''" "trim ''Day'' = ''Day''" "trim ''Night'' = ''Night''"
  "trim ''SD'' = ''SD''" "trim ''HD'' = ''HD''" "trim ''FHD'' = ''FHD''"
  by (rule trim_solid; simp add: solid_def)+

lemma parse_options:
  "parse_command ''mode/set'' (to_bytes ''Auto'') = Some (SetMode 1)"
  "parse_command ''mode/set'' (to_bytes ''Day'') = Some (SetMode 2)"
  "parse_command ''mode/set'' (to_bytes ''Night'') = Some (SetMode 3)"
  "parse_command ''quality/set'' (to_bytes ''SD'') = Some (SetQuality 1)"
  "parse_command ''quality/set'' (to_bytes ''HD'') = Some (SetQuality 2)"
  "parse_command ''quality/set'' (to_bytes ''FHD'') = Some (SetQuality 3)"
  unfolding parse_command_def of_to_bytes by (simp_all del: to_bytes_simps add: utf8_text)

text \<open>C34. What is advertised works: each option of the mode and quality entities, published by Home
  Assistant on the advertised command topic, parses to a command whose echo publishes the same
  option on the advertised state topic; and the hub subscribes to exactly the command topics of the
  discovery messages.\<close>

theorem advertised_options_work:
  "list_all (works d (mode_select d)) (options_of (mode_select d)) \<and>
   list_all (works d (quality_select d)) (options_of (quality_select d)) \<and>
   List.map_filter (\<lambda>r. case r of Subscribe_to t \<Rightarrow> Some t | Publish t b \<Rightarrow> None) (announce print d) =
     List.map_filter (\<lambda>m. Option.bind (json_get ''command_topic'' (dm_payload m)) as_str) (discovery_all d)"
proof (intro conjI)
  show "list_all (works d (mode_select d)) (options_of (mode_select d))"
    using parse_options
    by (simp add: options_select works_def select_topics publish_mode_state_def)
  show "list_all (works d (quality_select d)) (options_of (quality_select d))"
    using parse_options
    by (simp add: options_select works_def select_topics publish_quality_state_def)
  show "List.map_filter (\<lambda>r. case r of Subscribe_to t \<Rightarrow> Some t | Publish t b \<Rightarrow> None) (announce print d) =
     List.map_filter (\<lambda>m. Option.bind (json_get ''command_topic'' (dm_payload m)) as_str) (discovery_all d)"
    by (simp add: announce_def discovery_all_def publish_json_def command_topics_def List.map_filter_def
        camera_entity_def state_sensor_def mode_select_def quality_select_def reboot_button_def)
qed

section \<open>A full request channel\<close>

lemma length_announce: "length (announce print d) = 9"
  by (simp add: announce_def discovery_all_def command_topics_def)

lemma blocked_stays: "hl_blocked h \<Longrightarrow> hl_blocked (run (hub_step print d) h es) \<and>
   hl_commands (run (hub_step print d) h es) = hl_commands h"
proof (induction es arbitrary: h)
  case (Cons e es)
  then have "hl_blocked (hub_step print d h e)" "hl_commands (hub_step print d h e) = hl_commands h"
    by (cases e; simp)+
  with Cons.IH show ?case by simp
qed simp

text \<open>A reconnect to the broker can stop the hub for good: while the broker is away the other tasks
  fill the request channel; if more than 55 of its 64 places are taken when the connection is
  acknowledged, the announcement, made from inside the event loop, waits for room that only the
  loop can make, and no later command is executed. With at most 55 it goes through.\<close>

theorem reconnect_can_block:
  "hl_blocked (hub_step print d (h\<lparr>hl_blocked := False\<rparr>) ConnAck) = (55 < length (hl_queue h)) \<and>
   (if 55 < length (hl_queue h)
    then hl_commands (run (hub_step print d) (h\<lparr>hl_blocked := False\<rparr>) (ConnAck # es)) = hl_commands h
    else hl_queue (hub_step print d (h\<lparr>hl_blocked := False\<rparr>) ConnAck) = hl_queue h @ announce print d)"
  using blocked_stays [of "hub_step print d (h\<lparr>hl_blocked := False\<rparr>) ConnAck"]
  by (auto simp: put_all_def length_announce request_capacity_def)

end
