(* ===== verification/WebRtcSession.thy ===== *)
theory WebRtcSession
  imports Signaling "HOL-Library.Multiset"
begin

text \<open>
  The WebRTC session (\<open>src/webrtc_session.rs\<close>). The peer connection is the webrtc crate's: what its
  calls answer is the record \<open>peer\<close>, and the state keeps what the session has told it, namely the
  remote description in force and the candidates handed over, in order.
\<close>

record candidate =
  cand_line :: string
  cand_mid :: "string option"
  cand_mline :: "u16 option"

text \<open>A \<open>set_remote_description\<close> that fails may have failed before or after the description was stored;
  which of the two is the crate's business, so both are answers it can give.\<close>

datatype remote_reply = Accepted | Refused | RefusedStored

record peer =
  peer_offer :: "string \<Rightarrow> bool"              \<comment> \<open>the text parses as an offer\<close>
  peer_set_remote :: "string \<Rightarrow> remote_reply"
  peer_add_ice :: "candidate \<Rightarrow> bool"
  peer_create_answer :: "string option"
  peer_set_local :: "string \<Rightarrow> bool"

datatype session_error = WebRtcFailed | SignalSendClosed | DecodeFailed string

record webrtc_session =
  ws_camera_token :: string
  ws_sid :: string
  ws_remote :: "string option"
  ws_handed :: "candidate list"
  ws_pending_ice :: "candidate list"

definition webrtc_session_new :: "string \<Rightarrow> string \<Rightarrow> webrtc_session" where
  "webrtc_session_new token sid =
     \<lparr>ws_camera_token = token, ws_sid = sid, ws_remote = None, ws_handed = [], ws_pending_ice = []\<rparr>"

section \<open>ICE servers of the peer connection\<close>

record rtc_ice_server =
  rtc_urls :: "string list"
  rtc_username :: string
  rtc_credential :: string

definition is_turn :: "string \<Rightarrow> bool" where
  "is_turn url \<longleftrightarrow> prefix ''turn:'' url \<or> prefix ''turns:'' url"

definition rtc_entry :: "string \<Rightarrow> string \<Rightarrow> string \<Rightarrow> rtc_ice_server" where
  "rtc_entry username credential url =
     \<lparr>rtc_urls = [hd (split_on CHR ''?'' url)],
      rtc_username = (if is_turn url then username else []),
      rtc_credential = (if is_turn url then credential else [])\<rparr>"

definition rtc_ice_servers :: "webrtc_config \<Rightarrow> rtc_ice_server list" where
  "rtc_ice_servers cfg =
     concat (map (\<lambda>s.
       map (rtc_entry (case isc_username s of None \<Rightarrow> [] | Some u \<Rightarrow> u)
                      (case isc_credential s of None \<Rightarrow> [] | Some c \<Rightarrow> c))
           (url_list (isc_urls s))) (wc_ice_servers cfg))"

section \<open>Bringing a session up\<close>

text \<open>What the webrtc crate answers to the calls of \<open>WebRtcSession::new\<close>, in their order: the default
  codecs, the default interceptors, and the peer connection for a multicast DNS mode and a list
  of ICE servers. The crate's default mode would advertise our host candidates as names that the
  camera cannot resolve.\<close>

datatype mdns_mode = QueryAndGather | QueryOnly

record webrtc_api =
  wa_codecs :: bool
  wa_interceptors :: bool
  wa_new_peer :: "mdns_mode \<Rightarrow> rtc_ice_server list \<Rightarrow> bool"

definition new_session ::
  "webrtc_api \<Rightarrow> webrtc_config \<Rightarrow> string \<Rightarrow> string \<Rightarrow> session_error + webrtc_session"
where
  "new_session api cfg token sid =
     (if \<not> wa_codecs api then Inl WebRtcFailed
      else if \<not> wa_interceptors api then Inl WebRtcFailed
      else if \<not> wa_new_peer api QueryOnly (rtc_ice_servers cfg) then Inl WebRtcFailed
      else Inr (webrtc_session_new token sid))"

definition close_session :: "bool \<Rightarrow> session_error + unit" where
  "close_session closed = (if closed then Inr () else Inl WebRtcFailed)"

section \<open>Outbound signals\<close>

definition encode_ice_candidate :: "prost \<Rightarrow> string \<Rightarrow> string \<Rightarrow> bytes outcome" where
  "encode_ice_candidate px line mid =
     (case enc_candidate px \<lparr>cb_candidate = ''a='' @ line, cb_stream_id = mid\<rparr> of
        None \<Rightarrow> Panic | Some b \<Rightarrow> Ret b)"

text \<open>The candidate callback: end-of-candidates and unserialisable candidates are dropped.\<close>

definition on_ice_candidate ::
  "prost \<Rightarrow> webrtc_session \<Rightarrow> candidate option \<Rightarrow> webrtc_signal list outcome"
where
  "on_ice_candidate px st c =
     (case c of
        None \<Rightarrow> Ret []
      | Some init \<Rightarrow>
          obind (encode_ice_candidate px (cand_line init)
                   (case cand_mid init of None \<Rightarrow> [] | Some m \<Rightarrow> m)) (\<lambda>body.
            Ret [signal_default\<lparr>ws_token := ws_camera_token st, ws_session_id := ws_sid st,
                   ws_peer_id := ws_sid st, ws_msg_type := 4, ws_direction := 2, ws_body := body\<rparr>]))"

section \<open>Inbound signals\<close>

definition candidate_of_body :: "ice_candidate_body \<Rightarrow> candidate" where
  "candidate_of_body body =
     \<lparr>cand_line = (case strip_prefix ''a='' (cb_candidate body) of
        None \<Rightarrow> cb_candidate body | Some s \<Rightarrow> s),
      cand_mid = Some (cb_stream_id body), cand_mline = Some 0\<rparr>"

definition drain_pending :: "webrtc_session \<Rightarrow> webrtc_session" where
  "drain_pending st = st\<lparr>ws_handed := ws_handed st @ ws_pending_ice st, ws_pending_ice := []\<rparr>"

definition answer_signal :: "webrtc_session \<Rightarrow> bytes \<Rightarrow> webrtc_signal" where
  "answer_signal st body =
     signal_default\<lparr>ws_token := ws_camera_token st, ws_session_id := ws_sid st, ws_peer_id := ws_sid st,
       ws_msg_type := 2, ws_direction := 2, ws_body := body\<rparr>"

text \<open>\<open>chan_open\<close>: the outbound channel takes the reply.\<close>

definition on_offer ::
  "prost \<Rightarrow> peer \<Rightarrow> bool \<Rightarrow> webrtc_session \<Rightarrow> sdp_body \<Rightarrow>
   (webrtc_session \<times> (session_error + webrtc_signal list)) outcome"
where
  "on_offer px peer chan_open st body =
     (if \<not> peer_offer peer (sb_sdp body) then Ret (st, Inl WebRtcFailed)
      else
        (case peer_set_remote peer (sb_sdp body) of
           Refused \<Rightarrow> Ret (st, Inl WebRtcFailed)
         | RefusedStored \<Rightarrow> Ret (st\<lparr>ws_remote := Some (sb_sdp body)\<rparr>, Inl WebRtcFailed)
         | Accepted \<Rightarrow>
             (let st1 = drain_pending (st\<lparr>ws_remote := Some (sb_sdp body)\<rparr>) in
              case peer_create_answer peer of
                None \<Rightarrow> Ret (st1, Inl WebRtcFailed)
              | Some answer \<Rightarrow>
                  if \<not> peer_set_local peer answer then Ret (st1, Inl WebRtcFailed)
                  else
                    (case enc_sdp px \<lparr>sb_sdp = answer, sb_mid = sb_mid body\<rparr> of
                       None \<Rightarrow> Panic
                     | Some buf \<Rightarrow>
                         Ret (st1, if chan_open then Inr [answer_signal st1 buf] else Inl SignalSendClosed)))))"

definition on_candidate ::
  "peer \<Rightarrow> webrtc_session \<Rightarrow> candidate \<Rightarrow> webrtc_session \<times> (session_error + webrtc_signal list)"
where
  "on_candidate peer st init =
     (if ws_remote st \<noteq> None then
        (st\<lparr>ws_handed := ws_handed st @ [init]\<rparr>,
         if peer_add_ice peer init then Inr [] else Inl WebRtcFailed)
      else (st\<lparr>ws_pending_ice := ws_pending_ice st @ [init]\<rparr>, Inr []))"

definition handle_signal ::
  "prost \<Rightarrow> peer \<Rightarrow> bool \<Rightarrow> webrtc_session \<Rightarrow> webrtc_signal \<Rightarrow>
   (webrtc_session \<times> (session_error + webrtc_signal list)) outcome"
where
  "handle_signal px peer chan_open st signal =
     (if ws_msg_type signal = 3 then
        (case dec_sdp px (ws_body signal) of
           None \<Rightarrow> Ret (st, Inl (DecodeFailed ''decode sdp''))
         | Some body \<Rightarrow> on_offer px peer chan_open st body)
      else if ws_msg_type signal = 4 then
        (case dec_candidate px (ws_body signal) of
           None \<Rightarrow> Ret (st, Inl (DecodeFailed ''decode ice''))
         | Some body \<Rightarrow> Ret (on_candidate peer st (candidate_of_body body)))
      else Ret (st, Inr []))"

section \<open>Peer connection state\<close>

datatype pc_state = PcNew | PcConnecting | PcConnected | PcDisconnected | PcFailed | PcClosed

text \<open>The state callback keeps a one-shot sender: what is left of it, and whether it fires.\<close>

fun on_pc_state :: "bool \<Rightarrow> pc_state \<Rightarrow> bool \<times> bool" where
  "on_pc_state armed PcFailed = (False, armed)"
| "on_pc_state armed PcClosed = (False, armed)"
| "on_pc_state armed _ = (armed, False)"

datatype candidate_type = Host | Srflx | Prflx | Relay | Unspecified

fun describe_candidate_type :: "candidate_type \<Rightarrow> string" where
  "describe_candidate_type Host = ''host''"
| "describe_candidate_type Srflx = ''srflx''"
| "describe_candidate_type Prflx = ''prflx''"
| "describe_candidate_type Relay = ''relay''"
| "describe_candidate_type Unspecified = ''unknown''"

definition connection_path :: "candidate_type \<Rightarrow> candidate_type \<Rightarrow> string" where
  "connection_path l r =
     (let local_kind = describe_candidate_type l; remote_kind = describe_candidate_type r in
      if local_kind = ''host'' \<and> remote_kind = ''host'' then ''LAN direct''
      else if local_kind = ''relay'' \<or> remote_kind = ''relay'' then ''TURN relay''
      else if local_kind = ''srflx'' \<or> remote_kind = ''srflx'' then ''STUN-aided direct (P2P over NAT)''
      else if local_kind = ''prflx'' \<or> remote_kind = ''prflx'' then ''peer-reflexive direct''
      else ''unknown'')"

section \<open>The track reader\<close>

text \<open>One task per track: it forwards packets until a read fails or the session's channel is gone.\<close>

fun track_reader :: "(string + 'p \<times> bool) list \<Rightarrow> 'p list" where
  "track_reader [] = []"
| "track_reader (Inl e # rs) = []"
| "track_reader (Inr (pkt, chan_open) # rs) = (if chan_open then pkt # track_reader rs else [])"

section \<open>The session driver\<close>

text \<open>The outbound channel holds 32 signals; the factory creates it. The candidate callbacks and
  \<open>handle_signal\<close> put signals in, and only the driver loop, which also runs \<open>handle_signal\<close>, takes
  them out. A callback that finds the channel full waits, and gets the first place that becomes free; a
  reply that finds it full leaves the loop waiting for itself.\<close>

definition signal_capacity :: nat where "signal_capacity = 32"

datatype session_input =
    Signaling signaling_event
  | SignalingEnd
  | Gathered "candidate option"   \<comment> \<open>the candidate callback\<close>
  | Outgoing                      \<comment> \<open>the outbound branch is polled\<close>

record session_driver =
  sd_session :: webrtc_session
  sd_queue :: "webrtc_signal list"
  sd_waiting :: "webrtc_signal list"   \<comment> \<open>of the callbacks that wait, first come first served\<close>
  sd_sent :: "outbound list"
  sd_running :: bool
  sd_blocked :: bool

definition driver_start :: "webrtc_session \<Rightarrow> session_driver" where
  "driver_start st = \<lparr>sd_session = st, sd_queue = [], sd_waiting = [], sd_sent = [], sd_running = True, sd_blocked = False\<rparr>"

definition enqueue_reply :: "webrtc_signal list \<Rightarrow> session_driver \<Rightarrow> session_driver" where
  "enqueue_reply out sd =
     (if out \<noteq> [] \<and> signal_capacity \<le> length (sd_queue sd) then sd\<lparr>sd_blocked := True\<rparr>
      else sd\<lparr>sd_queue := sd_queue sd @ out\<rparr>)"

fun session_turn ::
  "prost \<Rightarrow> peer \<Rightarrow> bool \<Rightarrow> session_driver \<Rightarrow> session_input \<Rightarrow> session_driver outcome"
where
  "session_turn px peer sink_open sd (Signaling (EvWebRtc signal)) =
     obind (handle_signal px peer True (sd_session sd) signal) (\<lambda>(st, r).
       Ret (enqueue_reply (case r of Inl _ \<Rightarrow> [] | Inr out \<Rightarrow> out) (sd\<lparr>sd_session := st\<rparr>)))"
| "session_turn px peer sink_open sd (Signaling (EvClosed reason)) = Ret (sd\<lparr>sd_running := False\<rparr>)"
| "session_turn px peer sink_open sd (Signaling _) = Ret sd"
| "session_turn px peer sink_open sd SignalingEnd = Ret (sd\<lparr>sd_running := False\<rparr>)"
| "session_turn px peer sink_open sd (Gathered c) =
     obind (on_ice_candidate px (sd_session sd) c) (\<lambda>out.
       Ret (if signal_capacity \<le> length (sd_queue sd) then sd\<lparr>sd_waiting := sd_waiting sd @ out\<rparr>
            else sd\<lparr>sd_queue := sd_queue sd @ out\<rparr>))"
| "session_turn px peer sink_open sd Outgoing =
     (case sd_queue sd of
        [] \<Rightarrow> Ret sd
      | signal # rest \<Rightarrow>
          let sd1 = sd\<lparr>sd_queue := rest @ take 1 (sd_waiting sd), sd_waiting := drop 1 (sd_waiting sd)\<rparr>
          in obind (send_webrtc px sink_open signal) (\<lambda>r.
               Ret (case r of
                      Inl _ \<Rightarrow> sd1\<lparr>sd_running := False\<rparr>
                    | Inr out \<Rightarrow> sd1\<lparr>sd_sent := sd_sent sd @ [out]\<rparr>)))"

fun run_session ::
  "prost \<Rightarrow> peer \<Rightarrow> bool \<Rightarrow> session_driver \<Rightarrow> session_input list \<Rightarrow> session_driver outcome"
where
  "run_session px peer sink_open sd [] = Ret sd"
| "run_session px peer sink_open sd (i # is) =
     (if \<not> sd_running sd \<or> sd_blocked sd then Ret sd
      else obind (session_turn px peer sink_open sd i) (\<lambda>sd'. run_session px peer sink_open sd' is))"

section \<open>Trickled candidates\<close>

text \<open>The candidates of the signals handled so far, in order.\<close>

definition candidates_of :: "prost \<Rightarrow> webrtc_signal \<Rightarrow> candidate list" where
  "candidates_of px signal =
     (if ws_msg_type signal = 4 then
        (case dec_candidate px (ws_body signal) of None \<Rightarrow> [] | Some b \<Rightarrow> [candidate_of_body b]) else [])"

text \<open>A sequence of signals, each with what the peer connection answers while it is handled and whether
  the outbound channel is open then.\<close>

fun handle_all ::
  "prost \<Rightarrow> webrtc_session \<Rightarrow> (peer \<times> bool \<times> webrtc_signal) list \<Rightarrow> webrtc_session outcome"
where
  "handle_all px st [] = Ret st"
| "handle_all px st ((peer, chan_open, s) # ss) =
     obind (handle_signal px peer chan_open st s) (\<lambda>(st', r). handle_all px st' ss)"

definition received_candidates :: "prost \<Rightarrow> (peer \<times> bool \<times> webrtc_signal) list \<Rightarrow> candidate list" where
  "received_candidates px steps = concat (map (\<lambda>(peer, chan_open, s). candidates_of px s) steps)"

definition refuses_unstored :: "peer \<times> bool \<times> webrtc_signal \<Rightarrow> bool" where
  "refuses_unstored x \<longleftrightarrow> (case x of (peer, chan_open, s) \<Rightarrow> RefusedStored \<notin> range (peer_set_remote peer))"

definition ice_ok :: "candidate list \<Rightarrow> webrtc_session \<Rightarrow> bool" where
  "ice_ok received st \<longleftrightarrow> mset (ws_handed st @ ws_pending_ice st) = mset received
     \<and> (ws_remote st = None \<longrightarrow> ws_handed st = [] \<and> ws_pending_ice st = received)"

definition ice_in_order :: "candidate list \<Rightarrow> webrtc_session \<Rightarrow> bool" where
  "ice_in_order received st \<longleftrightarrow> ws_handed st @ ws_pending_ice st = received
     \<and> (ws_remote st \<noteq> None \<longrightarrow> ws_pending_ice st = [])"

text \<open>What a signal does to the session: nothing, an offer stored and drained, an offer stored only, a
  candidate handed over or buffered.\<close>

lemma offer_moves:
  assumes "on_offer px peer chan_open st body = Ret (st', r)"
  shows "st' = st \<or> st' = drain_pending (st\<lparr>ws_remote := Some (sb_sdp body)\<rparr>) \<or>
         (peer_set_remote peer (sb_sdp body) = RefusedStored \<and> st' = st\<lparr>ws_remote := Some (sb_sdp body)\<rparr>)"
  using assms by (auto simp: on_offer_def Let_def split: option.splits if_splits remote_reply.splits)

lemma handle_signal_moves:
  assumes "handle_signal px peer chan_open st signal = Ret (st', r)"
  obtains (offer) body where "candidates_of px signal = []" "on_offer px peer chan_open st body = Ret (st', r)"
  | (cand) init where "candidates_of px signal = [init]" "st' = fst (on_candidate peer st init)"
  | (other) "candidates_of px signal = []" "st' = st"
proof -
  consider "ws_msg_type signal = 3" | "ws_msg_type signal = 4" | "ws_msg_type signal \<notin> {3, 4}" by auto
  then show thesis
  proof cases
    case 1
    then have "candidates_of px signal = []" by (simp add: candidates_of_def)
    with assms 1 offer other show thesis by (auto simp: handle_signal_def split: option.splits)
  next
    case 2
    with assms have "candidates_of px signal = [] \<and> st' = st \<or>
        (\<exists>init. candidates_of px signal = [init] \<and> st' = fst (on_candidate peer st init))"
      by (auto simp: handle_signal_def candidates_of_def split: option.splits)
    with cand other show thesis by blast
  next
    case 3
    then have "candidates_of px signal = []" "st' = st"
      using assms by (auto simp: handle_signal_def candidates_of_def)
    then show thesis by (rule other)
  qed
qed

lemma handle_signal_ice:
  assumes "handle_signal px peer chan_open st signal = Ret (st', r)"
  shows "ice_ok cs st \<Longrightarrow> ice_ok (cs @ candidates_of px signal) st'"
    and "refuses_unstored (peer, chan_open, signal) \<Longrightarrow> ice_in_order cs st \<Longrightarrow>
         ice_in_order (cs @ candidates_of px signal) st'"
proof -
  show "ice_ok (cs @ candidates_of px signal) st'" if "ice_ok cs st"
    using assms
  proof (cases rule: handle_signal_moves)
    case (offer body)
    with offer_moves [OF offer(2)] that show ?thesis by (auto simp: ice_ok_def drain_pending_def)
  qed (use that in \<open>auto simp: ice_ok_def on_candidate_def\<close>)
  assume o: "refuses_unstored (peer, chan_open, signal)" "ice_in_order cs st"
  then have never: "peer_set_remote peer sdp \<noteq> RefusedStored" for sdp
    by (metis (mono_tags) refuses_unstored_def case_prod_conv rangeI)
  show "ice_in_order (cs @ candidates_of px signal) st'"
    using assms
  proof (cases rule: handle_signal_moves)
    case (offer body)
    with offer_moves [OF offer(2)] o(2) never show ?thesis by (auto simp: ice_in_order_def drain_pending_def)
  qed (use o(2) in \<open>auto simp: ice_in_order_def on_candidate_def\<close>)
qed

lemma handle_all_ice:
  "handle_all px st steps = Ret st' \<Longrightarrow> ice_ok cs st \<Longrightarrow> ice_ok (cs @ received_candidates px steps) st'"
  "handle_all px st steps = Ret st' \<Longrightarrow> list_all refuses_unstored steps \<Longrightarrow> ice_in_order cs st \<Longrightarrow>
   ice_in_order (cs @ received_candidates px steps) st'"
proof (induction px st steps arbitrary: cs rule: handle_all.induct)
  case (2 px st peer chan_open s ss)
  {
    case 1
    then obtain st1 r where "handle_signal px peer chan_open st s = Ret (st1, r)" "handle_all px st1 ss = Ret st'"
      by (auto simp: obind_Ret_iff)
    with handle_signal_ice(1) [OF this(1) 1(2)] "2.IH"(1) show ?case
      by (fastforce simp: received_candidates_def)
  next
    case 2
    then obtain st1 r where "handle_signal px peer chan_open st s = Ret (st1, r)" "handle_all px st1 ss = Ret st'"
      by (auto simp: obind_Ret_iff)
    with handle_signal_ice(2) [OF this(1) _ 2(3)] 2(2) "2.IH"(2) show ?case
      by (fastforce simp: received_candidates_def)
  }
qed (simp_all add: received_candidates_def)

text \<open>C17. No trickled candidate is lost or duplicated: after any sequence of inbound signals, whatever the
  peer connection answers to each call, failed offers and undecodable bodies included, the
  candidates given to it and the buffered ones together are exactly those received; as long as
  there is no remote description all of them are buffered, in order. If a description that is
  refused is not stored either, the candidates given followed by the buffered ones are those
  received in the order of their arrival, and nothing stays buffered once there is a remote
  description. Without that they can be stranded and overtaken (\<open>refused_offer_strands\<close>).\<close>

theorem trickle_ice_order:
  assumes "handle_all px (webrtc_session_new token sid) steps = Ret st"
  shows "mset (ws_handed st @ ws_pending_ice st) = mset (received_candidates px steps) \<and>
         (ws_remote st = None \<longrightarrow> ws_handed st = [] \<and> ws_pending_ice st = received_candidates px steps) \<and>
         (list_all refuses_unstored steps \<longrightarrow>
            ws_handed st @ ws_pending_ice st = received_candidates px steps \<and>
            (ws_remote st \<noteq> None \<longrightarrow> ws_pending_ice st = []))"
proof -
  have "ice_ok [] (webrtc_session_new token sid)" "ice_in_order [] (webrtc_session_new token sid)"
    by (simp_all add: ice_ok_def ice_in_order_def webrtc_session_new_def)
  from handle_all_ice(1) [OF assms this(1)] handle_all_ice(2) [OF assms _ this(2)] show ?thesis
    by (simp add: ice_ok_def ice_in_order_def)
qed

definition echo_prost :: prost where
  "echo_prost = sample_prost\<lparr>dec_sdp := (\<lambda>b. Some \<lparr>sb_sdp = of_bytes b, sb_mid = ''0''\<rparr>),
     dec_candidate := (\<lambda>b. Some \<lparr>cb_candidate = of_bytes b, cb_stream_id = ''0''\<rparr>)\<rparr>"

definition willing_peer :: peer where
  "willing_peer = \<lparr>peer_offer = (\<lambda>_. True), peer_set_remote = (\<lambda>_. Accepted), peer_add_ice = (\<lambda>_. True),
     peer_create_answer = Some ''v=0'', peer_set_local = (\<lambda>_. True)\<rparr>"

definition inbound_signal :: "u32 \<Rightarrow> bytes \<Rightarrow> webrtc_signal" where
  "inbound_signal kind body = signal_default\<lparr>ws_msg_type := kind, ws_body := body\<rparr>"

definition sample_steps :: "(peer \<times> bool \<times> webrtc_signal) list" where
  "sample_steps = map (\<lambda>s. (willing_peer, True, s)) [inbound_signal 4 [1], inbound_signal 3 [9], inbound_signal 4 [2]]"

lemmas sample_step_defs = handle_signal_def inbound_signal_def signal_default_def echo_prost_def sample_prost_def
  on_offer_def on_candidate_def willing_peer_def webrtc_session_new_def drain_pending_def Let_def

theorem trickle_ice_order_witness:
  "\<exists>st. handle_all echo_prost (webrtc_session_new ''t'' ''s'') sample_steps = Ret st \<and>
    ws_remote st = Some [CHR 0x09] \<and> ws_handed st = received_candidates echo_prost sample_steps"
proof -
  obtain st where st: "handle_all echo_prost (webrtc_session_new ''t'' ''s'') sample_steps = Ret st"
    "ws_remote st = Some (of_bytes [9])"
    by (simp add: sample_steps_def sample_step_defs)
  have "list_all refuses_unstored sample_steps"
    by (simp add: sample_steps_def refuses_unstored_def willing_peer_def image_def)
  moreover have "of_bytes [9] = [CHR 0x09]" by code_simp
  ultimately show ?thesis using trickle_ice_order [OF st(1)] st by auto
qed

text \<open>The early candidate is left behind when the offer that follows it is refused after it was stored: the
  next candidate goes straight to the peer connection, and the early one waits for another offer.\<close>

lemma refused_offer_strands:
  "\<exists>st. handle_all echo_prost (webrtc_session_new ''t'' ''s'')
      [(willing_peer, True, inbound_signal 4 [1]),
       (willing_peer\<lparr>peer_set_remote := (\<lambda>_. RefusedStored)\<rparr>, True, inbound_signal 3 [9]),
       (willing_peer, True, inbound_signal 4 [2])] = Ret st \<and>
     ws_remote st \<noteq> None \<and> map cand_line (ws_handed st) = [of_bytes [2]] \<and>
     map cand_line (ws_pending_ice st) = [of_bytes [1]]"
proof -
  have "strip_prefix ''a='' (of_bytes [1]) = None" "strip_prefix ''a='' (of_bytes [2]) = None" by code_simp+
  then show ?thesis by (simp add: sample_step_defs candidate_of_body_def)
qed

section \<open>ICE servers\<close>

definition ice_server_valid :: "rtc_ice_server \<Rightarrow> bool" where
  "ice_server_valid s \<longleftrightarrow>
     (\<exists>u. rtc_urls s = [u] \<and> CHR ''?'' \<notin> set u \<and>
        (\<not> is_turn u \<longrightarrow> rtc_username s = [] \<and> rtc_credential s = []))"

lemma prefix_takeWhile:
  "\<forall>c\<in>set p. P c \<Longrightarrow> prefix p (takeWhile P xs) \<longleftrightarrow> prefix p xs"
proof (induction p arbitrary: xs)
  case (Cons c p)
  then show ?case by (cases xs) auto
qed simp

lemma is_turn_clean: "is_turn (hd (split_on CHR ''?'' url)) = is_turn url"
  by (simp add: is_turn_def hd_split_on prefix_takeWhile)

lemma rtc_urls_entries:
  "concat (map rtc_urls (map (rtc_entry u c) urls)) = map (takeWhile (\<lambda>c. c \<noteq> CHR ''?'')) urls"
  by (induction urls) (simp_all add: rtc_entry_def hd_split_on)

lemma rtc_urls_concat:
  "concat (map rtc_urls (concat (map (\<lambda>s. map (rtc_entry (f s) (g s)) (h s)) ss))) =
   concat (map (\<lambda>s. map (takeWhile (\<lambda>c. c \<noteq> CHR ''?'')) (h s)) ss)"
  using rtc_urls_entries by (induction ss) simp_all

text \<open>The ICE servers given to the peer connection satisfy what the webrtc crate asks of them: one
  URL each, without a query string, in the order of the configuration; the credentials of an entry
  go to its TURN URLs and to no other.\<close>

theorem ice_servers_valid:
  "list_all ice_server_valid (rtc_ice_servers cfg) \<and>
   concat (map rtc_urls (rtc_ice_servers cfg)) =
     concat (map (\<lambda>s. map (takeWhile (\<lambda>c. c \<noteq> CHR ''?'')) (url_list (isc_urls s))) (wc_ice_servers cfg)) \<and>
   (\<forall>s\<in>set (wc_ice_servers cfg). \<forall>url\<in>set (url_list (isc_urls s)). is_turn url \<longrightarrow>
      (\<forall>u c. isc_username s = Some u \<and> isc_credential s = Some c \<longrightarrow>
        \<lparr>rtc_urls = [takeWhile (\<lambda>c. c \<noteq> CHR ''?'') url], rtc_username = u, rtc_credential = c\<rparr>
          \<in> set (rtc_ice_servers cfg)))"
proof (intro conjI)
  have "ice_server_valid (rtc_entry u c url)" for u c url
    unfolding ice_server_valid_def
    using is_turn_clean [of url] split_on_pieces [of "hd (split_on CHR ''?'' url)" "CHR ''?''" url]
    by (auto simp: rtc_entry_def)
  then show "list_all ice_server_valid (rtc_ice_servers cfg)"
    by (auto simp: rtc_ice_servers_def list_all_iff)
  show "concat (map rtc_urls (rtc_ice_servers cfg)) =
      concat (map (\<lambda>s. map (takeWhile (\<lambda>c. c \<noteq> CHR ''?'')) (url_list (isc_urls s))) (wc_ice_servers cfg))"
    unfolding rtc_ice_servers_def by (rule rtc_urls_concat)
  show "\<forall>s\<in>set (wc_ice_servers cfg). \<forall>url\<in>set (url_list (isc_urls s)). is_turn url \<longrightarrow>
      (\<forall>u c. isc_username s = Some u \<and> isc_credential s = Some c \<longrightarrow>
        \<lparr>rtc_urls = [takeWhile (\<lambda>c. c \<noteq> CHR ''?'') url], rtc_username = u, rtc_credential = c\<rparr>
          \<in> set (rtc_ice_servers cfg))"
    by (force simp: rtc_ice_servers_def rtc_entry_def hd_split_on)
qed

definition sample_config :: webrtc_config where
  "sample_config = \<lparr>wc_ice_servers = [\<lparr>isc_urls = JArr [JStr ''turn:h:1?transport=udp'', JStr ''stun:h:2''],
       isc_username = Some ''u'', isc_credential = Some ''c''\<rparr>], wc_ttl_seconds = 300\<rparr>"

theorem ice_servers_valid_witness:
  "\<lparr>rtc_urls = [''turn:h:1''], rtc_username = ''u'', rtc_credential = ''c''\<rparr> \<in> set (rtc_ice_servers sample_config)"
proof -
  have "is_turn ''turn:h:1?transport=udp''" "takeWhile (\<lambda>c. c \<noteq> CHR ''?'') ''turn:h:1?transport=udp'' = ''turn:h:1''"
    by code_simp+
  with ice_servers_valid [of sample_config] show ?thesis
    by (simp add: sample_config_def List.map_filter_def)
qed

section \<open>A full outbound channel\<close>

text \<open>The driver can wait for itself: if an offer is answered while 32 locally gathered candidates
  are still in the outbound channel, the reply blocks the only task that empties it; from then on
  no input is handled, nothing is sent, and the driver does not return.\<close>

theorem full_channel_blocks:
  assumes "sd_running sd" and "\<not> sd_blocked sd" and "length (sd_queue sd) = signal_capacity"
    and "handle_signal px peer True (sd_session sd) signal = Ret (st, Inr [reply])"
  shows "run_session px peer sink_open sd (Signaling (EvWebRtc signal) # is) =
         Ret (sd\<lparr>sd_session := st, sd_blocked := True\<rparr>)"
proof -
  have "run_session px peer sink_open (sd\<lparr>sd_session := st, sd_blocked := True\<rparr>) is =
      Ret (sd\<lparr>sd_session := st, sd_blocked := True\<rparr>)"
    by (cases "is") simp_all
  with assms show ?thesis by (simp add: enqueue_reply_def)
qed

definition gathered :: webrtc_signal where
  "gathered = inbound_signal 4 [6]"

definition crowded :: session_driver where
  "crowded = (driver_start (webrtc_session_new ''t'' ''s''))\<lparr>sd_queue := replicate 32 gathered\<rparr>"

theorem full_channel_blocks_witness:
  "\<exists>st. run_session echo_prost willing_peer True crowded [Signaling (EvWebRtc (inbound_signal 3 [9])), Outgoing] =
     Ret (crowded\<lparr>sd_session := st, sd_blocked := True\<rparr>)"
proof -
  have "\<exists>st reply. handle_signal echo_prost willing_peer True (sd_session crowded) (inbound_signal 3 [9]) =
      Ret (st, Inr [reply])"
    by (simp add: handle_signal_def inbound_signal_def signal_default_def echo_prost_def sample_prost_def
        on_offer_def willing_peer_def crowded_def driver_start_def webrtc_session_new_def Let_def)
  then obtain st reply where "handle_signal echo_prost willing_peer True (sd_session crowded)
      (inbound_signal 3 [9]) = Ret (st, Inr [reply])" by blast
  moreover have "sd_running crowded" "\<not> sd_blocked crowded" "length (sd_queue crowded) = signal_capacity"
    by (simp_all add: crowded_def driver_start_def signal_capacity_def)
  ultimately show ?thesis using full_channel_blocks by blast
qed

end
