(* ===== verification/Factory.thy ===== *)
theory Factory
  imports WebRtcSession Supervisor RtspServer
begin

text \<open>
  The stream factory (\<open>src/supervisor/webrtc_factory.rs\<close>) and the registry of the live outbound
  channel (\<open>src/live_outbound.rs\<close>). A session is known by the number of its stop handle, as in
  \<open>Supervisor\<close>. What the stages before the session answer is the record \<open>attempt\<close>.
\<close>

section \<open>The live outbound registry\<close>

text \<open>The session whose outbound channel is registered, and the clear tasks spawned but not yet run.\<close>

record registry =
  rg_live :: "nat option"
  rg_clears :: nat

definition registry_empty :: registry where
  "registry_empty = \<lparr>rg_live = None, rg_clears = 0\<rparr>"

definition register_live :: "nat \<Rightarrow> registry \<Rightarrow> registry" where
  "register_live sid reg = reg\<lparr>rg_live := Some sid\<rparr>"

text \<open>Dropping a stop handle spawns one clear; the task, when it runs, empties the registry.\<close>

definition joiner_drop :: "registry \<Rightarrow> registry" where
  "joiner_drop reg = reg\<lparr>rg_clears := rg_clears reg + 1\<rparr>"

definition clear_task :: "registry \<Rightarrow> registry" where
  "clear_task reg = (if rg_clears reg = 0 then reg
     else reg\<lparr>rg_live := None, rg_clears := rg_clears reg - 1\<rparr>)"

section \<open>Waiting until the peer is ready\<close>

text \<open>One turn of the polling loop: has the session ended, the remote description, the state.\<close>

record ready_poll =
  po_ended :: bool
  po_remote :: "string option"
  po_state :: pc_state

definition poll_result :: "ready_poll \<Rightarrow> (source_error + h264_params) option" where
  "poll_result p =
     (if po_ended p then Some (Inl (Unavailable ''session ended before WebRTC was ready''))
      else
        (case po_state p of
           PcFailed \<Rightarrow> Some (Inl (Unavailable ''peer connection failed before WebRTC was ready''))
         | PcClosed \<Rightarrow> Some (Inl (Unavailable ''peer connection failed before WebRTC was ready''))
         | PcConnected \<Rightarrow>
             (case Option.bind (po_remote p) extract_h264_params of
                None \<Rightarrow> None | Some params \<Rightarrow> Some (Inr params))
         | _ \<Rightarrow> None))"

text \<open>The polls that fit into 15 seconds, one every 100 milliseconds.\<close>

fun wait_for_ready :: "ready_poll list \<Rightarrow> source_error + h264_params" where
  "wait_for_ready [] = Inl (Unavailable ''WebRTC did not connect with H.264 within 15s'')"
| "wait_for_ready (p # ps) = (case poll_result p of None \<Rightarrow> wait_for_ready ps | Some r \<Rightarrow> r)"

section \<open>connect\<close>

record attempt =
  at_token :: "string + string"
  at_config :: "string + webrtc_config"
  at_signaling :: "string + string"      \<comment> \<open>the assigned session id\<close>
  at_session :: "string + unit"
  at_polls :: "ready_poll list"

definition stage :: "string \<Rightarrow> string + 'a \<Rightarrow> source_error + 'a" where
  "stage what r = map_err (\<lambda>e. Unavailable (what @ '': '' @ e)) r"

text \<open>The stages up to the peer connection; from there on a failure tears the session down, its
  registration included.\<close>

definition connect_stages :: "attempt \<Rightarrow> source_error + string" where
  "connect_stages a =
     rbind (stage ''auth'' (at_token a)) (\<lambda>_.
     rbind (stage ''webrtc-config'' (at_config a)) (\<lambda>_.
     rbind (stage ''signaling'' (at_signaling a)) (\<lambda>sid.
     rbind (stage ''session'' (at_session a)) (\<lambda>_. Inr sid))))"

definition factory_connect :: "attempt \<Rightarrow> nat \<Rightarrow> registry \<Rightarrow> (source_error + h264_params) \<times> registry" where
  "factory_connect a sid reg =
     (case connect_stages a of
        Inl e \<Rightarrow> (Inl e, reg)
      | Inr _ \<Rightarrow>
          (let reg1 = register_live sid reg in
           case wait_for_ready (at_polls a) of
             Inl e \<Rightarrow> (Inl e, joiner_drop reg1)
           | Inr params \<Rightarrow> (Inr params, reg1)))"

section \<open>The tasks of a session\<close>

datatype end_cause = DriverReturned | PeerTerminated | Killed

text \<open>Whether the driver task reports the end of its session; otherwise the sender is dropped.\<close>

fun reports_end :: "end_cause \<Rightarrow> bool" where
  "reports_end DriverReturned = True"
| "reports_end PeerTerminated = True"
| "reports_end Killed = False"

text \<open>What the driver task does on its way out: it closes the peer connection, for at most ten seconds
  and whatever comes of it, and then reports the end, unless it was told to stop.\<close>

datatype close_result = CloseOk | CloseError | CloseTimeout

datatype task_effect = ClosePeer nat | SendEnded

definition pc_close_timeout :: nat where "pc_close_timeout = secs 10"

definition driver_exit :: "end_cause \<Rightarrow> close_result \<Rightarrow> task_effect list" where
  "driver_exit cause r = ClosePeer pc_close_timeout # (if reports_end cause then [SendEnded] else [])"

record forwarder =
  fw_received :: u64
  fw_delivered :: u64

datatype forward_input = FromSession bool | StatsTick   \<comment> \<open>a packet, and whether anyone receives it\<close>

fun forward_packet :: "forwarder \<Rightarrow> forward_input \<Rightarrow> forwarder" where
  "forward_packet f (FromSession heard) =
     f\<lparr>fw_received := fw_received f + 1, fw_delivered := (if heard then fw_delivered f + 1 else fw_delivered f)\<rparr>"
| "forward_packet f StatsTick = f"

section \<open>Properties\<close>

lemma poll_result_Inr:
  "poll_result p = Some (Inr params) \<longleftrightarrow>
   \<not> po_ended p \<and> po_state p = PcConnected \<and> Option.bind (po_remote p) extract_h264_params = Some params"
  by (auto simp: poll_result_def split: pc_state.split option.split)

lemma wait_for_ready_split:
  "\<forall>p\<in>set ps. poll_result p = None \<Longrightarrow> wait_for_ready (ps @ qs) = wait_for_ready qs"
  by (induction ps) auto

lemma wait_for_ready_Inr:
  "wait_for_ready ps = Inr params \<longleftrightarrow>
   (\<exists>before p after. ps = before @ p # after \<and> (\<forall>q\<in>set before. poll_result q = None) \<and>
      poll_result p = Some (Inr params))"
proof
  show "wait_for_ready ps = Inr params \<Longrightarrow>
    \<exists>before p after. ps = before @ p # after \<and> (\<forall>q\<in>set before. poll_result q = None) \<and>
      poll_result p = Some (Inr params)"
  proof (induction ps)
    case (Cons p ps)
    show ?case
    proof (cases "poll_result p")
      case None
      with Cons obtain before q after where "ps = before @ q # after"
        "\<forall>q\<in>set before. poll_result q = None" "poll_result q = Some (Inr params)" by auto
      with None show ?thesis by (intro exI [of _ "p # before"]) auto
    next
      case (Some r)
      with Cons.prems show ?thesis by (intro exI [of _ "[]"]) auto
    qed
  qed simp
qed (auto simp: wait_for_ready_split)

text \<open>C25. A connect attempt succeeds only on a live peer with H.264: if \<open>connect\<close> returns parameters,
  every stage succeeded, some poll saw the peer connection in state Connected with a remote
  description whose H.264 parameters these are, the session had not ended at that poll, and no
  earlier poll had seen it end or the peer fail.\<close>

theorem connect_means_connected:
  assumes "factory_connect a sid reg = (Inr params, reg')"
  shows "(\<exists>token cfg sg. at_token a = Inr token \<and> at_config a = Inr cfg \<and> at_signaling a = Inr sg
            \<and> at_session a = Inr ()) \<and> rg_live reg' = Some sid \<and>
         (\<exists>before p after sdp. at_polls a = before @ p # after \<and> \<not> po_ended p \<and> po_state p = PcConnected \<and>
            po_remote p = Some sdp \<and> extract_h264_params sdp = Some params \<and>
            list_all (\<lambda>q. \<not> po_ended q \<and> po_state q \<noteq> PcFailed \<and> po_state q \<noteq> PcClosed) before)"
proof -
  obtain x where st: "connect_stages a = Inr x" and w: "wait_for_ready (at_polls a) = Inr params"
    and reg: "reg' = register_live sid reg"
    using assms by (auto simp: factory_connect_def Let_def split: sum.splits)
  have stages: "\<exists>token cfg sg. at_token a = Inr token \<and> at_config a = Inr cfg \<and> at_signaling a = Inr sg
      \<and> at_session a = Inr ()"
    using st by (auto simp: connect_stages_def stage_def rbind_Inr_iff map_err_def split: sum.splits)
  obtain before p after where p: "at_polls a = before @ p # after"
    "\<forall>q\<in>set before. poll_result q = None" "poll_result p = Some (Inr params)"
    using w by (auto simp: wait_for_ready_Inr)
  have "list_all (\<lambda>q. \<not> po_ended q \<and> po_state q \<noteq> PcFailed \<and> po_state q \<noteq> PcClosed) before"
    using p(2) by (auto simp: list_all_iff poll_result_def split: if_splits)
  with stages p reg show ?thesis
    by (auto simp: poll_result_Inr register_live_def bind_eq_Some_conv)
qed

definition ready_attempt :: attempt where
  "ready_attempt = \<lparr>at_token = Inr ''jwt'', at_config = Inr sample_config, at_signaling = Inr ''sid'',
     at_session = Inr (),
     at_polls = [\<lparr>po_ended = False, po_remote = None, po_state = PcConnecting\<rparr>,
       \<lparr>po_ended = False, po_remote = Some (build_sdp ''cam'' default_params), po_state = PcConnected\<rparr>]\<rparr>"

lemma ready_attempt_connects:
  "factory_connect ready_attempt sid reg = (Inr default_params, register_live sid reg)"
proof -
  have "extract_h264_params (build_sdp ''cam'' default_params) = Some default_params"
    by (rule extract_built_sdp) (simp add: default_params_def sdp_ok_def param_ok_def solid_def)
  then show ?thesis
    by (simp add: factory_connect_def connect_stages_def stage_def ready_attempt_def poll_result_def)
qed

theorem connect_means_connected_witness:
  "\<exists>before p after sdp. at_polls ready_attempt = before @ p # after \<and> \<not> po_ended p \<and> po_state p = PcConnected \<and>
     po_remote p = Some sdp \<and> extract_h264_params sdp = Some default_params"
  using connect_means_connected [OF ready_attempt_connects [of 1 registry_empty]] by blast

end
