(* ===== verification/Config.thy ===== *)
theory Config
  imports Hub RtspSession Factory
begin

text \<open>
  Configuration and start-up: \<open>Config::from_env\<close> (\<open>src/config.rs\<close>), the decisions of \<open>src/main.rs\<close> that
  are not wiring, the metrics task (\<open>src/metrics.rs\<close>) and redaction (\<open>src/tracing_redact.rs\<close>). The
  environment maps names to values; a value that is not Unicode reads as unset. \<open>parse_url\<close> is the
  \<open>url\<close> crate.
\<close>

type_synonym environment = "string \<Rightarrow> string option"

datatype config_error = Missing string | Invalid string

record config =
  cf_prusa_email :: string
  cf_prusa_password :: string
  cf_prusa_printer_uuid :: "string option"
  cf_prusa_camera_id :: "string option"
  cf_rtsp_port :: u16
  cf_rtsp_path :: "string option"
  cf_rtsp_bind_addr :: string
  cf_idle_timeout :: nat
  cf_token_store_path :: string
  cf_health_port :: u16
  cf_metrics_interval :: nat
  cf_mqtt_broker_url :: "broker_url option"
  cf_mqtt_username :: "string option"
  cf_mqtt_password :: "string option"
  cf_mqtt_client_id :: "string option"
  cf_mqtt_discovery_prefix :: string
  cf_mqtt_topic_prefix :: string
  cf_snapshot_interval :: nat
  cf_snapshot_max_width :: u32
  cf_snapshot_jpeg_quality :: u8

section \<open>Reading the environment\<close>

definition env_req :: "environment \<Rightarrow> string \<Rightarrow> config_error + string" where
  "env_req env k = ok_or (Missing k) (env k)"

definition env_opt :: "environment \<Rightarrow> string \<Rightarrow> string option" where
  "env_opt env k = (case env k of None \<Rightarrow> None | Some v \<Rightarrow> if v = [] then None else Some v)"

definition env_default :: "environment \<Rightarrow> string \<Rightarrow> string \<Rightarrow> string" where
  "env_default env k d = (case env_opt env k of None \<Rightarrow> d | Some v \<Rightarrow> v)"

text \<open>The four number parsers differ in their maximum only.\<close>

definition env_number :: "environment \<Rightarrow> nat \<Rightarrow> string \<Rightarrow> nat \<Rightarrow> config_error + nat" where
  "env_number env mx k d =
     (case env k of None \<Rightarrow> Inr d | Some v \<Rightarrow> ok_or (Invalid k) (parse_uint mx v))"

definition env_mqtt_url ::
  "(string \<Rightarrow> broker_url option) \<Rightarrow> environment \<Rightarrow> string \<Rightarrow> config_error + broker_url option"
where
  "env_mqtt_url parse_url env k =
     (case env_opt env k of
        None \<Rightarrow> Inr None
      | Some raw \<Rightarrow>
          rbind (ok_or (Invalid k) (parse_url raw)) (\<lambda>url.
            if bu_scheme url \<noteq> ''mqtt'' \<and> bu_scheme url \<noteq> ''mqtts'' then Inl (Invalid k)
            else if bu_host url = None then Inl (Invalid k)
            else Inr (Some url)))"

text \<open>The fields are read in the order of the struct; the first error wins.\<close>

definition from_env :: "(string \<Rightarrow> broker_url option) \<Rightarrow> environment \<Rightarrow> config_error + config" where
  "from_env parse_url env =
     rbind (env_req env ''PRUSA_EMAIL'') (\<lambda>email.
     rbind (env_req env ''PRUSA_PASSWORD'') (\<lambda>password.
     rbind (env_number env u16_max ''RTSP_PORT'' 8554) (\<lambda>rtsp_port.
     rbind (env_number env u64_max ''IDLE_TIMEOUT_SECONDS'' 60) (\<lambda>idle.
     rbind (env_number env u16_max ''HEALTH_PORT'' 8080) (\<lambda>health_port.
     rbind (env_number env u64_max ''METRICS_INTERVAL_SECONDS'' 60) (\<lambda>metrics.
     rbind (env_mqtt_url parse_url env ''MQTT_BROKER_URL'') (\<lambda>broker.
     rbind (env_number env u64_max ''SNAPSHOT_INTERVAL_SECONDS'' 10) (\<lambda>snap.
     rbind (env_number env u32_max ''SNAPSHOT_MAX_WIDTH'' 1920) (\<lambda>width.
     rbind (env_number env u8_max ''SNAPSHOT_JPEG_QUALITY'' 75) (\<lambda>quality.
       Inr \<lparr>cf_prusa_email = email, cf_prusa_password = password,
            cf_prusa_printer_uuid = env_opt env ''PRUSA_PRINTER_UUID'',
            cf_prusa_camera_id = env_opt env ''PRUSA_CAMERA_ID'',
            cf_rtsp_port = of_nat rtsp_port, cf_rtsp_path = env_opt env ''RTSP_PATH'',
            cf_rtsp_bind_addr = env_default env ''RTSP_BIND_ADDR'' ''0.0.0.0'',
            cf_idle_timeout = secs idle,
            cf_token_store_path = env_default env ''TOKEN_STORE_PATH'' ''/data/tokens.json'',
            cf_health_port = of_nat health_port, cf_metrics_interval = secs metrics,
            cf_mqtt_broker_url = broker, cf_mqtt_username = env_opt env ''MQTT_USERNAME'',
            cf_mqtt_password = env_opt env ''MQTT_PASSWORD'',
            cf_mqtt_client_id = env_opt env ''MQTT_CLIENT_ID'',
            cf_mqtt_discovery_prefix = env_default env ''MQTT_DISCOVERY_PREFIX'' ''homeassistant'',
            cf_mqtt_topic_prefix = env_default env ''MQTT_TOPIC_PREFIX'' ''buddy3d-proxy'',
            cf_snapshot_interval = secs snap, cf_snapshot_max_width = of_nat width,
            cf_snapshot_jpeg_quality = of_nat quality\<rparr>))))))))))"

section \<open>Start-up decisions\<close>

fun slug_chars :: "bool \<Rightarrow> string \<Rightarrow> string" where
  "slug_chars last_dash [] = []"
| "slug_chars last_dash (c # cs) =
     (if is_ascii_alphanumeric c then ascii_lower c # slug_chars False cs
      else if \<not> last_dash then CHR ''-'' # slug_chars True cs
      else slug_chars True cs)"

definition slugify :: "string \<Rightarrow> string" where
  "slugify name = trim_char CHR ''-'' (slug_chars True name)"

definition selected_name :: "camera \<Rightarrow> string" where
  "selected_name c = (case cam_name c of None \<Rightarrow> ''buddy3d'' | Some n \<Rightarrow> n)"

definition selected_path :: "config \<Rightarrow> camera \<Rightarrow> string" where
  "selected_path cfg c = (case cf_rtsp_path cfg of None \<Rightarrow> slugify (selected_name c) | Some p \<Rightarrow> p)"

text \<open>What the camera-status watcher publishes for one \<open>Status\<close>, with the package's version.\<close>

definition mode_name :: "u32 \<Rightarrow> string option" where
  "mode_name m = (if m = 1 then Some ''Auto'' else if m = 2 then Some ''Day''
     else if m = 3 then Some ''Night'' else None)"

definition quality_name :: "u32 \<Rightarrow> string option" where
  "quality_name q = (if q = 1 then Some ''SD'' else if q = 2 then Some ''HD''
     else if q = 3 then Some ''FHD'' else None)"

definition status_requests ::
  "(json \<Rightarrow> string) \<Rightarrow> string \<Rightarrow> device_identity \<Rightarrow> status_message option \<Rightarrow> request list"
where
  "status_requests print pkg d msg =
     (case Option.bind msg cs_capabilities of
        None \<Rightarrow> []
      | Some caps \<Rightarrow>
          (if cc_fw_version caps = [] then []
           else republish_with_sw_version print d (cc_fw_version caps @ '' (proxy '' @ pkg @ '')''))
          @ (case cc_stream_config caps of
               None \<Rightarrow> []
             | Some sc \<Rightarrow>
                 (case mode_name (sc_mode sc) of None \<Rightarrow> [] | Some m \<Rightarrow> [publish_mode_state d m]) @
                 (case quality_name (sc_quality sc) of None \<Rightarrow> [] | Some q \<Rightarrow> [publish_quality_state d q])))"

text \<open>The arguments of the one-shot commands.\<close>

datatype cli_command = RestartCamera u32 | CliSetMode u32 | CliSetQuality u32

fun cli_payload :: "string \<Rightarrow> cli_command \<Rightarrow> string + (string \<times> bytes)" where
  "cli_payload token (RestartCamera field) = Inr (''trigger'', encode_camera_trigger field token)"
| "cli_payload token (CliSetMode m) =
     (if 1 \<le> m \<and> m \<le> 3 then Inr (''configuration'', encode_set_mode m token)
      else Inl ''mode must be 1 (Auto), 2 (Day), or 3 (Night)'')"
| "cli_payload token (CliSetQuality q) =
     (if 1 \<le> q \<and> q \<le> 3 then Inr (''configuration'', encode_set_quality q token)
      else Inl ''quality must be 1 (SD), 2 (HD), or 3 (FHD)'')"

text \<open>\<open>run_health\<close>: the probe succeeds on a 2xx answer.\<close>

definition health_probe :: "string + nat \<Rightarrow> bool" where
  "health_probe reply = (case reply of Inl _ \<Rightarrow> False | Inr st \<Rightarrow> 200 \<le> st \<and> st < 300)"

section \<open>Metrics and redaction\<close>

text \<open>A periodic timer refuses a zero period with a panic.\<close>

definition metrics_start :: "nat \<Rightarrow> unit outcome" where
  "metrics_start period = (if period = 0 then Panic else Ret ())"

record metrics_line =
  ml_camera :: string
  ml_snapshot :: supervisor_snapshot
  ml_bucket_now :: u32
  ml_bucket_cap :: u32

definition metrics_tick ::
  "string \<Rightarrow> time \<Rightarrow> supervisor \<Rightarrow> rate_limiter \<Rightarrow> (metrics_line \<times> supervisor \<times> rate_limiter) outcome"
where
  "metrics_tick camera now s l =
     obind (sup_snapshot s) (\<lambda>(snap, s1).
     obind (rl_read_tokens now l) (\<lambda>(tokens, l1).
       Ret (\<lparr>ml_camera = camera, ml_snapshot = snap, ml_bucket_now = tokens, ml_bucket_cap = rl_cap l1\<rparr>,
            s1, l1)))"

definition redacted :: string where "redacted = ''<redacted>''"

definition redact :: "string \<Rightarrow> string" where
  "redact v = redacted"

definition redact_option :: "string option \<Rightarrow> string" where
  "redact_option v = (case v of Some _ \<Rightarrow> ''Some('' @ redacted @ '')'' | None \<Rightarrow> ''None'')"

section \<open>Properties\<close>

definition slug_char :: "char \<Rightarrow> bool" where
  "slug_char c \<longleftrightarrow> c = CHR ''-'' \<or> is_ascii_digit c \<or> (0x61 \<le> (of_char c :: nat) \<and> (of_char c :: nat) \<le> 0x7A)"

lemma lower_slug: "is_ascii_alphanumeric c \<Longrightarrow> slug_char (ascii_lower c)"
  by (auto simp: is_ascii_alphanumeric_def slug_char_def ascii_lower_def is_ascii_digit_def)

lemma slug_char_dash [simp]: "slug_char CHR ''-''"
  by (simp add: slug_char_def)

lemma slug_chars_set: "c \<in> set (slug_chars b s) \<Longrightarrow> slug_char c"
  by (induction b s rule: slug_chars.induct) (auto simp: lower_slug split: if_splits)

lemma trim_char_subset: "set (trim_char c s) \<subseteq> set s"
  unfolding trim_char_def trim_end_char_def trim_start_char_def
  using set_dropWhileD by (metis set_rev subsetI)

lemma slugify_chars: "c \<in> set (slugify name) \<Longrightarrow> slug_char c"
  using trim_char_subset slug_chars_set unfolding slugify_def by blast

text \<open>The default RTSP path is always servable: for a camera name that has some ASCII letter or
  digit, the path derived from it consists of lower-case letters, digits and dashes, and every
  request for that path under any host is accepted by the RTSP session.\<close>

theorem slug_path_served:
  assumes "slugify name \<noteq> []" and "CHR ''/'' \<notin> set host"
  shows "list_all slug_char (slugify name) \<and>
         uri_matches (''rtsp://'' @ host @ ''/'' @ slugify name) (slugify name) \<and>
         uri_matches (''rtsp://'' @ host @ ''/'' @ slugify name @ ''/'' @ track) (slugify name)"
proof -
  have "\<not> slug_char CHR ''/''" "\<not> slug_char CHR '';''" by (simp_all add: slug_char_def is_ascii_digit_def)
  then have "CHR ''/'' \<notin> set (slugify name)" "CHR '';'' \<notin> set (slugify name)" using slugify_chars by blast+
  with uri_accepted [OF assms(2), of "slugify name"] assms(1) slugify_chars show ?thesis
    by (auto simp: list_all_iff)
qed

theorem slug_path_served_witness:
  "uri_matches (''rtsp://'' @ ''10.0.0.2:8554'' @ ''/'' @ ''core-one'') ''core-one''"
proof -
  have "slugify '' Core  One!'' = ''core-one''" by code_simp
  with slug_path_served [of "'' Core  One!''" "''10.0.0.2:8554''"] show ?thesis by simp
qed

definition number_ok :: "environment \<Rightarrow> nat \<Rightarrow> string \<Rightarrow> bool" where
  "number_ok env mx k \<longleftrightarrow> (case env k of None \<Rightarrow> True | Some v \<Rightarrow> parse_uint mx v \<noteq> None)"

definition broker_ok :: "(string \<Rightarrow> broker_url option) \<Rightarrow> environment \<Rightarrow> bool" where
  "broker_ok parse_url env \<longleftrightarrow>
     (case env_opt env ''MQTT_BROKER_URL'' of
        None \<Rightarrow> True
      | Some raw \<Rightarrow> (case parse_url raw of
          None \<Rightarrow> False
        | Some u \<Rightarrow> bu_host u \<noteq> None \<and> (bu_scheme u = ''mqtt'' \<or> bu_scheme u = ''mqtts'')))"

lemma env_number_ok: "(\<exists>n. env_number env mx k d = Inr n) = number_ok env mx k"
  by (auto simp: env_number_def number_ok_def ok_or_Inr_iff split: option.split)

lemma env_mqtt_ok: "(\<exists>u. env_mqtt_url parse_url env ''MQTT_BROKER_URL'' = Inr u) = broker_ok parse_url env"
proof (cases "env_opt env ''MQTT_BROKER_URL''")
  case (Some raw)
  then show ?thesis
    by (cases "parse_url raw") (auto simp: env_mqtt_url_def broker_ok_def)
qed (simp add: env_mqtt_url_def broker_ok_def)

lemma rbind_ex_Inr: "(\<exists>y. rbind m f = Inr y) \<longleftrightarrow> (\<exists>x. m = Inr x \<and> (\<exists>y. f x = Inr y))"
  by (auto simp: rbind_Inr_iff)

lemma config_ok:
  "(\<exists>cfg. from_env parse_url env = Inr cfg) =
   (env ''PRUSA_EMAIL'' \<noteq> None \<and> env ''PRUSA_PASSWORD'' \<noteq> None \<and>
    number_ok env u16_max ''RTSP_PORT'' \<and> number_ok env u64_max ''IDLE_TIMEOUT_SECONDS'' \<and>
    number_ok env u16_max ''HEALTH_PORT'' \<and> number_ok env u64_max ''METRICS_INTERVAL_SECONDS'' \<and>
    broker_ok parse_url env \<and> number_ok env u64_max ''SNAPSHOT_INTERVAL_SECONDS'' \<and>
    number_ok env u32_max ''SNAPSHOT_MAX_WIDTH'' \<and> number_ok env u8_max ''SNAPSHOT_JPEG_QUALITY'')"
proof -
  have req: "(\<exists>x. env_req env k = Inr x) = (env k \<noteq> None)" for k
    by (auto simp: env_req_def ok_or_Inr_iff)
  show ?thesis
    unfolding from_env_def rbind_ex_Inr
    by (simp add: env_number_ok env_mqtt_ok req)
qed

text \<open>C35. Which environments are accepted: exactly those in which both credentials are set (to any text,
  the empty one included), each of the seven numbers is unset or parses within the range of its
  type, and the broker URL is unset, empty or a URL with a host and the scheme mqtt or mqtts. A
  number set to the empty text is refused, a broker URL set to it counts as unset.\<close>

theorem config_accepted_iff:
  "((\<exists>cfg. from_env parse_url env = Inr cfg) =
    (env ''PRUSA_EMAIL'' \<noteq> None \<and> env ''PRUSA_PASSWORD'' \<noteq> None \<and>
     number_ok env u16_max ''RTSP_PORT'' \<and> number_ok env u64_max ''IDLE_TIMEOUT_SECONDS'' \<and>
     number_ok env u16_max ''HEALTH_PORT'' \<and> number_ok env u64_max ''METRICS_INTERVAL_SECONDS'' \<and>
     broker_ok parse_url env \<and> number_ok env u64_max ''SNAPSHOT_INTERVAL_SECONDS'' \<and>
     number_ok env u32_max ''SNAPSHOT_MAX_WIDTH'' \<and> number_ok env u8_max ''SNAPSHOT_JPEG_QUALITY'')) \<and>
   number_ok (env(k := Some [])) mx k = False \<and>
   broker_ok parse_url (env(''MQTT_BROKER_URL'' := Some [])) = True"
proof (intro conjI)
  show "number_ok (env(k := Some [])) mx k = False" by (simp add: number_ok_def parse_uint_def)
  show "broker_ok parse_url (env(''MQTT_BROKER_URL'' := Some [])) = True" by (simp add: broker_ok_def env_opt_def)
qed (rule config_ok)

lemma parse_zero: "parse_uint mx ''0'' = Some 0"
proof -
  have "show_nat 0 = ''0''" by code_simp
  then show ?thesis using parse_show [of 0 mx] by simp
qed

lemma from_env_fields:
  assumes "from_env parse_url env = Inr cfg"
  shows "(\<exists>m. env_number env u64_max ''METRICS_INTERVAL_SECONDS'' 60 = Inr m \<and> cf_metrics_interval cfg = secs m) \<and>
         env_mqtt_url parse_url env ''MQTT_BROKER_URL'' = Inr (cf_mqtt_broker_url cfg)"
  using assms unfolding from_env_def rbind_Inr_iff by clarsimp

lemma env_mqtt_host:
  assumes "env_mqtt_url parse_url env k = Inr (Some u)"
  shows "bu_host u \<noteq> None"
proof (cases "env_opt env k")
  case None
  with assms show ?thesis by (simp add: env_mqtt_url_def)
next
  case (Some raw)
  with assms show ?thesis by (cases "parse_url raw") (auto simp: env_mqtt_url_def split: if_splits)
qed

text \<open>Two accepted settings break later: a metrics interval of zero makes the metrics task panic when
  it starts, and a broker URL without a port, which has no default for these schemes, makes the
  program fail when it connects to the broker.\<close>

theorem accepted_but_unusable:
  assumes "from_env parse_url env = Inr cfg"
  shows "(env ''METRICS_INTERVAL_SECONDS'' = Some ''0'' \<longrightarrow> metrics_start (cf_metrics_interval cfg) = Panic) \<and>
         (\<forall>u hc. cf_mqtt_broker_url cfg = Some u \<and> bu_port u = None \<and> hc_broker hc = u \<longrightarrow>
            hub_connect hc = Inl (HubConfigError ''broker URL missing port''))"
proof -
  note zero = parse_zero
  have fields: "\<exists>m. env_number env u64_max ''METRICS_INTERVAL_SECONDS'' 60 = Inr m \<and> cf_metrics_interval cfg = secs m"
    "env_mqtt_url parse_url env ''MQTT_BROKER_URL'' = Inr (cf_mqtt_broker_url cfg)"
    using from_env_fields [OF assms] by auto
  have host: "bu_host u \<noteq> None" if "cf_mqtt_broker_url cfg = Some u" for u
    using env_mqtt_host [of parse_url env "''MQTT_BROKER_URL''" u] fields(2) that by simp
  show ?thesis
    using fields(1) zero host by (auto simp: env_number_def metrics_start_def secs_def hub_connect_def)
qed

theorem accepted_but_unusable_witness:
  "\<exists>cfg. from_env (\<lambda>_. Some \<lparr>bu_scheme = ''mqtt'', bu_host = Some ''broker'', bu_port = None\<rparr>)
      [''PRUSA_EMAIL'' \<mapsto> ''a'', ''PRUSA_PASSWORD'' \<mapsto> ''b'', ''METRICS_INTERVAL_SECONDS'' \<mapsto> ''0''] = Inr cfg \<and>
    metrics_start (cf_metrics_interval cfg) = Panic"
proof -
  let ?u = "\<lambda>_ :: string. Some \<lparr>bu_scheme = ''mqtt'', bu_host = Some ''broker'', bu_port = None\<rparr>"
  let ?env = "[''PRUSA_EMAIL'' \<mapsto> ''a'', ''PRUSA_PASSWORD'' \<mapsto> ''b'', ''METRICS_INTERVAL_SECONDS'' \<mapsto> ''0''] :: environment"
  note parse_zero
  then have "\<exists>cfg. from_env ?u ?env = Inr cfg"
    unfolding config_ok by (simp add: number_ok_def broker_ok_def env_opt_def)
  then obtain cfg where f: "from_env ?u ?env = Inr cfg" ..
  have "?env ''METRICS_INTERVAL_SECONDS'' = Some ''0''" by simp
  with accepted_but_unusable [OF f] have "metrics_start (cf_metrics_interval cfg) = Panic" by blast
  with f show ?thesis by blast
qed

end
