(* ===== verification/Jwt.thy ===== *)
theory Jwt
  imports Complex_Main Json RustStr Bucket
begin

text \<open>
  Tokens at rest and in flight: the expiry claim of a JWT (\<open>src/jwt.rs\<close>) and PKCE (\<open>src/pkce.rs\<close>).
  Base64, SHA-256 and the rounding of JSON numbers to \<open>f64\<close> are arguments. Durations and times
  since the epoch are nanoseconds; adding past the range of \<open>SystemTime\<close> panics.
\<close>

datatype jwt_error = Malformed | BadBase64 | BadPayload | MissingExp

text \<open>Rounding to the nearest integer, ties to even, as \<open>Duration::from_secs_f64\<close> does it.\<close>

definition round_even :: "rat \<Rightarrow> int" where
  "round_even y =
     (let f = \<lfloor>y\<rfloor>; d = y - of_int f in
      if d < 1 / 2 then f else if 1 / 2 < d then f + 1 else if even f then f else f + 1)"

definition duration_from_secs :: "rat \<Rightarrow> nat outcome" where
  "duration_from_secs x =
     (if x < 0 \<or> 2 ^ 64 \<le> x then Panic else Ret (nat (round_even (x * 10 ^ 9))))"

definition epoch_plus :: "nat \<Rightarrow> time outcome" where
  "epoch_plus d = (if as_secs d < 2 ^ 63 then Ret d else Panic)"

definition read_exp ::
  "(string \<Rightarrow> bytes option) \<Rightarrow> (string \<Rightarrow> json option) \<Rightarrow> (json_number \<Rightarrow> rat) \<Rightarrow> string \<Rightarrow>
   (jwt_error + time) outcome"
where
  "read_exp b64 parse to_f64 jwt =
     (case split_on CHR ''.'' jwt of
        [header, payload, sig] \<Rightarrow>
          (case b64 payload of
             None \<Rightarrow> Ret (Inl BadBase64)
           | Some bs \<Rightarrow>
               (case parse (of_bytes bs) of
                  None \<Rightarrow> Ret (Inl BadPayload)
                | Some v \<Rightarrow>
                    (case json_get ''exp'' v of
                       Some (JNum n) \<Rightarrow>
                         obind (duration_from_secs (to_f64 n)) (\<lambda>d. obind (epoch_plus d) (\<lambda>t. Ret (Inr t)))
                     | _ \<Rightarrow> Ret (Inl MissingExp))))
      | _ \<Rightarrow> Ret (Inl Malformed))"

section \<open>PKCE\<close>

record pkce =
  pk_verifier :: string
  pk_challenge :: string

definition pkce_generate :: "(bytes \<Rightarrow> string) \<Rightarrow> (string \<Rightarrow> bytes) \<Rightarrow> bytes \<Rightarrow> pkce" where
  "pkce_generate b64enc sha256 random =
     (let verifier = b64enc random; digest = sha256 verifier
      in \<lparr>pk_verifier = verifier, pk_challenge = b64enc digest\<rparr>)"

section \<open>Properties\<close>

lemma round_even_int [simp]: "round_even (of_int n) = n"
  by (simp add: round_even_def)

lemma duration_whole: "x = of_nat n \<Longrightarrow> n < 2 ^ 64 \<Longrightarrow> duration_from_secs x = Ret (secs n)"
proof -
  assume x: "x = of_nat n" "n < 2 ^ 64"
  have "x * 10 ^ 9 = of_int (int (n * ns_per_sec))" using x(1) by simp
  then have "round_even (x * 10 ^ 9) = int (n * ns_per_sec)" by (simp only: round_even_int)
  moreover have "\<not> x < 0" "\<not> 2 ^ 64 \<le> x"
    using x by (simp_all add: of_nat_less_numeral_power_cancel_iff [symmetric] not_le [symmetric])
  ultimately show ?thesis by (simp add: duration_from_secs_def secs_def)
qed

lemma as_secs_secs [simp]: "as_secs (secs n) = n"
  by (simp add: as_secs_def secs_def)

text \<open>The expiry of a three-part token with a whole-number \<open>exp\<close> claim is read exactly; but the
  claim is not validated: a negative one, or one from 2^63 seconds up, panics instead of giving an
  error.\<close>

theorem exp_read_or_panic:
  assumes "CHR ''.'' \<notin> set header" and "CHR ''.'' \<notin> set payload" and "CHR ''.'' \<notin> set sig"
    and "b64 payload = Some bs" and "parse (of_bytes bs) = Some v"
    and "json_get ''exp'' v = Some (JNum k)" and "to_f64 k = of_int z"
  shows "read_exp b64 parse to_f64 (header @ ''.'' @ payload @ ''.'' @ sig) =
         (if z < 0 \<or> 2 ^ 63 \<le> z then Panic else Ret (Inr (secs (nat z))))"
proof -
  have split: "split_on CHR ''.'' (header @ ''.'' @ payload @ ''.'' @ sig) = [header, payload, sig]"
    using assms(1-3) by (simp add: split_on_append split_on_none)
  have neg: "duration_from_secs (of_int z) = Panic" if "z < 0"
    using that by (simp add: duration_from_secs_def)
  have big: "duration_from_secs (of_int z) = Panic" if "2 ^ 64 \<le> z"
  proof -
    have "(of_int (2 ^ 64) :: rat) \<le> of_int z" using that by (simp only: of_int_le_iff)
    then show ?thesis by (simp add: duration_from_secs_def)
  qed
  have mid: "duration_from_secs (of_int z) = Ret (secs (nat z))" if "0 \<le> z" "z < 2 ^ 64"
  proof (rule duration_whole)
    show "(of_int z :: rat) = of_nat (nat z)" using that(1) by simp
    have "nat z < nat (2 ^ 64)" using that by (simp only: nat_less_eq_zless)
    then show "nat z < 2 ^ 64" by (simp add: nat_power_eq)
  qed
  have far: "nat z < 2 ^ 63 \<longleftrightarrow> z < 2 ^ 63" if "0 \<le> z" using that by (simp add: nat_less_iff)
  show ?thesis
    using assms(4-7) neg big mid far
    by (cases "z < 0"; cases "z < 2 ^ 64")
      (auto simp: read_exp_def split[simplified] epoch_plus_def not_less)
qed

theorem exp_read_or_panic_witness:
  "read_exp (\<lambda>_. Some []) (\<lambda>_. Some (JObj [(''exp'', JNum (NegInt 1))])) (\<lambda>_. - 1) ''h.p.s'' = Panic"
proof -
  have "read_exp (\<lambda>_. Some []) (\<lambda>_. Some (JObj [(''exp'', JNum (NegInt 1))])) (\<lambda>_. - 1) (''h'' @ ''.'' @ ''p'' @ ''.'' @ ''s'') =
      (if (- 1 :: int) < 0 \<or> 2 ^ 63 \<le> (- 1 :: int) then Panic else Ret (Inr (secs (nat (- 1)))))"
    by (rule exp_read_or_panic [where k = "NegInt 1" and bs = "[]" and v = "JObj [(''exp'', JNum (NegInt 1))]"]) simp_all
  then show ?thesis by simp
qed

end
