(* ===== verification/TokenStore.thy ===== *)
theory TokenStore
  imports Jwt
begin

text \<open>
  The token file (\<open>src/token_store.rs\<close>). A file system maps full names to contents; a path is the
  text of its directory (with the separator) and its file name. A save can stop anywhere, by an
  error of a system call or by a crash; \<open>None\<close> is a save that runs to its end. The JSON library is
  the pair of arguments \<open>parse\<close> and \<open>print\<close>.
\<close>

record stored_tokens =
  tk_access :: string
  tk_refresh :: string
  tk_expires_at :: u64

definition access_expires :: "stored_tokens \<Rightarrow> time outcome" where
  "access_expires t = epoch_plus (secs (unat (tk_expires_at t)))"

section \<open>Serialisation\<close>

definition tokens_json :: "stored_tokens \<Rightarrow> json" where
  "tokens_json t =
     JObj [(''access_token'', JStr (tk_access t)), (''refresh_token'', JStr (tk_refresh t)),
           (''access_expires_at'', JNum (PosInt (tk_expires_at t)))]"

definition tokens_of_json :: "json \<Rightarrow> stored_tokens option" where
  "tokens_of_json v =
     (case struct_fields [[''access_token''], [''refresh_token''], [''access_expires_at'']] v of
        Some [a, b, c] \<Rightarrow>
          Option.bind (required as_str a) (\<lambda>acc.
          Option.bind (required as_str b) (\<lambda>refr.
          Option.bind (required as_u64 c) (\<lambda>expires.
            Some \<lparr>tk_access = acc, tk_refresh = refr, tk_expires_at = expires\<rparr>)))
      | _ \<Rightarrow> None)"

section \<open>The file system\<close>

type_synonym files = "string \<Rightarrow> bytes option"

record token_path =
  tp_dir :: string
  tp_name :: string

definition full_path :: "token_path \<Rightarrow> string" where
  "full_path p = tp_dir p @ tp_name p"

text \<open>\<open>Path::file_stem\<close>: the name without its last extension; a leading dot starts no extension.\<close>

definition file_stem :: "string \<Rightarrow> string" where
  "file_stem name = (if name = ''..'' then name else
     (case rsplit_once CHR ''.'' name of
        None \<Rightarrow> name | Some (before, _) \<Rightarrow> if before = [] then name else before))"

text \<open>\<open>set_extension\<close> as it acts on a path with a file name: a directory part and a name without a slash.
  A path that ends in a slash or in \<open>..\<close> names no token file and is not represented.\<close>

definition tmp_path :: "token_path \<Rightarrow> string" where
  "tmp_path p = tp_dir p @ file_stem (tp_name p) @ ''.tmp''"

datatype store_error = StoreIo | StoreParse

datatype read_outcome = NotFound | ReadError | Contents bytes

definition read_file :: "files \<Rightarrow> bool \<Rightarrow> string \<Rightarrow> read_outcome" where
  "read_file fs readable path =
     (case fs path of None \<Rightarrow> NotFound | Some b \<Rightarrow> if readable then Contents b else ReadError)"

definition store_load ::
  "(string \<Rightarrow> json option) \<Rightarrow> token_path \<Rightarrow> bool \<Rightarrow> files \<Rightarrow> store_error + stored_tokens option"
where
  "store_load parse p readable fs =
     (case read_file fs readable (full_path p) of
        Contents b \<Rightarrow>
          rbind (ok_or StoreParse (Option.bind (parse (of_bytes b)) tokens_of_json)) (\<lambda>t. Inr (Some t))
      | NotFound \<Rightarrow> Inr None
      | ReadError \<Rightarrow> Inl StoreIo)"

text \<open>Where a save stops: before the directory exists, before the file is open, after some bytes,
  before the sync has returned, before the rename.\<close>

datatype stop_point = AtMkdir | AtOpen | AtWrite nat | AtSync | AtRename

definition write_atomic ::
  "(json \<Rightarrow> string) \<Rightarrow> string \<Rightarrow> string \<Rightarrow> stored_tokens \<Rightarrow> stop_point option \<Rightarrow> files \<Rightarrow>
   files \<times> (store_error + unit)"
where
  "write_atomic print tmp dst tokens stop_at fs =
     (let contents = to_bytes (print (tokens_json tokens)) in
      case stop_at of
        Some AtOpen \<Rightarrow> (fs, Inl StoreIo)
      | Some (AtWrite n) \<Rightarrow> (fs(tmp \<mapsto> take n contents), Inl StoreParse)
      | Some AtSync \<Rightarrow> (fs(tmp \<mapsto> contents), Inl StoreIo)
      | Some AtRename \<Rightarrow> (fs(tmp \<mapsto> contents), Inl StoreIo)
      | _ \<Rightarrow>
          (let fs1 = fs(tmp \<mapsto> contents) in
           (if tmp = dst then fs1 else (fs1(dst := fs1 tmp))(tmp := None), Inr ())))"

definition store_save ::
  "(json \<Rightarrow> string) \<Rightarrow> token_path \<Rightarrow> stored_tokens \<Rightarrow> stop_point option \<Rightarrow> files \<Rightarrow>
   files \<times> (store_error + unit)"
where
  "store_save print p tokens stop_at fs =
     (if stop_at = Some AtMkdir then (fs, Inl StoreIo)
      else write_atomic print (tmp_path p) (full_path p) tokens stop_at fs)"

section \<open>Properties\<close>

lemma tokens_json_roundtrip [simp]: "tokens_of_json (tokens_json t) = Some t"
  by (simp add: tokens_json_def tokens_of_json_def named_field_def)

text \<open>The temporary file is another file unless the name's extension is already \<open>tmp\<close>.\<close>

definition other_tmp :: "token_path \<Rightarrow> bool" where
  "other_tmp p \<longleftrightarrow> file_stem (tp_name p) @ ''.tmp'' \<noteq> tp_name p"

lemma tmp_path_other: "other_tmp p \<Longrightarrow> tmp_path p \<noteq> full_path p"
  by (simp add: other_tmp_def tmp_path_def full_path_def)

text \<open>C27. A save is atomic and, when it completes, readable: wherever it stops, a later load sees either
  exactly what it saw before (every interrupted save, however many bytes it wrote) or exactly the
  new tokens (a completed one). The file name must not have the extension \<open>tmp\<close>, since then the
  temporary file is the token file.\<close>

theorem save_atomic:
  assumes "parse (print (tokens_json tokens)) = Some (tokens_json tokens)" and "other_tmp p"
    and "store_save print p tokens stop_at fs = (fs', r)"
  shows "store_load parse p True fs' = (if stop_at = None then Inr (Some tokens) else store_load parse p True fs)
         \<and> (r = Inr () \<longleftrightarrow> stop_at = None)"
proof -
  have new: "store_load parse p True ((fs(full_path p \<mapsto> to_bytes (print (tokens_json tokens))))(tmp_path p := x)) =
      Inr (Some tokens)" for x
    using assms(1) tmp_path_other [OF assms(2)] by (simp add: store_load_def read_file_def)
  have old: "store_load parse p True (fs(tmp_path p := x)) = store_load parse p True fs" for x
    using tmp_path_other [OF assms(2)] by (simp add: store_load_def read_file_def)
  show ?thesis
    using assms(3) new old tmp_path_other [OF assms(2)]
    by (auto simp: store_save_def write_atomic_def Let_def fun_upd_twist split: option.splits stop_point.splits if_splits)
qed

theorem save_atomic_witness:
  "let t = \<lparr>tk_access = ''a'', tk_refresh = ''r'', tk_expires_at = 9\<rparr>;
       p = \<lparr>tp_dir = ''/data/'', tp_name = ''tokens.json''\<rparr> in
   store_load (\<lambda>_. Some (tokens_json t)) p True
     (fst (store_save (\<lambda>_. ''{}'') p t (Some (AtWrite 1)) Map.empty)) = Inr None"
proof -
  let ?t = "\<lparr>tk_access = ''a'', tk_refresh = ''r'', tk_expires_at = 9\<rparr>"
  let ?p = "\<lparr>tp_dir = ''/data/'', tp_name = ''tokens.json''\<rparr>"
  have "other_tmp ?p" by code_simp
  moreover obtain fs' r where s: "store_save (\<lambda>_. ''{}'') ?p ?t (Some (AtWrite 1)) Map.empty = (fs', r)"
    by (rule prod.exhaust)
  ultimately have "store_load (\<lambda>_. Some (tokens_json ?t)) ?p True fs' =
      store_load (\<lambda>_. Some (tokens_json ?t)) ?p True Map.empty"
    using save_atomic [of "\<lambda>_. Some (tokens_json ?t)" "\<lambda>_. ''{}''" ?t ?p "Some (AtWrite 1)" Map.empty fs' r]
    by simp
  with s show ?thesis by (simp add: Let_def store_load_def read_file_def)
qed

end
