(* ===== verification/Auth.thy ===== *)
theory Auth
  imports TokenStore PrusaClient
begin

text \<open>
  Login and token refresh (\<open>src/prusa/auth.rs\<close>). The cookie-aware client of the login chain, URL
  joining and percent-encoding are third-party: the chain is seen through what each hop answers, and
  the encoder is the argument \<open>urlenc\<close>. The orchestrator serialises its callers with a mutex, so a
  call of \<open>access_token\<close> is one step of its state.
\<close>

datatype auth_error =
    AuthHttp request_error
  | NoCsrf
  | LoginRejected nat string
  | NoAuthCode
  | BadTokenResponse string

definition client_id :: string where
  "client_id = ''MRHTlZhZqkNrrQ6FUPtjyusAz8nc59ErHXP8XkS4''"

definition redirect_uri :: string where
  "redirect_uri = ''https://connect.prusa3d.com/login/auth-callback''"

section \<open>The login page and the redirect chain\<close>

definition csrf_needle :: string where
  "csrf_needle = ''name='' @ [CHR 0x22] @ ''csrfmiddlewaretoken'' @ [CHR 0x22] @ '' value='' @ [CHR 0x22]"

definition extract_csrf :: "string \<Rightarrow> string option" where
  "extract_csrf html =
     Option.bind (find_sub csrf_needle html) (\<lambda>i.
       let rest = drop (i + length csrf_needle) html in
       map_option (\<lambda>e. take e rest) (find_sub [CHR 0x22] rest))"

definition inner_url :: "(string \<Rightarrow> string) \<Rightarrow> pkce \<Rightarrow> string" where
  "inner_url urlenc pk =
     ''/o/authorize/?response_type=code&client_id='' @ client_id @
     ''&code_challenge_method=S256&code_challenge='' @ pk_challenge pk @
     ''&redirect_uri='' @ urlenc redirect_uri"

definition login_form :: "(string \<Rightarrow> string) \<Rightarrow> pkce \<Rightarrow> string \<Rightarrow> string \<Rightarrow> string \<Rightarrow> (string \<times> string) list" where
  "login_form urlenc pk csrf email password =
     [(''csrfmiddlewaretoken'', csrf), (''next'', urlenc (inner_url urlenc pk)),
      (''email'', email), (''password'', password)]"

text \<open>One hop: no answer, a redirect with an unusable target, a redirect with the query of its target,
  or a plain response with its status and, if it arrives, its body.\<close>

datatype hop =
    HopFailed string
  | HopBadTarget string
  | HopRedirect "(string \<times> string) list"
  | HopPlain nat "string option"

fun follow_hops :: "nat \<Rightarrow> hop list \<Rightarrow> auth_error + string" where
  "follow_hops 0 hops = Inl NoAuthCode"
| "follow_hops (Suc n) [] = Inl (BadTokenResponse ''no answer'')"
| "follow_hops (Suc n) (HopFailed e # hops) = Inl (BadTokenResponse e)"
| "follow_hops (Suc n) (HopBadTarget e # hops) = Inl (BadTokenResponse e)"
| "follow_hops (Suc n) (HopRedirect query # hops) =
     (case map_of query ''code'' of Some code \<Rightarrow> Inr code | None \<Rightarrow> follow_hops n hops)"
| "follow_hops (Suc n) (HopPlain st body # hops) =
     Inl (LoginRejected st (take_chars 800 (case body of None \<Rightarrow> [] | Some b \<Rightarrow> b)))"

text \<open>Where the requests go, and the headers that Django's check of Referer and Origin demands; the
  scheme and host of the login URL are the URL library's.\<close>

record auth_endpoints =
  ep_account_base :: string
  ep_connect_base :: string

definition auth_endpoints_default :: auth_endpoints where
  "auth_endpoints_default =
     \<lparr>ep_account_base = ''https://account.prusa3d.com'', ep_connect_base = ''https://connect.prusa3d.com''\<rparr>"

definition login_headers :: "string \<Rightarrow> string \<Rightarrow> string option \<Rightarrow> (string \<times> string) list" where
  "login_headers url scheme host =
     [(''referer'', url), (''origin'', scheme @ ''://'' @ (case host of None \<Rightarrow> [] | Some h \<Rightarrow> h))]"

definition follow_chain_for_code :: "hop list \<Rightarrow> auth_error + string" where
  "follow_chain_for_code hops = follow_hops 6 hops"

section \<open>Tokens\<close>

definition token_response :: "json \<Rightarrow> (string \<times> string) option" where
  "token_response v =
     (case struct_fields [[''access_token''], [''refresh_token'']] v of
        Some [a, b] \<Rightarrow>
          Option.bind (required as_str a) (\<lambda>acc.
          Option.bind (required as_str b) (\<lambda>refr. Some (acc, refr)))
      | _ \<Rightarrow> None)"

text \<open>The third-party functions that reading a token takes.\<close>

record token_lib =
  tl_parse :: "string \<Rightarrow> json option"
  tl_b64 :: "string \<Rightarrow> bytes option"
  tl_f64 :: "json_number \<Rightarrow> rat"

definition read_tokens :: "token_lib \<Rightarrow> request_error + response \<Rightarrow> (auth_error + stored_tokens) outcome" where
  "read_tokens lib res =
     (case res of
        Inl e \<Rightarrow> Ret (Inl (AuthHttp e))
      | Inr r \<Rightarrow>
          (case Option.bind (Option.bind (rs_body r) (tl_parse lib)) token_response of
             None \<Rightarrow> Ret (Inl (BadTokenResponse ''decode''))
           | Some (acc, refr) \<Rightarrow>
               obind (read_exp (tl_b64 lib) (tl_parse lib) (tl_f64 lib) acc) (\<lambda>e.
                 Ret (case e of
                        Inl _ \<Rightarrow> Inl (BadTokenResponse ''jwt'')
                      | Inr t \<Rightarrow> Inr \<lparr>tk_access = acc, tk_refresh = refr,
                                    tk_expires_at = of_nat (as_secs t)\<rparr>))))"

text \<open>What the network answers to a login: the page, the hops of the form, the token request.\<close>

record login_replies =
  lr_page :: "string + string"
  lr_hops :: "hop list"
  lr_token :: "request_error + response"

definition bootstrap :: "token_lib \<Rightarrow> login_replies \<Rightarrow> (auth_error + stored_tokens) outcome" where
  "bootstrap lib lr =
     (case lr_page lr of
        Inl e \<Rightarrow> Ret (Inl (BadTokenResponse e))
      | Inr body \<Rightarrow>
          (case extract_csrf body of
             None \<Rightarrow> Ret (Inl NoCsrf)
           | Some csrf \<Rightarrow>
               (case follow_chain_for_code (lr_hops lr) of
                  Inl e \<Rightarrow> Ret (Inl e)
                | Inr code \<Rightarrow> read_tokens lib (lr_token lr))))"

definition refresh :: "token_lib \<Rightarrow> request_error + response \<Rightarrow> (auth_error + stored_tokens) outcome" where
  "refresh lib res = read_tokens lib res"

section \<open>The orchestrator\<close>

record orchestrator =
  ao_state :: "stored_tokens option"
  ao_failed :: bool
  ao_files :: files

text \<open>What a call meets: whether the token file can be read, the answers of the network, where a save
  stops, and the time.\<close>

record auth_env =
  ae_readable :: bool
  ae_refresh :: "request_error + response"
  ae_login :: login_replies
  ae_save :: "stop_point option"
  ae_now :: time

record auth_conf =
  ac_lib :: token_lib
  ac_print :: "json \<Rightarrow> string"
  ac_path :: token_path

definition orchestrator_new :: "files \<Rightarrow> orchestrator" where
  "orchestrator_new fs = \<lparr>ao_state = None, ao_failed = False, ao_files = fs\<rparr>"

definition access_about_to_expire :: "time \<Rightarrow> stored_tokens \<Rightarrow> bool outcome" where
  "access_about_to_expire now t =
     obind (access_expires t) (\<lambda>e. Ret (if now \<le> e then e - now < secs 60 else True))"

definition bootstrap_and_latch ::
  "auth_conf \<Rightarrow> auth_env \<Rightarrow> orchestrator \<Rightarrow> (orchestrator \<times> (auth_error + stored_tokens)) outcome"
where
  "bootstrap_and_latch ac env ao =
     obind (bootstrap (ac_lib ac) (ae_login env)) (\<lambda>r.
       Ret (case r of
              Inl (LoginRejected st body) \<Rightarrow> (ao\<lparr>ao_failed := True\<rparr>, r)
            | _ \<Rightarrow> (ao, r)))"

text \<open>The refresh token was answered with a 4xx.\<close>

fun refresh_rejected :: "auth_error + stored_tokens \<Rightarrow> bool" where
  "refresh_rejected (Inl (AuthHttp (ClientFailure st body))) = True"
| "refresh_rejected _ = False"

definition obtain_tokens ::
  "auth_conf \<Rightarrow> auth_env \<Rightarrow> orchestrator \<Rightarrow> (orchestrator \<times> (auth_error + stored_tokens)) outcome"
where
  "obtain_tokens ac env ao =
     (case ao_state ao of
        None \<Rightarrow> bootstrap_and_latch ac env ao
      | Some t \<Rightarrow>
          obind (refresh (ac_lib ac) (ae_refresh env)) (\<lambda>r.
            if refresh_rejected r then bootstrap_and_latch ac env ao else Ret (ao, r)))"

definition renew ::
  "auth_conf \<Rightarrow> auth_env \<Rightarrow> orchestrator \<Rightarrow> (orchestrator \<times> (auth_error + string)) outcome"
where
  "renew ac env ao =
     obind (obtain_tokens ac env ao) (\<lambda>(ao1, r).
       case r of
         Inl e \<Rightarrow> Ret (ao1, Inl e)
       | Inr t \<Rightarrow>
           (case store_save (ac_print ac) (ac_path ac) t (ae_save env) (ao_files ao1) of
              (fs, Inl e) \<Rightarrow> Ret (ao1\<lparr>ao_files := fs\<rparr>, Inl (BadTokenResponse ''save''))
            | (fs, Inr _) \<Rightarrow> Ret (ao1\<lparr>ao_files := fs, ao_state := Some t\<rparr>, Inr (tk_access t))))"

definition access_token ::
  "auth_conf \<Rightarrow> auth_env \<Rightarrow> orchestrator \<Rightarrow> (orchestrator \<times> (auth_error + string)) outcome"
where
  "access_token ac env ao =
     (case (if ao_state ao = None
            then store_load (tl_parse (ac_lib ac)) (ac_path ac) (ae_readable env) (ao_files ao)
            else Inr (ao_state ao)) of
        Inl e \<Rightarrow> Ret (ao, Inl (BadTokenResponse ''load''))
      | Inr None \<Rightarrow> renew ac env (ao\<lparr>ao_state := None\<rparr>)
      | Inr (Some t) \<Rightarrow>
          obind (access_about_to_expire (ae_now env) t) (\<lambda>expiring.
            if expiring then renew ac env (ao\<lparr>ao_state := Some t\<rparr>)
            else Ret (ao\<lparr>ao_state := Some t\<rparr>, Inr (tk_access t))))"

section \<open>The health endpoint\<close>

definition healthz :: "orchestrator \<Rightarrow> nat \<times> string" where
  "healthz ao = (if ao_failed ao then (503, ''auth_failed'' @ [CHR 0x0A]) else (200, ''ok'' @ [CHR 0x0A]))"

section \<open>What a returned token is\<close>

definition store_works :: "auth_conf \<Rightarrow> stored_tokens \<Rightarrow> bool" where
  "store_works ac t \<longleftrightarrow> other_tmp (ac_path ac) \<and>
     tl_parse (ac_lib ac) (ac_print ac (tokens_json t)) = Some (tokens_json t)"

lemma bootstrap_and_latch_state:
  assumes "bootstrap_and_latch ac env ao = Ret (ao', r)"
  shows "ao_state ao' = ao_state ao \<and> ao_files ao' = ao_files ao \<and>
    ao_failed ao' = (ao_failed ao \<or> (\<exists>st body. r = Inl (LoginRejected st body)))"
proof -
  obtain x where x: "bootstrap (ac_lib ac) (ae_login env) = Ret x"
    using assms by (auto simp: bootstrap_and_latch_def obind_Ret_iff)
  show ?thesis
  proof (cases x)
    case (Inl e)
    with assms x show ?thesis by (cases e) (auto simp: bootstrap_and_latch_def)
  next
    case (Inr t)
    with assms x show ?thesis by (auto simp: bootstrap_and_latch_def)
  qed
qed

lemma obtain_tokens_cases:
  assumes "obtain_tokens ac env ao = Ret (ao', r)"
  obtains "bootstrap_and_latch ac env ao = Ret (ao', r)"
  | t where "ao_state ao = Some t" and "refresh (ac_lib ac) (ae_refresh env) = Ret r" and "ao' = ao"
proof (cases "ao_state ao")
  case None
  with assms that show ?thesis by (simp add: obtain_tokens_def)
next
  case (Some t)
  with assms obtain x where x: "refresh (ac_lib ac) (ae_refresh env) = Ret x"
    by (auto simp: obtain_tokens_def obind_Ret_iff)
  show ?thesis
  proof (cases "refresh_rejected x")
    case True
    with assms Some x have "bootstrap_and_latch ac env ao = Ret (ao', r)" by (simp add: obtain_tokens_def)
    then show ?thesis by (rule that(1))
  next
    case False
    with assms Some x have "ao' = ao" "x = r" by (simp_all add: obtain_tokens_def)
    with Some x show ?thesis by (intro that(2)) simp_all
  qed
qed

lemma obtain_tokens_state:
  assumes "obtain_tokens ac env ao = Ret (ao', r)"
  shows "ao_files ao' = ao_files ao \<and> (ao_failed ao \<longrightarrow> ao_failed ao')"
  using assms by (rule obtain_tokens_cases) (auto dest: bootstrap_and_latch_state)

lemma load_after_save:
  assumes "store_works ac t" and "store_save (ac_print ac) (ac_path ac) t stop_at fs = (fs', Inr u)"
  shows "store_load (tl_parse (ac_lib ac)) (ac_path ac) True fs' = Inr (Some t)"
proof -
  have "stop_at = None"
    using assms(2) by (auto simp: store_save_def write_atomic_def Let_def split: option.splits stop_point.splits if_splits)
  with assms tmp_path_other [of "ac_path ac"] show ?thesis
    by (auto simp: store_works_def store_save_def write_atomic_def store_load_def read_file_def Let_def
        split: if_splits)
qed

text \<open>An answer of the token endpoint in this call.\<close>

definition granted_now :: "auth_conf \<Rightarrow> auth_env \<Rightarrow> stored_tokens \<Rightarrow> bool" where
  "granted_now ac env t \<longleftrightarrow> read_tokens (ac_lib ac) (ae_refresh env) = Ret (Inr t)
     \<or> read_tokens (ac_lib ac) (lr_token (ae_login env)) = Ret (Inr t)"

lemma bootstrap_granted: "bootstrap lib lr = Ret (Inr t) \<Longrightarrow> read_tokens lib (lr_token lr) = Ret (Inr t)"
  by (auto simp: bootstrap_def split: sum.splits option.splits)

lemma latch_granted:
  assumes "bootstrap_and_latch ac env ao = Ret (ao', Inr t)"
  shows "granted_now ac env t"
proof -
  obtain r where r: "bootstrap (ac_lib ac) (ae_login env) = Ret r"
    using assms by (auto simp: bootstrap_and_latch_def obind_Ret_iff)
  with assms have "r = Inr t"
    by (cases r) (auto simp: bootstrap_and_latch_def split: auth_error.splits)
  with r show ?thesis by (simp add: granted_now_def bootstrap_granted)
qed

lemma obtain_granted: "obtain_tokens ac env ao = Ret (ao', Inr t) \<Longrightarrow> granted_now ac env t"
  by (erule obtain_tokens_cases) (auto simp: granted_now_def refresh_def dest: latch_granted)

lemma renew_result:
  assumes "renew ac env ao = Ret (ao', r)"
  shows "(ao_failed ao \<longrightarrow> ao_failed ao') \<and>
    (\<forall>tok. r = Inr tok \<longrightarrow> (\<exists>t. ao_state ao' = Some t \<and> tk_access t = tok \<and> granted_now ac env t \<and>
      (store_works ac t \<longrightarrow> store_load (tl_parse (ac_lib ac)) (ac_path ac) True (ao_files ao') = Inr (Some t))))"
proof -
  obtain ao1 r1 where o: "obtain_tokens ac env ao = Ret (ao1, r1)"
    using assms by (auto simp: renew_def obind_Ret_iff)
  show ?thesis
  proof (cases r1)
    case (Inl e)
    with assms o obtain_tokens_state [OF o] show ?thesis by (auto simp: renew_def)
  next
    case (Inr t)
    obtain fs r2 where s: "store_save (ac_print ac) (ac_path ac) t (ae_save env) (ao_files ao1) = (fs, r2)"
      by (rule prod.exhaust)
    show ?thesis
      using assms o Inr s obtain_tokens_state [OF o] obtain_granted [of ac env ao ao1 t] load_after_save [of ac t "ae_save env" "ao_files ao1" fs]
      by (cases r2) (auto simp: renew_def)
  qed
qed



text \<open>A concrete setting: a library that knows three documents, an expired token and its refresh.\<close>

definition fresh_tokens :: stored_tokens where
  "fresh_tokens = \<lparr>tk_access = ''h.p.s'', tk_refresh = ''r2'', tk_expires_at = 1000\<rparr>"

definition sample_conf :: auth_conf where
  "sample_conf = \<lparr>ac_lib = \<lparr>tl_parse = (\<lambda>s. if s = ''T'' then Some (tokens_json fresh_tokens)
         else if s = ''R'' then Some (JObj [(''access_token'', JStr ''h.p.s''), (''refresh_token'', JStr ''r2'')])
         else Some (JObj [(''exp'', JNum (PosInt 1000))])),
       tl_b64 = (\<lambda>_. Some (to_bytes ''P'')), tl_f64 = (\<lambda>_. 1000)\<rparr>,
     ac_print = (\<lambda>_. ''T''), ac_path = \<lparr>tp_dir = ''/data/'', tp_name = ''tokens.json''\<rparr>\<rparr>"

definition sample_page :: string where
  "sample_page = csrf_needle @ ''c'' @ [CHR 0x22]"

definition sample_env :: "nat \<Rightarrow> auth_env" where
  "sample_env st = \<lparr>ae_readable = True,
     ae_refresh = Inr \<lparr>rs_status = 200, rs_headers = [], rs_body = Some ''R''\<rparr>,
     ae_login = \<lparr>lr_page = Inr sample_page, lr_hops = [HopPlain st None], lr_token = Inl (NetworkError ''down'')\<rparr>,
     ae_save = None, ae_now = secs 900\<rparr>"





section \<open>The failure latch\<close>

fun auth_run :: "auth_conf \<Rightarrow> auth_env list \<Rightarrow> orchestrator \<Rightarrow> orchestrator outcome" where
  "auth_run ac [] ao = Ret ao"
| "auth_run ac (env # envs) ao = obind (access_token ac env ao) (\<lambda>(ao', r). auth_run ac envs ao')"

lemma access_token_keeps_latch:
  assumes "access_token ac env ao = Ret (ao', r)" and "ao_failed ao"
  shows "ao_failed ao'"
proof -
  let ?start = "if ao_state ao = None
      then store_load (tl_parse (ac_lib ac)) (ac_path ac) (ae_readable env) (ao_files ao)
      else Inr (ao_state ao)"
  consider e where "?start = Inl e" | "?start = Inr None" | t where "?start = Inr (Some t)"
    by (metis not_None_eq sum.exhaust)
  then show ?thesis
  proof cases
    case 1
    with assms show ?thesis by (auto simp: access_token_def)
  next
    case 2
    with assms(1) have "renew ac env (ao\<lparr>ao_state := None\<rparr>) = Ret (ao', r)"
      by (simp add: access_token_def)
    from renew_result [OF this] assms(2) show ?thesis by simp
  next
    case (3 t)
    with assms(1) obtain expiring where "access_about_to_expire (ae_now env) t = Ret expiring"
      by (auto simp: access_token_def obind_Ret_iff)
    with assms 3 renew_result [of ac env "ao\<lparr>ao_state := Some t\<rparr>" ao' r] show ?thesis
      by (cases expiring) (auto simp: access_token_def)
  qed
qed

lemma auth_run_keeps_latch: "auth_run ac envs ao = Ret ao' \<Longrightarrow> ao_failed ao \<Longrightarrow> ao_failed ao'"
proof (induction envs arbitrary: ao)
  case (Cons env envs)
  then obtain ao1 r where "access_token ac env ao = Ret (ao1, r)" "auth_run ac envs ao1 = Ret ao'"
    by (auto simp: obind_Ret_iff)
  with Cons access_token_keeps_latch show ?case by blast
qed simp

text \<open>C38. The health endpoint reports a permanent failure after a transient one: when there is no token
  yet and the server answers the login form with anything that is not a redirect, a 503 of an
  overloaded server included, the call fails as a rejected login and \<open>/healthz\<close> answers 503 from then
  on, whatever later calls meet, successful logins included.\<close>

theorem outage_latches_health:
  assumes "ao_state ao = None" and "ao_files ao (full_path (ac_path ac)) = None"
    and "lr_page (ae_login env) = Inr body" and "extract_csrf body = Some csrf"
    and "lr_hops (ae_login env) = HopPlain st text # hops"
    and "obind (access_token ac env ao) (\<lambda>(ao1, r). auth_run ac envs ao1) = Ret ao'"
  shows "(\<exists>ao1 preview. access_token ac env ao = Ret (ao1, Inl (LoginRejected st preview))) \<and> fst (healthz ao') = 503"
proof -
  let ?p = "take_chars 800 (case text of None \<Rightarrow> [] | Some b \<Rightarrow> b)"
  have load: "store_load (tl_parse (ac_lib ac)) (ac_path ac) (ae_readable env) (ao_files ao) = Inr None"
    using assms(2) by (simp add: store_load_def read_file_def)
  have "follow_chain_for_code (HopPlain st text # hops) = Inl (LoginRejected st ?p)"
    unfolding follow_chain_for_code_def by (simp add: eval_nat_numeral)
  then have boot: "bootstrap (ac_lib ac) (ae_login env) = Ret (Inl (LoginRejected st ?p))"
    using assms(3-5) by (simp add: bootstrap_def)
  have call: "access_token ac env ao = Ret (ao\<lparr>ao_state := None, ao_failed := True\<rparr>, Inl (LoginRejected st ?p))"
    using assms(1) load boot
    by (simp add: access_token_def renew_def obtain_tokens_def bootstrap_and_latch_def)
  with assms(6) have "ao_failed ao'" by (auto dest: auth_run_keeps_latch)
  with call show ?thesis by (auto simp: healthz_def)
qed

theorem outage_latches_health_witness:
  "\<exists>ao'. obind (access_token sample_conf (sample_env 503) (orchestrator_new Map.empty))
      (\<lambda>(ao1, r). auth_run sample_conf [] ao1) = Ret ao' \<and> fst (healthz ao') = 503"
proof -
  let ?ao = "orchestrator_new Map.empty" and ?env = "sample_env 503"
  have x: "extract_csrf sample_page = Some ''c''" by code_simp
  have hyp: "ao_state ?ao = None" "ao_files ?ao (full_path (ac_path sample_conf)) = None"
    "lr_page (ae_login ?env) = Inr sample_page" "lr_hops (ae_login ?env) = HopPlain 503 None # []"
    by (simp_all add: orchestrator_new_def sample_env_def)
  have "\<exists>ao'. obind (access_token sample_conf ?env ?ao) (\<lambda>(ao1, r). auth_run sample_conf [] ao1) = Ret ao'"
    using x hyp by (simp add: access_token_def store_load_def read_file_def renew_def obtain_tokens_def
        bootstrap_and_latch_def bootstrap_def follow_chain_for_code_def eval_nat_numeral)
  then show ?thesis
    using outage_latches_health [OF hyp(1,2,3) x hyp(4)] by blast
qed

end
