(* ===== verification/Snapshot.thy ===== *)
theory Snapshot
  imports H264 Supervisor
begin

text \<open>
  Snapshots (\<open>src/snapshot/mod.rs\<close>, \<open>src/snapshot/encode.rs\<close>): the consumer that picks parameter
  sets and keyframes out of the RTP stream and the path from the NAL units to a JPEG. The decoder and the image library are the record \<open>image_lib\<close>.
\<close>

section \<open>The consumer\<close>

record latest_params =
  lp_sps :: "bytes option"
  lp_pps :: "bytes option"
  lp_idr :: "bytes option"

definition latest_default :: latest_params where
  "latest_default = \<lparr>lp_sps = None, lp_pps = None, lp_idr = None\<rparr>"

definition store_nal :: "latest_params \<Rightarrow> bytes \<Rightarrow> latest_params" where
  "store_nal g nal =
     (if nal_unit_type nal = 7 then g\<lparr>lp_sps := Some nal\<rparr>
      else if nal_unit_type nal = 8 then g\<lparr>lp_pps := Some nal\<rparr>
      else if nal_unit_type nal = 5 then g\<lparr>lp_idr := Some nal\<rparr>
      else g)"

datatype rtp_event = RtpPacket bytes u16 | RtpLagged | RtpClosed

record consumer =
  rc_reassembler :: reassembler
  rc_latest :: latest_params
  rc_running :: bool

definition consumer_new :: "latest_params \<Rightarrow> consumer" where
  "consumer_new g = \<lparr>rc_reassembler = reassembler_new, rc_latest = g, rc_running = True\<rparr>"

fun consume_rtp :: "consumer \<Rightarrow> rtp_event \<Rightarrow> consumer" where
  "consume_rtp c (RtpPacket payload seq) =
     (if \<not> rc_running c then c
      else (case push payload seq (rc_reassembler c) of
              (nals, r) \<Rightarrow> c\<lparr>rc_reassembler := r, rc_latest := foldl store_nal (rc_latest c) nals\<rparr>))"
| "consume_rtp c RtpLagged = (if \<not> rc_running c then c else c\<lparr>rc_reassembler := reassembler_new\<rparr>)"
| "consume_rtp c RtpClosed = c\<lparr>rc_running := False\<rparr>"

section \<open>From NAL units to a JPEG\<close>

definition start_code :: bytes where "start_code = [0, 0, 0, 1]"

definition build_annex_b :: "bytes \<Rightarrow> bytes \<Rightarrow> bytes \<Rightarrow> bytes" where
  "build_annex_b sps pps idr = start_code @ sps @ start_code @ pps @ start_code @ idr"

record rgb_image =
  im_width :: u32
  im_height :: u32
  im_rgb :: bytes

record image_lib =
  il_init :: "string option"                            \<comment> \<open>the error of the decoder's creation\<close>
  il_decode :: "bytes \<Rightarrow> string + rgb_image option"
  il_resize :: "rgb_image \<Rightarrow> u32 \<Rightarrow> u32 \<Rightarrow> bytes"
  il_jpeg :: "u8 \<Rightarrow> rgb_image \<Rightarrow> string + bytes"

datatype encode_error =
    DecoderInit string
  | DecodeError string
  | NoFrame
  | BufferSize nat
  | JpegError string

text \<open>The dimensions after scaling, computed in 64 bits and cut to 32.\<close>

definition scaled_dims :: "u32 \<Rightarrow> u32 \<Rightarrow> u32 \<Rightarrow> u32 \<times> u32" where
  "scaled_dims max_width w h =
     (if max_width < w
      then (max_width, max 1 (ucast ((ucast h * ucast max_width :: u64) div ucast w)))
      else (w, h))"

definition scale_image :: "image_lib \<Rightarrow> u32 \<Rightarrow> rgb_image \<Rightarrow> rgb_image" where
  "scale_image lib max_width img =
     (if max_width < im_width img then
        (case scaled_dims max_width (im_width img) (im_height img) of
           (w, h) \<Rightarrow> \<lparr>im_width = w, im_height = h, im_rgb = il_resize lib img w h\<rparr>)
      else img)"

definition decode_to_jpeg :: "image_lib \<Rightarrow> bytes \<Rightarrow> u32 \<Rightarrow> u8 \<Rightarrow> encode_error + bytes" where
  "decode_to_jpeg lib annex_b max_width quality =
     (case il_init lib of
        Some e \<Rightarrow> Inl (DecoderInit e)
      | None \<Rightarrow>
          rbind (map_err DecodeError (il_decode lib annex_b)) (\<lambda>frame.
            case frame of
              None \<Rightarrow> Inl NoFrame
            | Some img \<Rightarrow>
                (let expected = unat (im_width img) * unat (im_height img) * 3 in
                 if length (im_rgb img) < expected then Inl (BufferSize expected)
                 else map_err JpegError (il_jpeg lib quality (scale_image lib max_width img)))))"

section \<open>A tick of the worker\<close>

text \<open>The stream handed to the decoder, if there is one.\<close>

definition snapshot_tick :: "sup_state \<Rightarrow> latest_params \<Rightarrow> bytes option" where
  "snapshot_tick st g =
     (if st = Streaming then
        (case (lp_sps g, lp_pps g, lp_idr g) of
           (Some s, Some p, Some i) \<Rightarrow> Some (build_annex_b s p i) | _ \<Rightarrow> None)
      else None)"

text \<open>A JPEG that fails to encode is logged, and nothing is published.\<close>

definition publish_tick :: "image_lib \<Rightarrow> u32 \<Rightarrow> u8 \<Rightarrow> sup_state \<Rightarrow> latest_params \<Rightarrow> bytes list" where
  "publish_tick lib max_width quality st g =
     (case snapshot_tick st g of
        None \<Rightarrow> []
      | Some annex_b \<Rightarrow>
          (case decode_to_jpeg lib annex_b max_width quality of Inl _ \<Rightarrow> [] | Inr jpeg \<Rightarrow> [jpeg]))"

section \<open>Properties\<close>

text \<open>The last unit of a type.\<close>

definition last_of :: "u8 \<Rightarrow> bytes list \<Rightarrow> bytes option" where
  "last_of t nals = List.find (\<lambda>n. nal_unit_type n = t) (rev nals)"

lemma last_of_snoc: "last_of t (nals @ [n]) = (if nal_unit_type n = t then Some n else last_of t nals)"
  by (simp add: last_of_def)

lemma store_all:
  "foldl store_nal latest_default nals =
   \<lparr>lp_sps = last_of 7 nals, lp_pps = last_of 8 nals, lp_idr = last_of 5 nals\<rparr>"
proof (induction nals rule: rev_induct)
  case Nil
  show ?case by (simp add: latest_default_def last_of_def)
next
  case (snoc n nals)
  then show ?case by (simp add: store_nal_def last_of_snoc)
qed

lemma consume_packets:
  "rc_running c \<Longrightarrow> rc_latest c = foldl store_nal latest_default nals \<Longrightarrow>
   rc_latest (run consume_rtp c (map (\<lambda>(p, q). RtpPacket p q) ps)) =
   foldl store_nal latest_default (nals @ fst (push_all ps (rc_reassembler c)))"
proof (induction ps arbitrary: c nals)
  case (Cons x ps)
  obtain p q where x: "x = (p, q)" by (cases x)
  obtain ns r where push: "push p q (rc_reassembler c) = (ns, r)" by (rule prod.exhaust)
  let ?c = "c\<lparr>rc_reassembler := r, rc_latest := foldl store_nal (rc_latest c) ns\<rparr>"
  have "rc_latest ?c = foldl store_nal latest_default (nals @ ns)" using Cons.prems(2) by simp
  with Cons.IH [of ?c "nals @ ns"] Cons.prems(1) push x show ?case
    by (simp add: Let_def split: prod.split)
qed simp

text \<open>A snapshot is built from the stream's latest parameter sets and keyframe: after a session in
  which the camera sent any sequence of single units, aggregates and fragmented units, a tick hands
  the decoder exactly the last SPS, the last PPS and the last IDR sent, each behind a start code, in
  that order, and nothing if one of them has not been sent.\<close>

theorem snapshot_of_stream:
  assumes "\<forall>s\<in>set sent. sendable s"
  shows "snapshot_tick Streaming (rc_latest (run consume_rtp (consumer_new latest_default)
           (map (\<lambda>(p, q). RtpPacket p q) (packetise q sent)))) =
         (let nals = concat (map nals_of sent) in
          case (last_of 7 nals, last_of 8 nals, last_of 5 nals) of
            (Some s, Some p, Some i) \<Rightarrow> Some (start_code @ s @ start_code @ p @ start_code @ i)
          | _ \<Rightarrow> None)"
proof -
  have "rc_latest (run consume_rtp (consumer_new latest_default) (map (\<lambda>(p, q). RtpPacket p q) (packetise q sent))) =
      foldl store_nal latest_default ([] @ fst (push_all (packetise q sent) (rc_reassembler (consumer_new latest_default))))"
    by (rule consume_packets) (simp_all add: consumer_new_def)
  then show ?thesis
    using push_all_packetise [OF assms]
    by (simp add: store_all snapshot_tick_def build_annex_b_def Let_def split: option.split)
qed

theorem snapshot_of_stream_witness:
  "snapshot_tick Streaming (rc_latest (run consume_rtp (consumer_new latest_default)
      (map (\<lambda>(p, q). RtpPacket p q)
        (packetise 65535 [Aggregate 0x67 [[0x67, 1], [0x68, 2]], Fragments 0x65 [[3], [4, 5]]])))) =
   Some ([0, 0, 0, 1, 0x67, 1, 0, 0, 0, 1, 0x68, 2, 0, 0, 0, 1, 0x65, 3, 4, 5])"
  by (subst snapshot_of_stream)
    (simp_all add: last_of_def nal_unit_type_def start_code_def)

section \<open>Scaling\<close>

lemma unat_u64_u32 [simp]: "unat (ucast (a :: u32) :: u64) = unat a"
proof -
  have "unat a < 2 ^ LENGTH(32)" by (rule unsigned_less)
  then show ?thesis by (simp add: unsigned_ucast_eq take_bit_nat_eq_self)
qed

lemma u64_mult_u32: "unat (ucast a * ucast b :: u64) = unat (a :: u32) * unat (b :: u32)"
proof -
  have a: "unat a < 2 ^ LENGTH(32)" "unat b < 2 ^ LENGTH(32)" by (rule unsigned_less)+
  then have "unat a * unat b \<le> (2 ^ 32 - 1) * (2 ^ 32 - 1)" by (intro mult_le_mono) simp_all
  then have "unat a * unat b < 2 ^ 64" by simp
  then show ?thesis by (simp add: unat_word_ariths)
qed

text \<open>Scaling keeps the proportions and caps the width: the 64-bit arithmetic does not overflow, a
  wide image becomes exactly \<open>max_width\<close> wide and \<open>height * max_width / width\<close> high, at least one
  line, never higher than before; an image that is not wider than \<open>max_width\<close> stays as it is however
  high it is.\<close>

theorem scaled_dims_exact:
  "unat (fst (scaled_dims max_width w h)) = min (unat max_width) (unat w) \<and>
   unat (snd (scaled_dims max_width w h)) =
     (if unat max_width < unat w then max 1 (unat h * unat max_width div unat w) else unat h) \<and>
   unat (snd (scaled_dims max_width w h)) \<le> max 1 (unat h)"
proof (cases "max_width < w")
  case True
  then have lt: "unat max_width < unat w" by (simp add: word_less_nat_alt)
  have le: "unat h * unat max_width div unat w \<le> unat h"
  proof -
    have "unat h * unat max_width \<le> unat h * unat w" using lt by simp
    then show ?thesis using lt by (metis div_le_mono nonzero_mult_div_cancel_right not_less_zero)
  qed
  have q: "unat ((ucast h * ucast max_width :: u64) div ucast w) = unat h * unat max_width div unat w"
    by (simp add: unat_div u64_mult_u32)
  have "unat (ucast ((ucast h * ucast max_width :: u64) div ucast w) :: u32) = unat h * unat max_width div unat w"
  proof -
    have "unat h < 2 ^ LENGTH(32)" by (rule unsigned_less)
    with le have "unat h * unat max_width div unat w < 2 ^ 32" by simp
    then show ?thesis using q by (simp add: unsigned_ucast_eq take_bit_nat_eq_self)
  qed
  then show ?thesis using True lt le by (simp add: scaled_dims_def max_def word_le_nat_alt)
next
  case False
  then show ?thesis by (auto simp: scaled_dims_def word_less_nat_alt min_def)
qed

end
