(* ===== verification/SnapshotWorker.thy ===== *)
theory SnapshotWorker
  imports Snapshot
begin

text \<open>
  The snapshot worker (\<open>run\<close> of \<open>src/snapshot/mod.rs\<close>): a loop that follows the supervisor's state
  and spawns or aborts the consumer task of the current session, beside that task, which
  shares the latest units with it. \<open>JoinHandle::abort\<close> takes effect when the task next yields:
  a task that is being polled at that moment goes on with the packets already in its channel.
\<close>

section \<open>State and steps\<close>

record snap_task =
  st_chan :: nat
  st_reassembler :: reassembler
  st_finished :: bool

record snapper =
  sn_task :: "snap_task option"                         \<comment> \<open>\<open>current_session\<close>\<close>
  sn_aborted :: "reassembler list"                      \<comment> \<open>aborted tasks whose last poll still runs\<close>
  sn_latest :: latest_params
  sn_jobs :: "bytes list"                               \<comment> \<open>streams handed to blocking threads\<close>
  sn_running :: bool

definition snapper_new :: snapper where
  "snapper_new = \<lparr>sn_task = None, sn_aborted = [], sn_latest = latest_default, sn_jobs = [], sn_running = True\<rparr>"

text \<open>The head of the loop: what the supervisor's snapshot and \<open>subscribe_rtp\<close> give.\<close>

definition reevaluate :: "sup_state \<Rightarrow> nat option \<Rightarrow> snapper \<Rightarrow> snapper" where
  "reevaluate st chan w =
     (if st = Streaming then
        (if case sn_task w of None \<Rightarrow> True | Some t \<Rightarrow> st_finished t then
           (case chan of
              None \<Rightarrow> w
            | Some c \<Rightarrow> w\<lparr>sn_task := Some \<lparr>st_chan = c, st_reassembler = reassembler_new, st_finished = False\<rparr>\<rparr>)
         else w)
      else
        (case sn_task w of
           None \<Rightarrow> w
         | Some t \<Rightarrow> w\<lparr>sn_task := None, sn_latest := latest_default,
                       sn_aborted := (if st_finished t then sn_aborted w else st_reassembler t # sn_aborted w)\<rparr>))"

datatype snap_event =
    Polled rtp_event                                    \<comment> \<open>the session's task receives\<close>
  | LastPoll nat bytes u16                              \<comment> \<open>an aborted task takes another packet\<close>
  | Cancelled nat                                       \<comment> \<open>and is gone\<close>
  | StateChanged sup_state "nat option"                 \<comment> \<open>\<open>changed()\<close>, then the head of the loop\<close>
  | WatchClosed
  | Tick sup_state sup_state "nat option"               \<comment> \<open>the interval has passed; then the head\<close>

definition snap_consume :: "rtp_event \<Rightarrow> snap_task \<Rightarrow> snapper \<Rightarrow> snapper" where
  "snap_consume ev t w =
     (let c = consume_rtp \<lparr>rc_reassembler = st_reassembler t, rc_latest = sn_latest w,
                           rc_running = \<not> st_finished t\<rparr> ev
      in w\<lparr>sn_task := Some (t\<lparr>st_reassembler := rc_reassembler c, st_finished := \<not> rc_running c\<rparr>),
           sn_latest := rc_latest c\<rparr>)"

fun snap_step :: "snapper \<Rightarrow> snap_event \<Rightarrow> snapper" where
  "snap_step w (Polled ev) = (case sn_task w of None \<Rightarrow> w | Some t \<Rightarrow> snap_consume ev t w)"
| "snap_step w (LastPoll k payload seq) =
     (if length (sn_aborted w) \<le> k then w
      else (case push payload seq (sn_aborted w ! k) of
              (nals, r) \<Rightarrow> w\<lparr>sn_aborted := (sn_aborted w)[k := r],
                              sn_latest := foldl store_nal (sn_latest w) nals\<rparr>))"
| "snap_step w (Cancelled k) = w\<lparr>sn_aborted := take k (sn_aborted w) @ drop (Suc k) (sn_aborted w)\<rparr>"
| "snap_step w (StateChanged st chan) = (if sn_running w then reevaluate st chan w else w)"
| "snap_step w WatchClosed = w\<lparr>sn_running := False\<rparr>"
| "snap_step w (Tick st st' chan) =
     (if sn_running w then
        reevaluate st' chan
          (w\<lparr>sn_jobs := sn_jobs w @ (case snapshot_tick st (sn_latest w) of None \<Rightarrow> [] | Some a \<Rightarrow> [a])\<rparr>)
      else w)"

text \<open>An interval of zero disables the worker.\<close>

definition snapshot_run :: "nat \<Rightarrow> sup_state \<Rightarrow> nat option \<Rightarrow> snap_event list \<Rightarrow> snapper" where
  "snapshot_run interval st chan evs =
     (if interval = 0 then snapper_new\<lparr>sn_running := False\<rparr>
      else run snap_step (reevaluate st chan snapper_new) evs)"

section \<open>Properties\<close>

text \<open>Without an aborted task that runs on, no session means no units.\<close>

fun no_last_poll :: "snap_event \<Rightarrow> bool" where
  "no_last_poll (LastPoll k p q) \<longleftrightarrow> False"
| "no_last_poll ev \<longleftrightarrow> True"

definition clean :: "snapper \<Rightarrow> bool" where
  "clean w \<longleftrightarrow> (sn_task w = None \<longrightarrow> sn_latest w = latest_default)"

lemma clean_reevaluate: "clean w \<Longrightarrow> clean (reevaluate st chan w)"
  by (auto simp: clean_def reevaluate_def split: option.splits)

lemma clean_step: "clean w \<Longrightarrow> no_last_poll ev \<Longrightarrow> clean (snap_step w ev)"
proof (cases ev)
  case (Tick st st' chan)
  assume "clean w"
  then have "clean (w\<lparr>sn_jobs := js\<rparr>)" for js by (simp add: clean_def)
  with Tick \<open>clean w\<close> show ?thesis by (simp add: clean_reevaluate)
qed (auto simp: clean_reevaluate, auto simp: clean_def snap_consume_def Let_def split: option.splits)

lemma clean_run: "clean w \<Longrightarrow> list_all no_last_poll evs \<Longrightarrow> clean (run snap_step w evs)"
  by (induction evs arbitrary: w) (auto intro: clean_step)

text \<open>The events while the worker sees the stream up: what its task polls, a packet, a lag or the end of the
  channel; ticks and notifications; the ends of older tasks.\<close>

fun session_event :: "snap_event \<Rightarrow> bool" where
  "session_event (Polled ev) \<longleftrightarrow> True"
| "session_event (StateChanged st chan) \<longleftrightarrow> st = Streaming"
| "session_event (Tick st st' chan) \<longleftrightarrow> st' = Streaming"
| "session_event (Cancelled k) \<longleftrightarrow> True"
| "session_event ev \<longleftrightarrow> False"

fun polled :: "snap_event \<Rightarrow> rtp_event list" where
  "polled (Polled ev) = [ev]"
| "polled ev = []"

fun offered :: "snap_event \<Rightarrow> nat option" where
  "offered (StateChanged st chan) = chan"
| "offered (Tick st st' chan) = chan"
| "offered ev = None"

text \<open>The units of the session: what a reassembler makes of the packets polled, starting afresh after a lag
  and, on a channel that is offered again, after an end of the channel. \<open>None\<close>: between such an end
  and the next channel.\<close>

fun session_units :: "reassembler option \<Rightarrow> snap_event list \<Rightarrow> bytes list" where
  "session_units r [] = []"
| "session_units (Some r) (Polled (RtpPacket p q) # evs) =
     (case push p q r of (nals, r') \<Rightarrow> nals @ session_units (Some r') evs)"
| "session_units (Some r) (Polled RtpLagged # evs) = session_units (Some reassembler_new) evs"
| "session_units (Some r) (Polled RtpClosed # evs) = session_units None evs"
| "session_units (Some r) (ev # evs) = session_units (Some r) evs"
| "session_units None (ev # evs) =
     session_units (if offered ev = None then None else Some reassembler_new) evs"

definition task_reader :: "snap_task \<Rightarrow> reassembler option" where
  "task_reader t = (if st_finished t then None else Some (st_reassembler t))"

lemma restart:
  assumes "sn_task w = Some t" "st_finished t"
  shows "sn_task (reevaluate Streaming chan w) = (case chan of
           None \<Rightarrow> Some t | Some c \<Rightarrow> Some \<lparr>st_chan = c, st_reassembler = reassembler_new, st_finished = False\<rparr>)"
    "sn_latest (reevaluate Streaming chan w) = sn_latest w"
    "sn_running (reevaluate Streaming chan w) = sn_running w"
  using assms by (simp_all add: reevaluate_def split: option.split)

lemma finished_step:
  assumes "sn_task w = Some t" "st_finished t" "sn_running w" "session_event ev"
  shows "\<exists>t'. sn_task (snap_step w ev) = Some t' \<and> sn_latest (snap_step w ev) = sn_latest w \<and>
           sn_running (snap_step w ev) \<and> task_reader t' = (if offered ev = None then None else Some reassembler_new)"
proof (cases ev)
  case (Polled x)
  with assms show ?thesis by (cases x) (simp_all add: snap_consume_def task_reader_def Let_def)
next
  case (StateChanged st chan)
  with assms restart [OF assms(1,2), of chan] show ?thesis by (cases chan) (simp_all add: task_reader_def)
next
  case (Tick st st' chan)
  let ?w = "w\<lparr>sn_jobs := sn_jobs w @ (case snapshot_tick st (sn_latest w) of None \<Rightarrow> [] | Some a \<Rightarrow> [a])\<rparr>"
  from Tick assms restart [of ?w t chan] show ?thesis by (cases chan) (simp_all add: task_reader_def)
qed (use assms in \<open>simp_all add: task_reader_def\<close>)

lemma session_run:
  assumes "sn_task w = Some t" "sn_running w" "list_all session_event evs"
  shows "sn_latest (run snap_step w evs) = foldl store_nal (sn_latest w) (session_units (task_reader t) evs) \<and>
         sn_running (run snap_step w evs)"
  using assms
proof (induction evs arbitrary: w t)
  case (Cons ev evs)
  show ?case
  proof (cases "st_finished t")
    case True
    with Cons.prems finished_step [of w t ev] obtain t' where "sn_task (snap_step w ev) = Some t'"
        "sn_latest (snap_step w ev) = sn_latest w" "sn_running (snap_step w ev)"
        "task_reader t' = (if offered ev = None then None else Some reassembler_new)" by auto
    with Cons.IH [of "snap_step w ev" t'] Cons.prems True show ?thesis by (simp add: task_reader_def)
  next
    case False
    show ?thesis
    proof (cases "polled ev")
      case Nil
      with Cons.prems False have "sn_task (snap_step w ev) = Some t \<and> sn_latest (snap_step w ev) = sn_latest w \<and>
          sn_running (snap_step w ev)"
        by (cases ev) (auto simp: reevaluate_def elim: session_event.elims)
      with Cons.IH [of "snap_step w ev" t] Cons.prems False Nil show ?thesis by (cases ev) (simp_all add: task_reader_def)
    next
      case pol: (Cons x xs)
      then have ev: "ev = Polled x" by (cases ev) auto
      show ?thesis
      proof (cases x)
        case (RtpPacket p q)
        obtain nals r where push: "push p q (st_reassembler t) = (nals, r)" by (rule prod.exhaust)
        have "sn_task (snap_step w ev) = Some (t\<lparr>st_reassembler := r\<rparr>) \<and>
            sn_latest (snap_step w ev) = foldl store_nal (sn_latest w) nals \<and> sn_running (snap_step w ev)"
          using Cons.prems ev push RtpPacket False by (simp add: snap_consume_def Let_def)
        with Cons.prems Cons.IH [of "snap_step w ev" "t\<lparr>st_reassembler := r\<rparr>"] push RtpPacket ev False show ?thesis
          by (simp add: task_reader_def)
      next
        case RtpLagged
        with Cons.prems Cons.IH [of "snap_step w ev" "t\<lparr>st_reassembler := reassembler_new\<rparr>"] ev False show ?thesis
          by (simp add: task_reader_def snap_consume_def Let_def)
      next
        case RtpClosed
        with Cons.prems Cons.IH [of "snap_step w ev" "t\<lparr>st_finished := True\<rparr>"] ev False show ?thesis
          by (simp add: task_reader_def snap_consume_def Let_def)
      qed
    qed
  qed
qed simp

lemma units_of_packets:
  "concat (map polled evs) = map (\<lambda>(p, q). RtpPacket p q) ps \<Longrightarrow> session_units (Some r) evs = fst (push_all ps r)"
proof (induction evs arbitrary: r ps)
  case (Cons ev evs)
  show ?case
  proof (cases "polled ev")
    case Nil
    with Cons show ?thesis by (cases ev) simp_all
  next
    case pol: (Cons x xs)
    then have "ev = Polled x" by (cases ev) auto
    with Cons show ?thesis by (cases ps) (auto simp: Let_def split: prod.splits)
  qed
qed simp

text \<open>The stream made for the decoder from a sequence of units.\<close>

definition picture_of :: "bytes list \<Rightarrow> bytes list" where
  "picture_of nals =
     (case (last_of 7 nals, last_of 8 nals, last_of 5 nals) of
        (Some s, Some p, Some i) \<Rightarrow> [start_code @ s @ start_code @ p @ start_code @ i]
      | _ \<Rightarrow> [])"

lemma reevaluate_frame [simp]:
  "sn_running (reevaluate st chan w) = sn_running w" "sn_jobs (reevaluate st chan w) = sn_jobs w"
  by (auto simp: reevaluate_def split: option.splits)

lemma down_resets: "clean w \<Longrightarrow> st \<noteq> Streaming \<Longrightarrow>
   sn_task (reevaluate st chan w) = None \<and> sn_latest (reevaluate st chan w) = latest_default"
  by (auto simp: clean_def reevaluate_def split: option.splits)

text \<open>C24. A picture never mixes sessions that the worker has seen apart: whatever it has been through
  (sessions, losses, ticks, notifications it slept over), once it has seen the stream down and
  up again, the next picture is decoded from the last SPS, PPS and IDR among the units that its
  task has reassembled from then on, lost packets, lags and a closed channel included, and there
  is none while one of them is missing. When the task has received all packets of what the
  camera sent since, these are the last ones that the camera has sent. It takes that an aborted
  task does not go on. A reconnect of the watchdog is not seen by the worker, the state
  stays \<open>Streaming\<close> on the same channel: for it that is one session.\<close>

theorem pictures_of_current_session:
  assumes "list_all no_last_poll before" "sn_running (snapshot_run interval st0 chan0 before)"
    and "st \<noteq> Streaming" "list_all session_event evs"
    and "w = snapshot_run interval st0 chan0
               (before @ StateChanged st chan # StateChanged Streaming (Some ch) # evs)"
  shows "sn_jobs (snap_step w (Tick Streaming st' chan')) =
           sn_jobs w @ picture_of (session_units (Some reassembler_new) evs) \<and>
         (\<forall>q sent. concat (map polled evs) = map (\<lambda>(p, q). RtpPacket p q) (packetise q sent) \<longrightarrow>
            list_all sendable sent \<longrightarrow> session_units (Some reassembler_new) evs = concat (map nals_of sent))"
proof (intro conjI allI impI)
  have "interval \<noteq> 0" using assms(2) by (auto simp: snapshot_run_def split: if_splits)
  define v where "v = run snap_step (reevaluate st0 chan0 snapper_new) before"
  have "clean v" unfolding v_def
    by (intro clean_run clean_reevaluate assms(1)) (simp add: clean_def snapper_new_def)
  have v: "sn_running v" using assms(2) \<open>interval \<noteq> 0\<close> by (simp add: snapshot_run_def v_def)
  let ?d = "reevaluate st chan v"
  note d = down_resets [OF \<open>clean v\<close> assms(3), of chan]
  define u where "u = reevaluate Streaming (Some ch) ?d"
  have u: "sn_task u = Some \<lparr>st_chan = ch, st_reassembler = reassembler_new, st_finished = False\<rparr>"
    "sn_latest u = latest_default" "sn_running u"
    using d v by (simp_all add: u_def reevaluate_def [of Streaming])
  have w: "w = run snap_step u evs"
    using \<open>interval \<noteq> 0\<close> v by (simp add: assms(5) snapshot_run_def run_append u_def v_def [symmetric])
  have "sn_latest w = foldl store_nal latest_default (session_units (Some reassembler_new) evs)" "sn_running w"
    using session_run [OF u(1,3) assms(4)] u(2) by (simp_all add: w task_reader_def)
  then show "sn_jobs (snap_step w (Tick Streaming st' chan')) =
      sn_jobs w @ picture_of (session_units (Some reassembler_new) evs)"
    by (simp add: store_all snapshot_tick_def build_annex_b_def picture_of_def split: option.split)
next
  fix q sent
  assume p: "concat (map polled evs) = map (\<lambda>(p, q). RtpPacket p q) (packetise q sent)" "list_all sendable sent"
  have "\<forall>x\<in>set sent. sendable x" using p(2) by (simp add: list_all_iff)
  then show "session_units (Some reassembler_new) evs = concat (map nals_of sent)"
    using units_of_packets [OF p(1)] push_all_packetise by simp
qed

text \<open>Two sessions: the first one's units are gone, the second one's picture is made of its own.\<close>

definition next_session :: "snap_event list" where
  "next_session = map (\<lambda>(p, q). Polled (RtpPacket p q))
     (packetise 9 [Single 0x67 [2], Single 0x68 [3], Single 0x65 [4]])"

lemmas snap_eval = snapshot_run_def snapper_new_def reevaluate_def snap_consume_def next_session_def packetise_def
  push_def reassembler_new_def store_nal_def nal_unit_type_def latest_default_def
  snapshot_tick_def build_annex_b_def start_code_def Let_def

theorem pictures_of_current_session_witness:
  "sn_jobs (snap_step (snapshot_run 30 Idle None
      ([StateChanged Streaming (Some 0), Polled (RtpPacket [0x65, 1] 7), Tick Streaming Streaming (Some 0)] @
       StateChanged Idle None # StateChanged Streaming (Some 3) # next_session))
     (Tick Streaming Streaming (Some 3))) = [[0, 0, 0, 1, 0x67, 2, 0, 0, 0, 1, 0x68, 3, 0, 0, 0, 1, 0x65, 4]]"
proof -
  let ?before = "[StateChanged Streaming (Some 0), Polled (RtpPacket [0x65, 1] 7), Tick Streaming Streaming (Some 0)]"
  have "list_all no_last_poll ?before" "sn_running (snapshot_run 30 Idle None ?before)" "Idle \<noteq> Streaming"
    "list_all session_event next_session"
    "concat (map polled next_session) = map (\<lambda>(p, q). RtpPacket p q) (packetise 9 [Single 0x67 [2], Single 0x68 [3], Single 0x65 [4]])"
    "list_all sendable [Single 0x67 [2], Single 0x68 [3], Single 0x65 [4]]"
    by (simp_all add: snap_eval)
  with pictures_of_current_session [OF this(1-4) refl, of None 3 Streaming "Some 3"]
  have "sn_jobs (snap_step (snapshot_run 30 Idle None (?before @ StateChanged Idle None # StateChanged Streaming (Some 3) # next_session))
      (Tick Streaming Streaming (Some 3))) =
    sn_jobs (snapshot_run 30 Idle None (?before @ StateChanged Idle None # StateChanged Streaming (Some 3) # next_session)) @
      picture_of (concat (map nals_of [Single 0x67 [2], Single 0x68 [3], Single 0x65 [4]]))" by metis
  then show ?thesis by (simp only:) (simp add: snap_eval last_of_def picture_of_def)
qed

text \<open>The exception: an aborted task that is just being polled writes after the reset, and its
  units stay, for the worker resets them only when it drops a session.\<close>

lemma last_poll_leaks:
  "sn_jobs (snapshot_run 30 Idle None
      [StateChanged Streaming (Some 0), StateChanged Idle None, LastPoll 0 [0x65, 1] 7, Cancelled 0,
       StateChanged Connecting None, StateChanged Streaming (Some 3),
       Polled (RtpPacket [0x67, 2] 1), Polled (RtpPacket [0x68, 3] 2), Tick Streaming Streaming (Some 3)]) =
   [[0, 0, 0, 1, 0x67, 2, 0, 0, 0, 1, 0x68, 3, 0, 0, 0, 1, 0x65, 1]]"
  by (simp add: snap_eval)

end
