(* ===== verification/LiveRegistry.thy ===== *)
theory LiveRegistry
  imports Factory SupervisorProps
begin

text \<open>
  The live registry (\<open>src/live_outbound.rs\<close>) under the supervisor's reconnects: what the factory's
  \<open>connect\<close> and the drop of a stop handle (\<open>src/supervisor/webrtc_factory.rs\<close>) do to it when the
  watchdog replaces a session (\<open>src/supervisor/mod.rs\<close>).
\<close>

section \<open>The registry across a reconnect\<close>

text \<open>The sessions that a supervisor step drops; each drop runs \<open>Joiner::drop\<close>.\<close>

definition dropped_handles :: "supervisor \<Rightarrow> supervisor \<Rightarrow> nat set" where
  "dropped_handles s s' = set (handles s) - set (handles s')"

definition registry_after :: "supervisor \<Rightarrow> supervisor \<Rightarrow> registry \<Rightarrow> registry" where
  "registry_after s s' reg = (joiner_drop ^^ card (dropped_handles s s')) reg"

lemma replaced_handle:
  assumes full: "sup_full c s" and i: "i < length (watchdogs s)" "wd_pc (watchdogs s ! i) = WConnected sid"
    and same: "same_channel (wd_chan (watchdogs s ! i)) s"
  obtains old where "stop s = Some old" "old \<in> set (handles s)" "sid \<in> set (handles s)" "sid \<noteq> old"
proof -
  have h: "holders s k = of_bool (k \<in> set (handles s))" for k
    using full by (simp add: sup_full_def inv_handles_def)
  have "sup_inv c s" using full by (simp add: sup_full_def)
  then obtain old where old: "stop s = Some old"
    using same by (auto simp: sup_inv_def inv_data_def same_channel_def)
  have ge: "of_bool (stop s = Some k) + cnt (\<lambda>w. wd_holds k w) (watchdogs s) \<le> holders s k" for k
    unfolding holders_def using cnt_nonneg [of "sub_holds k" "subs s"] by linarith
  have "0 < cnt (\<lambda>w. wd_holds sid w) (watchdogs s)"
    using i by (intro cnt_pos [of "watchdogs s ! i"]) simp_all
  then have sid: "of_bool (stop s = Some sid) < holders s sid" using ge [of sid] by linarith
  then have "sid \<in> set (handles s)" "stop s \<noteq> Some sid" using h [of sid] by (auto split: if_splits)
  moreover have "0 < holders s old"
    using ge [of old] cnt_nonneg [of "\<lambda>w. wd_holds old w" "watchdogs s"] by (simp only: old of_bool_eq simp_thms)
  then have "old \<in> set (handles s)" using h [of old] by (auto split: if_splits)
  ultimately show thesis using that old by blast
qed

text \<open>C39. After every reconnect by a watchdog the live registry ends up empty although the session is
  live: in any reachable state in which a watchdog has just reconnected its session, \<open>connect\<close> has
  registered the new session, and the step that stores its stop handle drops exactly one session,
  the old one, whose clear task, when it runs, removes the registration of the new one. Commands
  then take the slow path, a transient connection, until the next full teardown.\<close>

theorem reconnect_unregisters:
  assumes "sup_reach c s" and "i < length (watchdogs s)" "wd_pc (watchdogs s ! i) = WConnected sid"
    and "same_channel (wd_chan (watchdogs s ! i)) s"
    and "factory_connect a sid reg = (Inr params, reg1)" and "rg_clears reg = 0"
  shows "\<exists>t. sup_step c (WdStep i) s = Some t \<and> sst t = Streaming \<and> stop t = Some sid \<and>
         sid \<in> set (handles t) \<and> rg_live reg1 = Some sid \<and>
         clear_task (registry_after s t reg1) = registry_empty"
proof -
  obtain old where old: "stop s = Some old" "old \<in> set (handles s)" "sid \<in> set (handles s)" "sid \<noteq> old"
    by (rule replaced_handle [OF reach_full [OF assms(1)] assms(2-4)])
  let ?t = "wd_connected c i sid s"
  have reg1: "reg1 = register_live sid reg"
    using assms(5) by (auto simp: factory_connect_def Let_def split: sum.splits)
  have t: "sst ?t = Streaming" "stop ?t = Some sid" "set (handles ?t) = set (handles s) - {old}"
    using assms(4) old(1) by (auto simp: wd_connected_def Let_def drop_stop_def drop_handle_def)
  have "dropped_handles s ?t = {old}" using t(3) old(2) by (auto simp: dropped_handles_def)
  then have "clear_task (registry_after s ?t reg1) = registry_empty"
    using assms(6) reg1
    by (simp add: registry_after_def joiner_drop_def clear_task_def register_live_def registry_empty_def)
  with t old assms(2,3) reg1 show ?thesis by (simp add: register_live_def)
qed

text \<open>The first session ends under its viewer, and the watchdog reconnects it.\<close>

definition reconnect_run :: "sup_label list" where
  "reconnect_run = first_viewer 0 @ [SessionEnds 1, WdStep 0, WdStep 0, WdDelay 0 1, Advance (secs 1),
     WdStep 0, WdStep 0, WdStep 0, ReconnectOk 0]"

theorem reconnect_unregisters_witness:
  "\<exists>s t. sup_run (demo_config True) reconnect_run (sup_new 0) = Some s \<and>
     sup_step (demo_config True) (WdStep 0) s = Some t \<and> sst t = Streaming \<and> stop t = Some 2 \<and>
     clear_task (registry_after s t (register_live 2 (register_live 1 registry_empty))) = registry_empty"
proof -
  have "\<exists>s. sup_run (demo_config True) reconnect_run (sup_new 0) = Some s \<and> 0 < length (watchdogs s) \<and>
      wd_pc (watchdogs s ! 0) = WConnected 2 \<and> same_channel (wd_chan (watchdogs s ! 0)) s"
    by (simp add: reconnect_run_def run_defs wd_delay_demo wd_reconnect_ok_def same_channel_def)
  then obtain s where s: "sup_run (demo_config True) reconnect_run (sup_new 0) = Some s" "0 < length (watchdogs s)"
    "wd_pc (watchdogs s ! 0) = WConnected 2" "same_channel (wd_chan (watchdogs s ! 0)) s" by blast
  from reconnect_unregisters [OF demo_reach [OF s(1)] s(2-4) ready_attempt_connects [of 2 "register_live 1 registry_empty"]] s(1)
  show ?thesis by (auto simp: register_live_def registry_empty_def)
qed

end
