(* ===== verification/StartUp.thy ===== *)
theory StartUp
  imports Config Auth Snapshot
begin

text \<open>
  The commands of \<open>src/main.rs\<close>: which camera is chosen, what \<open>serve\<close> spawns and with which
  settings, \<open>list-cameras\<close>, \<open>watch-stream\<close> and the one-shot commands. Errors are the context
  strings that \<open>anyhow\<close> puts in front; what the network answers is an argument.
\<close>

section \<open>What every command shares\<close>

text \<open>All requests go through one limiter, three permits and one more per minute; the
  orchestrator starts without tokens in memory.\<close>

definition main_limiter :: "time \<Rightarrow> rate_limiter" where
  "main_limiter now = rl_new 3 (secs 60) now"

definition main_auth :: "files \<Rightarrow> auth_endpoints \<times> orchestrator" where
  "main_auth fs = (auth_endpoints_default, orchestrator_new fs)"

section \<open>Choosing the camera\<close>

definition with_context :: "string \<Rightarrow> 'e + 'a \<Rightarrow> string + 'a" where
  "with_context what r = map_err (\<lambda>_. what) r"

text \<open>The first printer of the account, and its first camera.\<close>

definition select_camera ::
  "auth_error + string \<Rightarrow> request_error + printer list \<Rightarrow> (printer \<Rightarrow> request_error + camera list) \<Rightarrow> string + camera"
where
  "select_camera token printers cameras =
     rbind (with_context ''acquire access token'' token) (\<lambda>_.
     rbind (with_context ''list printers'' printers) (\<lambda>ps.
       case ps of
         [] \<Rightarrow> Inl ''no printers visible to this account''
       | p # _ \<Rightarrow>
           rbind (with_context (''list cameras for printer '' @ pr_uuid p) (cameras p)) (\<lambda>cs.
             case cs of [] \<Rightarrow> Inl ''no cameras visible on this printer'' | c # _ \<Rightarrow> Inr c)))"

section \<open>serve\<close>

definition serve_identity :: "string \<Rightarrow> config \<Rightarrow> camera \<Rightarrow> device_identity" where
  "serve_identity pkg cfg cam =
     \<lparr>di_camera_id = show_nat (unat (cam_id cam)), di_camera_name = selected_name cam, di_sw_version = pkg,
      di_topic_prefix = cf_mqtt_topic_prefix cfg, di_discovery_prefix = cf_mqtt_discovery_prefix cfg\<rparr>"

definition serve_hub_config :: "string \<Rightarrow> config \<Rightarrow> camera \<Rightarrow> broker_url \<Rightarrow> hub_config" where
  "serve_hub_config pkg cfg cam url =
     \<lparr>hc_broker = url, hc_username = cf_mqtt_username cfg, hc_password = cf_mqtt_password cfg,
      hc_client_id = (case cf_mqtt_client_id cfg of
         None \<Rightarrow> ''buddy3d-proxy-'' @ show_nat (unat (cam_id cam)) | Some i \<Rightarrow> i),
      hc_identity = serve_identity pkg cfg cam\<rparr>"

text \<open>The tasks with the settings they run under.\<close>

datatype task =
    HealthTask u16
  | MetricsTask string nat
  | HubTask mqtt_options device_identity
  | StateWatcherTask
  | StatusWatcherTask device_identity
  | SnapshotTask nat u32 u8
  | RtspTask string u16 string string nat   \<comment> \<open>address, port, camera name, path, idle timeout\<close>

text \<open>What is running when \<open>serve\<close> waits for Ctrl+C, or when it gives up: the tasks spawned so far
  and the result. An error ends the process, and the tasks with it.\<close>

definition serve_mqtt :: "string \<Rightarrow> config \<Rightarrow> camera \<Rightarrow> string + task list" where
  "serve_mqtt pkg cfg cam =
     (case cf_mqtt_broker_url cfg of
        None \<Rightarrow> Inr []
      | Some url \<Rightarrow>
          rbind (with_context ''mqtt connect'' (hub_connect (serve_hub_config pkg cfg cam url))) (\<lambda>opts.
            let d = serve_identity pkg cfg cam in
            Inr [HubTask opts d, StateWatcherTask, StatusWatcherTask d,
                 SnapshotTask (cf_snapshot_interval cfg) (cf_snapshot_max_width cfg) (cf_snapshot_jpeg_quality cfg)]))"

definition serve_tasks ::
  "string \<Rightarrow> config \<Rightarrow> string + camera \<Rightarrow> string + unit \<Rightarrow> task list \<times> (string + unit)"
where
  "serve_tasks pkg cfg selected bind_rtsp =
     (case selected of
        Inl e \<Rightarrow> ([], Inl e)
      | Inr cam \<Rightarrow>
          (let base = [HealthTask (cf_health_port cfg), MetricsTask (selected_name cam) (cf_metrics_interval cfg)] in
           case serve_mqtt pkg cfg cam of
             Inl e \<Rightarrow> (base, Inl e)
           | Inr ts \<Rightarrow>
               (case with_context ''rtsp server start'' bind_rtsp of
                  Inl e \<Rightarrow> (base @ ts, Inl e)
                | Inr _ \<Rightarrow>
                    (base @ ts @ [RtspTask (cf_rtsp_bind_addr cfg) (cf_rtsp_port cfg) (selected_name cam)
                       (selected_path cfg cam) (cf_idle_timeout cfg)], Inr ()))))"

section \<open>list-cameras\<close>

datatype listing = PrinterLine string string | CameraLine string u64 string

text \<open>The lines logged before the first printer whose cameras cannot be listed.\<close>

fun list_printer_cameras ::
  "(printer \<Rightarrow> request_error + camera list) \<Rightarrow> printer list \<Rightarrow> listing list \<times> (string + unit)"
where
  "list_printer_cameras cameras [] = ([], Inr ())"
| "list_printer_cameras cameras (p # ps) =
     (let first = PrinterLine (pr_uuid p) (pr_name p) in
      case with_context (''list cameras for printer '' @ pr_uuid p) (cameras p) of
        Inl e \<Rightarrow> ([first], Inl e)
      | Inr cs \<Rightarrow>
          (let (out, r) = list_printer_cameras cameras ps in
           (first # map (\<lambda>c. CameraLine (pr_uuid p) (cam_id c)
               (case cam_name c of None \<Rightarrow> ''(unnamed)'' | Some n \<Rightarrow> n)) cs @ out, r)))"

definition list_all_cameras ::
  "auth_error + string \<Rightarrow> request_error + printer list \<Rightarrow> (printer \<Rightarrow> request_error + camera list)
   \<Rightarrow> listing list \<times> (string + unit)"
where
  "list_all_cameras token printers cameras =
     (case rbind (with_context ''acquire access token'' token) (\<lambda>_. with_context ''list printers'' printers) of
        Inl e \<Rightarrow> ([], Inl e)
      | Inr ps \<Rightarrow> list_printer_cameras cameras ps)"

section \<open>watch-stream\<close>

definition watch_stages ::
  "string + camera \<Rightarrow> request_error + webrtc_config \<Rightarrow> signaling_error + signaling \<Rightarrow> session_error + unit
   \<Rightarrow> string + webrtc_session"
where
  "watch_stages selected cfg sig sess =
     rbind selected (\<lambda>cam.
     rbind (with_context ''fetch webrtc config'' cfg) (\<lambda>_.
     rbind (with_context ''connect signaling'' sig) (\<lambda>sg.
     rbind (with_context ''build webrtc session'' sess) (\<lambda>_.
       Inr (webrtc_session_new (cam_token cam) (sg_session_id sg))))))"

record packet_counter =
  pk_packets :: u64
  pk_bytes :: u64

definition count_packet :: "packet_counter \<Rightarrow> bytes \<Rightarrow> packet_counter" where
  "count_packet k payload =
     k\<lparr>pk_packets := pk_packets k + 1, pk_bytes := pk_bytes k + of_nat (length payload)\<rparr>"

section \<open>The one-shot commands\<close>

text \<open>The order differs: \<open>set-mode\<close> and \<open>set-quality\<close> check their argument before the camera is
  looked up; the transient connection then sends what it sends for MQTT.\<close>

definition cli_check :: "cli_command \<Rightarrow> string + unit" where
  "cli_check cmd = rbind (cli_payload [] cmd) (\<lambda>_. Inr ())"

definition cli_context :: "cli_command \<Rightarrow> string" where
  "cli_context cmd = (case cmd of RestartCamera _ \<Rightarrow> ''send restart trigger''
     | CliSetMode _ \<Rightarrow> ''send set_mode'' | CliSetQuality _ \<Rightarrow> ''send set_quality'')"

definition cli_run ::
  "cli_command \<Rightarrow> transient_error + camera \<Rightarrow> transient_env \<Rightarrow> string + outbound list"
where
  "cli_run cmd looked_up env =
     rbind (cli_check cmd) (\<lambda>_.
     rbind (with_context ''lookup camera'' looked_up) (\<lambda>cam.
     rbind (cli_payload (cam_token cam) cmd) (\<lambda>(kind, payload).
       with_context (cli_context cmd) (transient_send (cam_token cam) kind payload env))))"

section \<open>Properties\<close>

lemma hub_connect_cases:
  "(\<exists>o'. hub_connect hc = Inr o') \<longleftrightarrow> bu_host (hc_broker hc) \<noteq> None \<and> bu_port (hc_broker hc) \<noteq> None"
  by (auto simp: hub_connect_def rbind_Inr_iff ok_or_Inr_iff)

lemma hub_connect_will:
  "hub_connect hc = Inr opts \<Longrightarrow>
   mo_will_topic opts = topic_root (hc_identity hc) @ ''/availability'' \<and> mo_will_payload opts = ''offline''"
  by (auto simp: hub_connect_def rbind_Inr_iff)

lemma with_context_Inr [simp]: "with_context what r = Inr x \<longleftrightarrow> r = Inr x"
  by (cases r) (simp_all add: with_context_def)

lemma serve_hub_config_fields [simp]:
  "hc_broker (serve_hub_config pkg cfg cam url) = url"
  "hc_identity (serve_hub_config pkg cfg cam url) = serve_identity pkg cfg cam"
  by (simp_all add: serve_hub_config_def)

lemma serve_mqtt_Inr:
  "serve_mqtt pkg cfg cam = Inr ts \<longleftrightarrow>
   (case cf_mqtt_broker_url cfg of
      None \<Rightarrow> ts = []
    | Some url \<Rightarrow> \<exists>opts. hub_connect (serve_hub_config pkg cfg cam url) = Inr opts \<and>
        ts = [HubTask opts (serve_identity pkg cfg cam), StateWatcherTask,
              StatusWatcherTask (serve_identity pkg cfg cam),
              SnapshotTask (cf_snapshot_interval cfg) (cf_snapshot_max_width cfg) (cf_snapshot_jpeg_quality cfg)])"
  by (auto simp: serve_mqtt_def rbind_Inr_iff Let_def split: option.split)

lemma serve_mqtt_ok:
  "(\<exists>ts. serve_mqtt pkg cfg cam = Inr ts) \<longleftrightarrow>
   (\<forall>url. cf_mqtt_broker_url cfg = Some url \<longrightarrow> bu_host url \<noteq> None \<and> bu_port url \<noteq> None)"
proof (cases "cf_mqtt_broker_url cfg")
  case (Some url)
  then show ?thesis
    using hub_connect_cases [of "serve_hub_config pkg cfg cam url"] by (simp add: serve_mqtt_Inr)
qed (simp add: serve_mqtt_Inr)

lemma serve_mqtt_no_rtsp: "serve_mqtt pkg cfg cam = Inr ts \<Longrightarrow> RtspTask a b n pth i \<notin> set ts"
  by (auto simp: serve_mqtt_Inr split: option.splits)

lemma serve_hub_task:
  assumes "HubTask opts d \<in> set (fst (serve_tasks pkg cfg selected bind_rtsp))"
  obtains cam url where "hub_connect (serve_hub_config pkg cfg cam url) = Inr opts"
    "d = serve_identity pkg cfg cam"
proof (cases selected)
  case (Inr cam)
  show ?thesis
  proof (cases "serve_mqtt pkg cfg cam")
    case (Inr ts)
    then have "HubTask opts d \<in> set ts"
      using assms \<open>selected = Inr cam\<close> by (simp add: serve_tasks_def Let_def split: sum.splits)
    with Inr that show ?thesis by (auto simp: serve_mqtt_Inr split: option.splits)
  qed (use assms \<open>selected = Inr cam\<close> in \<open>simp add: serve_tasks_def Let_def\<close>)
qed (use assms in \<open>simp add: serve_tasks_def\<close>)

text \<open>When \<open>serve\<close> serves: the RTSP server runs exactly when a camera was found, the address can
  be bound and MQTT is either off or its broker URL has a host and a port; it then runs under the
  selected camera's name and path; in every other case \<open>serve\<close> ends with an error, so a broker URL
  without a port takes the stream down as well.\<close>

theorem serve_runs_iff:
  "(snd (serve_tasks pkg cfg selected bind_rtsp) = Inr ()) =
     (\<exists>cam u. selected = Inr cam \<and> bind_rtsp = Inr u \<and>
        (\<forall>url. cf_mqtt_broker_url cfg = Some url \<longrightarrow> bu_host url \<noteq> None \<and> bu_port url \<noteq> None)) \<and>
   (RtspTask a b n pth i \<in> set (fst (serve_tasks pkg cfg selected bind_rtsp))) =
     (snd (serve_tasks pkg cfg selected bind_rtsp) = Inr () \<and>
      (\<exists>cam. selected = Inr cam \<and> a = cf_rtsp_bind_addr cfg \<and> b = cf_rtsp_port cfg \<and>
         n = selected_name cam \<and> pth = selected_path cfg cam \<and> i = cf_idle_timeout cfg))"
proof (cases selected)
  case (Inr cam)
  show ?thesis
  proof (cases "serve_mqtt pkg cfg cam")
    case (Inl e)
    then have "\<nexists>ts. serve_mqtt pkg cfg cam = Inr ts" by simp
    with Inl \<open>selected = Inr cam\<close> show ?thesis
      unfolding serve_mqtt_ok by (simp add: serve_tasks_def Let_def)
  next
    case (Inr ts)
    then have ok: "\<forall>url. cf_mqtt_broker_url cfg = Some url \<longrightarrow> bu_host url \<noteq> None \<and> bu_port url \<noteq> None"
      using serve_mqtt_ok by blast
    with Inr serve_mqtt_no_rtsp [OF Inr, of a b n pth i] \<open>selected = Inr cam\<close> show ?thesis
      by (cases bind_rtsp) (auto simp: serve_tasks_def Let_def with_context_def)
  qed
qed (simp add: serve_tasks_def)

text \<open>Home Assistant notices when the proxy dies: the last will of the MQTT connection that \<open>serve\<close>
  opens says \<open>offline\<close> on the topic that every discovery message names as its availability topic,
  and the announcement publishes \<open>online\<close> there.\<close>

theorem offline_noticed:
  assumes "HubTask opts d \<in> set (fst (serve_tasks pkg cfg selected bind_rtsp))"
  shows "mo_will_payload opts = ''offline'' \<and>
         list_all (\<lambda>m. text_field ''availability_topic'' m = mo_will_topic opts) (discovery_all d) \<and>
         Publish (mo_will_topic opts) (to_bytes ''online'') \<in> set (announce print d)"
proof -
  obtain cam url where h: "hub_connect (serve_hub_config pkg cfg cam url) = Inr opts"
    "d = serve_identity pkg cfg cam" by (rule serve_hub_task [OF assms])
  then have "mo_will_topic opts = topic_root d @ ''/availability'' \<and> mo_will_payload opts = ''offline''"
    using hub_connect_will [OF h(1)] by simp
  then show ?thesis
    by (simp add: discovery_all_def text_field_def camera_entity_def state_sensor_def mode_select_def
        quality_select_def reboot_button_def announce_def)
qed

definition lan_config :: config where
  "lan_config = \<lparr>cf_prusa_email = ''a@b'', cf_prusa_password = ''pw'', cf_prusa_printer_uuid = None,
     cf_prusa_camera_id = None, cf_rtsp_port = 8554, cf_rtsp_path = None, cf_rtsp_bind_addr = ''0.0.0.0'',
     cf_idle_timeout = secs 60, cf_token_store_path = ''/data/tokens.json'', cf_health_port = 8080,
     cf_metrics_interval = secs 60,
     cf_mqtt_broker_url = Some \<lparr>bu_scheme = ''mqtt'', bu_host = Some ''broker'', bu_port = Some 1883\<rparr>,
     cf_mqtt_username = None, cf_mqtt_password = None, cf_mqtt_client_id = Some ''proxy'',
     cf_mqtt_discovery_prefix = ''homeassistant'', cf_mqtt_topic_prefix = ''buddy3d-proxy'',
     cf_snapshot_interval = secs 10, cf_snapshot_max_width = 1920, cf_snapshot_jpeg_quality = 75\<rparr>"

definition lan_camera :: camera where
  "lan_camera = \<lparr>cam_id = 7, cam_name = Some ''Core One'', cam_token = ''I47hv''\<rparr>"

definition lan_options :: mqtt_options where
  "lan_options = \<lparr>mo_client_id = ''proxy'', mo_host = ''broker'', mo_port = 1883, mo_keep_alive = 30,
     mo_max_packet = 4 * 1024 * 1024, mo_credentials = None, mo_will_topic = ''buddy3d-proxy/7/availability'',
     mo_will_payload = ''offline'', mo_tls = False\<rparr>"

theorem offline_noticed_witness:
  "list_all (\<lambda>m. text_field ''availability_topic'' m = ''buddy3d-proxy/7/availability'')
     (discovery_all (serve_identity ''0.3.1'' lan_config lan_camera))"
proof -
  have seven: "show_nat 7 = ''7''" by code_simp
  have "hub_connect (serve_hub_config ''0.3.1'' lan_config lan_camera
      \<lparr>bu_scheme = ''mqtt'', bu_host = Some ''broker'', bu_port = Some 1883\<rparr>) = Inr lan_options"
    by (simp add: hub_connect_def serve_hub_config_def serve_identity_def topic_root_def lan_config_def
        lan_camera_def lan_options_def seven)
  then have "serve_mqtt ''0.3.1'' lan_config lan_camera =
      Inr [HubTask lan_options (serve_identity ''0.3.1'' lan_config lan_camera), StateWatcherTask,
           StatusWatcherTask (serve_identity ''0.3.1'' lan_config lan_camera), SnapshotTask (secs 10) 1920 75]"
    by (simp add: serve_mqtt_Inr lan_config_def)
  then have "HubTask lan_options (serve_identity ''0.3.1'' lan_config lan_camera)
      \<in> set (fst (serve_tasks ''0.3.1'' lan_config (Inr lan_camera) (Inr ())))"
    by (simp add: serve_tasks_def Let_def with_context_def)
  from offline_noticed [OF this] show ?thesis by (simp add: lan_options_def)
qed

end
