(* ===== verification/ReconnectPacing.thy ===== *)
theory ReconnectPacing
  imports SupervisorProps
begin

text \<open>
  The pacing law of the reconnect budget, lifted to the supervisor (\<open>src/supervisor/mod.rs\<close>): a bound
  on the failed connects of every run, whatever the interleaving. \<open>ReconnectBudget\<close> proves it for a
  history in which each attempt starts with a token; here the check (\<open>wait_time\<close> in \<open>subscribe\<close>, the
  sleep of the watchdog) and the charge are separate transitions of concurrent tasks, and a
  watchdog whose session has been replaced may still spend a token in between.
\<close>

section \<open>Attempts and their guarantee\<close>

fun connecting :: "sub_pc \<Rightarrow> bool" where
  "connecting (SConnecting ch) \<longleftrightarrow> True"
| "connecting _ \<longleftrightarrow> False"

text \<open>A watchdog that may charge a failure without consulting the budget again.\<close>

fun spending :: "wd_pc \<Rightarrow> bool" where
  "spending WCheckCount \<longleftrightarrow> True"
| "spending WCheckFailed \<longleftrightarrow> True"
| "spending WConnecting \<longleftrightarrow> True"
| "spending _ \<longleftrightarrow> False"

fun attempting :: "wd_pc \<Rightarrow> bool" where
  "attempting (WSleep u) \<longleftrightarrow> True"
| "attempting pc \<longleftrightarrow> spending pc"

fun wake :: "wd_pc \<Rightarrow> time" where
  "wake (WSleep u) = u"
| "wake _ = 0"

lemma spending_attempting: "spending pc \<Longrightarrow> attempting pc"
  by (cases pc) simp_all

text \<open>The budget has a token at \<open>u\<close>, unless somebody takes one before.\<close>

definition ready_by :: "reconnect_budget \<Rightarrow> time \<Rightarrow> bool" where
  "ready_by b u \<longleftrightarrow> 0 < rb_level b \<or> rb_last b + rb_period b \<le> u"

definition wd_ready :: "supervisor \<Rightarrow> watchdog \<Rightarrow> bool" where
  "wd_ready s w \<longleftrightarrow> (same_channel (wd_chan w) s \<and> attempting (wd_pc w) \<longrightarrow>
     ready_by (budget s) (max (clock s) (wake (wd_pc w))))"

definition all_ready :: "supervisor \<Rightarrow> bool" where
  "all_ready s \<longleftrightarrow> (\<forall>pc\<in>set (subs s). connecting pc \<longrightarrow> ready_by (budget s) (clock s)) \<and>
                  (\<forall>w\<in>set (watchdogs s). wd_ready s w)"

text \<open>The watchdogs that have a charge left beyond the budget's control: the current one, and each
  replaced one until its last attempt has ended.\<close>

definition claims :: "supervisor \<Rightarrow> int" where
  "claims s = cnt (\<lambda>w. same_channel (wd_chan w) s \<or> spending (wd_pc w)) (watchdogs s)"

definition period :: int where "period = int default_refill_period"

definition budget_inv :: "supervisor \<Rightarrow> bool" where
  "budget_inv s \<longleftrightarrow> rb_ok (budget s) \<and> rb_last (budget s) \<le> clock s \<and>
     rb_capacity (budget s) = default_capacity \<and> rb_period (budget s) = default_refill_period"

text \<open>What the budget can still let through, in units of time.\<close>

definition credit :: "supervisor \<Rightarrow> int" where
  "credit s = int (rb_value (budget s) (clock s)) - int (clock s) +
     period * (of_bool (\<not> all_ready s) + claims s - int (length (watchdogs s)))"

section \<open>Budget operations\<close>

lemma ready_by_mono: "ready_by b u \<Longrightarrow> u \<le> v \<Longrightarrow> ready_by b v"
  by (auto simp: ready_by_def)

lemma budget_inv_cap: "budget_inv s \<Longrightarrow> 0 < rb_cap (budget s)"
  by (simp add: budget_inv_def default_capacity_def)

lemma refill_ready:
  assumes ok: "rb_ok b" and cap: "0 < rb_cap b" and r: "rb_refill now b = Ret b'" and b: "ready_by b u"
  shows "ready_by b' u"
  using ok
  by (cases rule: rb_refill_cases [OF ok, of now, case_names full none top part])
     (use r cap b in \<open>auto simp: ready_by_def\<close>)

lemma refill_grants:
  assumes ok: "rb_ok b" and cap: "0 < rb_cap b" and r: "rb_refill now b = Ret b'" and b: "ready_by b now"
  shows "0 < rb_level b'"
  using ok
  by (cases rule: rb_refill_cases [OF ok, of now, case_names full none top part])
     (use r cap b in \<open>auto simp: ready_by_def\<close>)

lemma with_refill:
  assumes "budget_inv s"
  obtains b where "rb_refill (clock s) (budget s) = Ret b" "budget_inv (s\<lparr>budget := b\<rparr>)"
    "rb_value b (clock s) \<le> rb_value (budget s) (clock s)"
    "\<And>u. ready_by (budget s) u \<Longrightarrow> ready_by b u" "ready_by (budget s) (clock s) \<Longrightarrow> 0 < rb_level b"
proof -
  have ok: "rb_ok (budget s)" and last: "rb_last (budget s) \<le> clock s"
    using assms by (auto simp: budget_inv_def)
  obtain b where b: "rb_refill (clock s) (budget s) = Ret b" "rb_ok b" "rb_capacity b = rb_capacity (budget s)"
    "rb_period b = rb_period (budget s)" "rb_last b \<le> clock s"
    using rb_refill_ok [OF ok, of "clock s"] last by auto
  show thesis
    by (rule that [OF b(1)])
      (use assms b rb_refill_value [OF ok last b(1)] refill_ready [OF ok budget_inv_cap [OF assms] b(1)]
        refill_grants [OF ok budget_inv_cap [OF assms] b(1)] in \<open>auto simp: budget_inv_def\<close>)
qed

lemma credit_le:
  assumes "int (rb_value (budget t) (clock t)) - int (clock t)
      \<le> int (rb_value (budget s) (clock s)) - int (clock s) + period * d"
    and "of_bool (\<not> all_ready t) + claims t - int (length (watchdogs t)) + e
      \<le> of_bool (\<not> all_ready s) + claims s - int (length (watchdogs s))"
  shows "credit t + period * e \<le> credit s + period * d"
proof -
  have "0 \<le> period" by (simp add: period_def)
  with assms(2) have "period * (of_bool (\<not> all_ready t) + claims t - int (length (watchdogs t)) + e) \<le>
      period * (of_bool (\<not> all_ready s) + claims s - int (length (watchdogs s)))"
    by (rule mult_left_mono)
  with assms(1) show ?thesis unfolding credit_def by (simp only: distrib_left)
qed

lemma credit_refill:
  assumes "budget_inv s" "rb_refill (clock s) (budget s) = Ret b"
  shows "budget_inv (s\<lparr>budget := b\<rparr>) \<and> credit (s\<lparr>budget := b\<rparr>) \<le> credit s"
proof -
  let ?t = "s\<lparr>budget := b\<rparr>"
  obtain b' where "rb_refill (clock s) (budget s) = Ret b'" "budget_inv (s\<lparr>budget := b'\<rparr>)"
    "rb_value b' (clock s) \<le> rb_value (budget s) (clock s)"
    "\<And>u. ready_by (budget s) u \<Longrightarrow> ready_by b' u"
    using with_refill [OF assms(1)] by metis
  moreover from this(1) assms(2) have "b' = b" by simp
  ultimately have b: "budget_inv ?t" "rb_value b (clock s) \<le> rb_value (budget s) (clock s)"
    "\<And>u. ready_by (budget s) u \<Longrightarrow> ready_by b u" by simp_all
  have "all_ready s \<Longrightarrow> all_ready ?t"
    using b(3) by (auto simp: all_ready_def wd_ready_def same_channel_def)
  then have "credit ?t + period * 0 \<le> credit s + period * 0"
    by (intro credit_le) (use b(2) in \<open>auto simp: claims_def same_channel_def\<close>)
  with b(1) show ?thesis by simp
qed

section \<open>Transitions that leave the budget alone\<close>

lemma claims_mono:
  assumes "\<And>w. w \<in> set (watchdogs s) \<Longrightarrow> same_channel (wd_chan w) t \<Longrightarrow>
      same_channel (wd_chan w) s \<or> spending (wd_pc w)" and "watchdogs t = watchdogs s"
  shows "claims t \<le> claims s"
proof -
  have "filter (\<lambda>w. same_channel (wd_chan w) t \<or> spending (wd_pc w)) ws =
      filter (\<lambda>w. (same_channel (wd_chan w) s \<or> spending (wd_pc w)) \<and>
                  (same_channel (wd_chan w) t \<or> spending (wd_pc w))) ws"
    if "set ws \<subseteq> set (watchdogs s)" for ws
    using that assms(1) by (intro filter_cong) auto
  then have "claims t = cnt (\<lambda>w. (same_channel (wd_chan w) s \<or> spending (wd_pc w)) \<and>
                  (same_channel (wd_chan w) t \<or> spending (wd_pc w))) (watchdogs s)"
    by (simp add: claims_def cnt_def assms(2))
  also have "\<dots> \<le> claims s" unfolding claims_def by (rule cnt_mono) simp
  finally show ?thesis .
qed

lemma calm:
  assumes "budget t = budget s" "clock t = clock s" "watchdogs t = watchdogs s"
    and r: "\<And>w. w \<in> set (watchdogs s) \<Longrightarrow> same_channel (wd_chan w) t \<Longrightarrow> same_channel (wd_chan w) s"
    and subs: "\<And>pc. pc \<in> set (subs t) \<Longrightarrow> connecting pc \<Longrightarrow> pc \<in> set (subs s) \<or> 0 < rb_level (budget s)"
  shows "credit t \<le> credit s"
proof -
  have "all_ready s \<Longrightarrow> all_ready t"
    using r subs unfolding all_ready_def wd_ready_def assms(1-3) by (fastforce simp: ready_by_def)
  then have "credit t + period * 0 \<le> credit s + period * 0"
    using claims_mono [of s t] r assms(1-3) by (intro credit_le) auto
  then show ?thesis by simp
qed

lemma calm_sub:
  assumes "budget t = budget s" "clock t = clock s" "watchdogs t = watchdogs s"
    and "rtp_tx t = rtp_tx s \<or> rtp_tx t = None"
    and "subs t = (subs s)[i := pc]" "connecting pc \<Longrightarrow> 0 < rb_level (budget s)"
  shows "credit t \<le> credit s"
proof (rule calm [OF assms(1-3)])
  fix pc' assume "pc' \<in> set (subs t)" "connecting pc'"
  then show "pc' \<in> set (subs s) \<or> 0 < rb_level (budget s)"
    using assms(5,6) set_update_subset_insert [of "subs s" i pc] by auto
qed (use assms(4) in \<open>auto simp: same_channel_def\<close>)

lemma calm_wd:
  assumes f: "budget t = budget s" "clock t = clock s" "subs t = subs s" "rtp_tx t = rtp_tx s"
    and i: "i < length (watchdogs s)" "watchdogs t = (watchdogs s)[i := w]"
    and c: "wd_chan w = wd_chan (watchdogs s ! i)"
    and sp: "spending (wd_pc w) \<Longrightarrow> spending (wd_pc (watchdogs s ! i)) \<or> same_channel (wd_chan w) s"
    and rd: "wd_ready s (watchdogs s ! i) \<Longrightarrow> wd_ready s w"
  shows "credit t \<le> credit s"
proof -
  have "same_channel k t = same_channel k s" for k by (simp add: same_channel_def f(4))
  then have wr: "wd_ready t v = wd_ready s v" and
    cl: "claims t = cnt (\<lambda>w. same_channel (wd_chan w) s \<or> spending (wd_pc w)) (watchdogs t)" for v
    unfolding wd_ready_def claims_def f by simp_all
  have "claims t \<le> claims s"
    using sp c unfolding cl i(2) cnt_update [OF i(1) refl] claims_def [of s] by auto
  moreover have "all_ready t" if "all_ready s"
  proof -
    from that have "\<forall>v\<in>set (watchdogs s). wd_ready s v" by (simp add: all_ready_def)
    moreover from this have "wd_ready s w" using rd i(1) by simp
    ultimately have "\<forall>v\<in>set (watchdogs t). wd_ready t v" unfolding wr i(2) by (rule ball_update)
    with that show ?thesis by (simp add: all_ready_def f)
  qed
  ultimately have "credit t + period * 0 \<le> credit s + period * 0"
    by (intro credit_le) (auto simp: f i)
  then show ?thesis by simp
qed

section \<open>Transitions that charge the budget\<close>

lemma credit_earn:
  assumes inv: "budget_inv s" and r: "rb_refill (clock s) (budget s) = Ret b"
  shows "budget_inv (s\<lparr>budget := rb_earn b\<rparr>) \<and> credit (s\<lparr>budget := rb_earn b\<rparr>) \<le> credit s + period"
proof -
  let ?s = "s\<lparr>budget := b\<rparr>" and ?t = "s\<lparr>budget := rb_earn b\<rparr>"
  note b = credit_refill [OF inv r]
  then have ok: "rb_ok b" and cap: "0 < rb_cap b" using budget_inv_cap [of ?s] by (auto simp: budget_inv_def)
  have P: "int (rb_period b) = period" using b by (simp add: budget_inv_def period_def)
  from budget.earn_law [OF ok] cap have e: "rb_ok (rb_earn b)" "0 < rb_level (rb_earn b)" by auto
  then have "all_ready ?t" by (simp add: all_ready_def wd_ready_def ready_by_def)
  moreover have "claims ?t = claims ?s" by (simp add: claims_def same_channel_def)
  ultimately have "credit ?t + period * 0 \<le> credit ?s + period * 1"
    using rb_earn_value [OF ok, of "clock s"] P by (intro credit_le) simp_all
  moreover have "budget_inv ?t" using b e(1) by (simp add: budget_inv_def rb_earn_def)
  ultimately show ?thesis using b by simp
qed

lemma spend_zero: "rb_level b = 0 \<Longrightarrow> rb_spend b = b"
  by (simp add: rb_spend_def sat_sub_def unsigned_eq_0_iff)

text \<open>A failed attempt is paid for by a token, by the guarantee it had lost, or by the claim of the
  watchdog that made it.\<close>

lemma credit_fail:
  assumes inv: "budget_inv s" and r: "rb_refill (clock s) (budget s) = Ret b"
    and t: "budget t = rb_spend b" "clock t = clock s" "length (watchdogs t) = length (watchdogs s)"
    and pay: "claims t \<le> claims s \<and> all_ready t \<and> (all_ready s \<longrightarrow> ready_by (budget s) (clock s)) \<or>
              claims t + 1 \<le> claims s \<and> (rb_level b = 0 \<longrightarrow> all_ready s \<longrightarrow> all_ready t)"
  shows "budget_inv t \<and> credit t + period \<le> credit s"
proof -
  obtain b' where "rb_refill (clock s) (budget s) = Ret b'" "budget_inv (s\<lparr>budget := b'\<rparr>)"
    "rb_value b' (clock s) \<le> rb_value (budget s) (clock s)" "ready_by (budget s) (clock s) \<Longrightarrow> 0 < rb_level b'"
    using with_refill [OF inv] by metis
  moreover from this(1) r have "b' = b" by simp
  ultimately have b: "budget_inv (s\<lparr>budget := b\<rparr>)" "rb_value b (clock s) \<le> rb_value (budget s) (clock s)"
    "ready_by (budget s) (clock s) \<Longrightarrow> 0 < rb_level b" by simp_all
  have P: "int (rb_period (budget s)) = period" using inv by (simp add: budget_inv_def period_def)
  have ok: "rb_ok (budget s)" using inv by (simp add: budget_inv_def)
  have okb: "rb_ok b" using b(1) by (simp add: budget_inv_def)
  have "rb_ok (rb_spend b)"
    using budget.spend_law [OF okb] spend_zero [of b] okb by (cases "rb_level b = 0") auto
  then have inv': "budget_inv t" using b(1) t by (simp add: budget_inv_def rb_spend_def)
  have "credit t + period \<le> credit s"
  proof (cases "0 < rb_level b")
    case True
    have "credit t + period * 0 \<le> credit s + period * (- 1)"
      using rb_spend_value [OF ok r True] b(2) P t pay b(3) by (intro credit_le) auto
    then show ?thesis by simp
  next
    case False
    then have z: "rb_level b = 0" by simp
    have "credit t + period * 1 \<le> credit s + period * 0"
      using spend_zero [OF z] b(2) t pay b(3) False by (intro credit_le) auto
    then show ?thesis by simp
  qed
  with inv' show ?thesis by simp
qed

section \<open>At most one attempt of the current session\<close>

lemma connecting_connector: "connecting pc \<Longrightarrow> connector pc"
  by (cases pc) simp_all

lemma sole_subscriber:
  assumes full: "sup_full c s" and i: "i < length (subs s)" "connecting (subs s ! i)"
    and t: "subs t = (subs s)[i := pc]" "\<not> connecting pc" "watchdogs t = watchdogs s" "rtp_tx t = rtp_tx s"
  shows "all_ready t \<and> claims t = claims s"
proof -
  have inv: "sup_inv c s" using full by (simp add: sup_full_def)
  have "sst s = Connecting"
    using connector_connecting [OF inv, of "subs s ! i"] i connecting_connector by simp
  then have chan: "rtp_tx s = None" using inv by (simp add: sup_inv_def inv_data_def)
  have "cnt connecting (subs s) \<le> cnt connector (subs s)"
    by (rule cnt_mono) (rule connecting_connector)
  also have "\<dots> \<le> 1" using inv by (simp add: sup_inv_def inv_conn_def)
  finally have "cnt connecting (subs t) \<le> 0"
    using i(2) t(2) unfolding t(1) cnt_update [OF i(1) refl] by simp
  then have "cnt connecting (subs t) = 0" using cnt_nonneg [of connecting "subs t"] by linarith
  then have "\<And>pc. pc \<in> set (subs t) \<Longrightarrow> \<not> connecting pc" by (rule cnt_zero)
  with chan t show ?thesis
    by (auto simp: all_ready_def wd_ready_def claims_def same_channel_def)
qed

lemma sole_watchdog:
  assumes full: "sup_full c s" and i: "i < length (watchdogs s)" "attempting (wd_pc (watchdogs s ! i))"
      "same_channel (wd_chan (watchdogs s ! i)) s"
    and t: "watchdogs t = (watchdogs s)[i := w]" "\<not> attempting (wd_pc w)" "subs t = subs s" "rtp_tx t = rtp_tx s"
  shows "all_ready t"
proof -
  let ?ch = "wd_chan (watchdogs s ! i)" and ?A = "\<lambda>w. wd_chan w = wd_chan (watchdogs s ! i) \<and> attempting (wd_pc w)"
  have inv: "sup_inv c s" using full by (simp add: sup_full_def)
  have chan: "rtp_tx s = Some ?ch" using i(3) by (simp add: same_channel_def)
  then have "sst s = Streaming" using inv by (auto simp: sup_inv_def inv_data_def)
  then have none: "\<And>pc. pc \<in> set (subs s) \<Longrightarrow> \<not> connecting pc"
    using connector_connecting(1) [OF inv] connecting_connector by force
  have "cnt ?A (watchdogs s) \<le> cnt (\<lambda>w. wd_chan w = ?ch) (watchdogs s)" by (rule cnt_mono) simp
  also have "\<dots> \<le> owners s ?ch" by (simp add: owners_def)
  also have "\<dots> \<le> 1" using full by (simp add: sup_full_def inv_owners_def)
  finally have "cnt ?A (watchdogs t) \<le> 0"
    using i(2) t(2) unfolding t(1) cnt_update [OF i(1) refl] by simp
  then have "cnt ?A (watchdogs t) = 0" using cnt_nonneg [of ?A "watchdogs t"] by linarith
  then have "\<And>v. v \<in> set (watchdogs t) \<Longrightarrow> \<not> ?A v" by (rule cnt_zero)
  with none chan t(3,4) show ?thesis
    by (auto simp: all_ready_def wd_ready_def same_channel_def)
qed

section \<open>Every transition\<close>

lemma budget_inv_cong: "budget_inv s \<Longrightarrow> budget t = budget s \<Longrightarrow> clock t = clock s \<Longrightarrow> budget_inv t"
  by (simp add: budget_inv_def)

text \<open>A positive answer of \<open>wait_time\<close> is the time to the next token.\<close>

lemma refill_empty:
  assumes ok: "rb_ok b" and cap: "0 < rb_cap b" and r: "rb_refill now b = Ret b'" and "rb_level b' = 0"
  shows "now - rb_last b' < rb_period b'"
  using ok
  by (cases rule: rb_refill_cases [OF ok, of now, case_names full none top part])
     (use r cap assms(4) in auto)

lemma with_wait:
  assumes inv: "budget_inv s"
  obtains w b where "rb_wait_time (clock s) (budget s) = Ret (w, b)" "budget_inv (s\<lparr>budget := b\<rparr>)"
    "credit (s\<lparr>budget := b\<rparr>) \<le> credit s" "w = 0 \<Longrightarrow> 0 < rb_level b" "ready_by b (clock s + w)"
proof -
  obtain b where r: "rb_refill (clock s) (budget s) = Ret b" using with_refill [OF inv] by metis
  define w where "w = (if 0 < rb_tokens b then 0 else rb_period b - (clock s - rb_last b))"
  have "rb_ok (budget s)" using inv by (simp add: budget_inv_def)
  note e = refill_empty [OF this budget_inv_cap [OF inv] r]
  have z: "0 < rb_tokens b \<longleftrightarrow> 0 < rb_level b" by (simp add: word_less_nat_alt)
  note b = credit_refill [OF inv r]
  moreover have "rb_wait_time (clock s) (budget s) = Ret (w, b)"
    by (simp add: rb_wait_time_def r w_def)
  moreover have "0 < rb_level b" if "w = 0" using that e z by (auto simp: w_def split: if_splits)
  moreover have "ready_by b (clock s + w)"
    using e z b by (auto simp: ready_by_def w_def budget_inv_def)
  ultimately show thesis using that by blast
qed

lemma pace_acquire:
  assumes inv: "budget_inv s"
  shows "budget_inv (sub_acquire c i s) \<and> credit (sub_acquire c i s) \<le> credit s"
proof (cases "sst s")
  case Idle
  obtain w b where wait: "rb_wait_time (clock s) (budget s) = Ret (w, b)" "budget_inv (s\<lparr>budget := b\<rparr>)"
    "credit (s\<lparr>budget := b\<rparr>) \<le> credit s" "w = 0 \<Longrightarrow> 0 < rb_level b"
    using with_wait [OF inv] by metis
  let ?s = "s\<lparr>budget := b\<rparr>" and ?t = "sub_acquire c i s"
  have f: "budget ?t = budget ?s" "clock ?t = clock ?s" "watchdogs ?t = watchdogs ?s" "rtp_tx ?t = rtp_tx ?s"
    "subs ?t = (subs ?s)[i := if w = 0 then SConnecting (next_id s) else SRollback False]"
    using Idle wait(1) by (simp_all add: sub_acquire_def with_budget_def sub_goto_def Let_def)
  have "credit ?t \<le> credit ?s"
    by (rule calm_sub [OF f(1-3) _ f(5)]) (use f(4) wait(4) in \<open>auto split: if_splits\<close>)
  with wait(2,3) budget_inv_cong [OF wait(2) f(1,2)] show ?thesis by simp
next
  case Connecting
  have "credit (sub_acquire c i s) \<le> credit s"
    by (rule calm_sub [of _ _ i SWatching]) (simp_all add: Connecting sub_acquire_def sub_goto_def)
  then show ?thesis
    using budget_inv_cong [OF inv] by (simp add: Connecting sub_acquire_def sub_goto_def)
next
  case Streaming
  have "credit (sub_acquire c i s) \<le> credit s"
    by (rule calm_sub [of _ _ i SJoin]) (simp_all add: Streaming sub_acquire_def sub_goto_def)
  then show ?thesis
    using budget_inv_cong [OF inv] by (simp add: Streaming sub_acquire_def sub_goto_def)
qed

lemma pace_connected:
  assumes full: "sup_full c s" and i: "i < length (subs s)" "subs s ! i = SConnected ch p sid"
    and inv: "budget_inv s"
  shows "credit (sub_connected c i ch p sid s) \<le> credit s"
proof -
  let ?t = "sub_connected c i ch p sid s"
  have "subs s ! i \<in> set (subs s)" using i(1) by simp
  then have "0 < cnt (sub_owns ch) (subs s)" by (rule cnt_pos) (simp add: i(2))
  moreover have "owners s ch \<le> 1" using full by (simp add: sup_full_def inv_owners_def)
  moreover have "0 \<le> cnt (\<lambda>w. wd_chan w = ch) (watchdogs s)" by simp
  ultimately have "cnt (\<lambda>w. wd_chan w = ch) (watchdogs s) = 0" unfolding owners_def by linarith
  then have none: "\<And>w. w \<in> set (watchdogs s) \<Longrightarrow> wd_chan w \<noteq> ch" by (rule cnt_zero)
  have f: "budget ?t = budget s" "clock ?t = clock s" "watchdogs ?t = watchdogs s" "rtp_tx ?t = Some ch"
    "subs ?t = (subs s)[i := SSpawn ch sid]"
    by (simp_all add: sub_connected_def sub_goto_def Let_def)
  show ?thesis
  proof (rule calm [OF f(1-3)])
    fix pc assume "pc \<in> set (subs ?t)" "connecting pc"
    then show "pc \<in> set (subs s) \<or> 0 < rb_level (budget s)"
      unfolding f(5) using set_update_subset_insert [of "subs s" i "SSpawn ch sid"] by auto
  qed (use none f(4) in \<open>auto simp: same_channel_def\<close>)
qed

lemma pace_spawn: "credit (sub_spawn i ch sid s) \<le> credit s"
proof -
  let ?t = "sub_spawn i ch sid s" and ?w = "\<lparr>wd_chan = ch, wd_backoff = eb_new, wd_pc = WWait sid\<rparr>"
  have f: "budget ?t = budget s" "clock ?t = clock s" "watchdogs ?t = watchdogs s @ [?w]"
    "rtp_tx ?t = rtp_tx s" "subs ?t = (subs s)[i := SJoin]"
    by (simp_all add: sub_spawn_def sub_goto_def)
  have sc: "same_channel k ?t = same_channel k s" for k by (simp add: same_channel_def f(4))
  have "all_ready ?t" if "all_ready s"
  proof -
    have "\<forall>pc\<in>set (subs ?t). connecting pc \<longrightarrow> ready_by (budget s) (clock s)"
      unfolding f(5) by (rule ball_update) (use that in \<open>auto simp: all_ready_def\<close>)
    moreover have "wd_ready ?t v = wd_ready s v" for v unfolding wd_ready_def sc f(1,2) ..
    moreover have "wd_ready s ?w" by (simp add: wd_ready_def)
    ultimately show ?thesis using that unfolding all_ready_def f(1-3) by simp
  qed
  moreover have "claims ?t \<le> claims s + 1" unfolding claims_def sc f(3) by simp
  ultimately have "credit ?t + period * 0 \<le> credit s + period * 0"
    by (intro credit_le) (auto simp: f)
  then show ?thesis by simp
qed

definition paced :: "supervisor \<Rightarrow> supervisor \<Rightarrow> bool" where
  "paced s t \<longleftrightarrow> budget_inv t \<and> credit t \<le> credit s"

lemma paced_goto:
  assumes "budget_inv s" "budget t = budget s" "clock t = clock s" "watchdogs t = watchdogs s"
    "rtp_tx t = rtp_tx s \<or> rtp_tx t = None" "subs t = (subs s)[i := pc]" "\<not> connecting pc"
  shows "paced s t"
  unfolding paced_def
  using budget_inv_cong [OF assms(1-3)] calm_sub [OF assms(2-6)] assms(7) by simp

lemma pace_sub_step:
  assumes full: "sup_full c s" and inv: "budget_inv s" and i: "i < length (subs s)" "subs s ! i = pc"
    and t: "sub_step c i pc s = Some t"
  shows "paced s t"
proof (cases pc)
  case SAttached
  then show ?thesis using t pace_acquire [OF inv, of c i] by (simp add: paced_def)
next
  case (SConnected ch p sid)
  then show ?thesis
    using t i pace_connected [OF full i(1) _ inv] budget_inv_cong [OF inv]
    by (auto simp: paced_def sub_connected_def sub_goto_def Let_def)
next
  case (SSpawn ch sid)
  then show ?thesis
    using t pace_spawn budget_inv_cong [OF inv] by (auto simp: paced_def sub_spawn_def sub_goto_def)
next
  case SConnectFailed
  then show ?thesis
    using t by (intro paced_goto [OF inv, of _ i "SRollback True"])
      (auto simp: sub_connect_failed_def sub_goto_def Let_def split: if_splits)
next
  case SCounted
  then show ?thesis
    using t by (intro paced_goto [OF inv, of _ i SAttached]) (auto simp: sub_goto_def send_event_def)
next
  case SWatching
  then show ?thesis
    using t by (intro paced_goto [OF inv, of _ i SWatch]) (auto simp: sub_goto_def)
next
  case SWatch
  then show ?thesis
    using t by (intro paced_goto [OF inv, of _ i "if watched s = Streaming then SJoin else SRollback False"])
      (auto simp: sub_watch_def sub_goto_def split: sup_state.splits)
next
  case (SRollback e)
  then show ?thesis
    using t by (intro paced_goto [OF inv, of _ i SDone])
      (auto simp: sub_rollback_def sub_goto_def send_event_def Let_def split: if_splits)
next
  case SJoin
  then show ?thesis
    using t by (intro paced_goto [OF inv, of _ i "subs t ! i"])
      (use i in \<open>auto simp: sub_join_def sub_goto_def split: option.splits\<close>)
qed (use t in simp_all)

lemma paced_wd:
  assumes inv: "budget_inv s" and f: "budget t = budget s" "clock t = clock s" "subs t = subs s" "rtp_tx t = rtp_tx s"
    and i: "i < length (watchdogs s)" "wd_pc (watchdogs s ! i) = pc"
    and w: "watchdogs t = (watchdogs s)[i := w]" "wd_chan w = wd_chan (watchdogs s ! i)"
    and ok: "\<not> attempting (wd_pc w) \<or> spending pc \<and> spending (wd_pc w) \<or>
             same_channel (wd_chan w) s \<and> spending (wd_pc w) \<and> pc = WSleep u \<and> u \<le> clock s"
  shows "paced s t"
proof -
  have k: "wake q = 0" if "spending q" for q using that by (cases q) simp_all
  have "credit t \<le> credit s"
    by (rule calm_wd [OF f i(1) w])
      (use ok w(2) i(2) k spending_attempting in \<open>auto simp: wd_ready_def max_absorb1\<close>)
  then show ?thesis using budget_inv_cong [OF inv f(1,2)] by (simp add: paced_def)
qed

lemma pace_wd_step:
  assumes inv: "budget_inv s" and i: "i < length (watchdogs s)" "wd_pc (watchdogs s ! i) = pc"
    and t: "wd_step c i pc s = Some t"
  shows "paced s t"
proof -
  note move = paced_wd [OF inv _ _ _ _ i]
  let ?w = "\<lambda>q. (watchdogs s ! i)\<lparr>wd_pc := q\<rparr>"
  have go: "paced s (wd_goto i q s)"
    if "\<not> attempting q \<or> spending pc \<and> spending q \<or>
        same_channel (wd_chan (watchdogs s ! i)) s \<and> spending q \<and> pc = WSleep u \<and> u \<le> clock s" for q u
    using that by (intro move [of _ "?w q" u]) (auto simp: wd_goto_def)
  show ?thesis
  proof (cases pc)
    case (WSleep u)
    with t have "u \<le> clock s"
      "t = wd_goto i (if same_channel (wd_chan (watchdogs s ! i)) s then WCheckCount else WDone) s"
      by (auto split: if_splits)
    with WSleep show ?thesis by (auto intro: go)
  next
    case (WConnected sid)
    then show ?thesis
      using t by (intro move [of _ "watchdogs t ! i" 0])
        (use i in \<open>auto simp: wd_connected_def wd_goto_def drop_handle_def Let_def split: if_splits\<close>)
  qed (use t in \<open>auto intro!: go [of _ 0] split: if_splits\<close>)
qed

lemma pace_wd_delay:
  assumes inv: "budget_inv s" and i: "i < length (watchdogs s)"
  shows "paced s (wd_delay c i j s)"
proof -
  obtain w b where wait: "rb_wait_time (clock s) (budget s) = Ret (w, b)" "budget_inv (s\<lparr>budget := b\<rparr>)"
    "credit (s\<lparr>budget := b\<rparr>) \<le> credit s" "ready_by b (clock s + w)"
    using with_wait [OF inv] by metis
  let ?s = "s\<lparr>budget := b\<rparr>" and ?t = "wd_delay c i j s"
  obtain d bo where d: "eb_next_delay (rounding c) j (wd_backoff (watchdogs s ! i)) = (d, bo)"
    by (rule prod.exhaust)
  let ?w = "(watchdogs s ! i)\<lparr>wd_backoff := bo, wd_pc := WSleep (clock s + max d w)\<rparr>"
  have f: "budget ?t = budget ?s" "clock ?t = clock ?s" "subs ?t = subs ?s" "rtp_tx ?t = rtp_tx ?s"
    "watchdogs ?t = (watchdogs ?s)[i := ?w]"
    using wait(1) d by (simp_all add: wd_delay_def with_budget_def Let_def)
  have "ready_by b (max (clock s) (clock s + max d w))"
    by (rule ready_by_mono [OF wait(4)]) simp
  then have "credit ?t \<le> credit ?s"
    using i by (intro calm_wd [OF f(1-4) _ f(5)]) (simp_all add: wd_ready_def)
  with wait(2,3) budget_inv_cong [OF wait(2) f(1,2)] show ?thesis by (simp add: paced_def)
qed

lemma pace_connect_ok:
  assumes inv: "budget_inv s"
  shows "budget_inv (sub_connect_ok i ch p s) \<and> credit (sub_connect_ok i ch p s) \<le> credit s + period"
proof -
  obtain b where r: "rb_refill (clock s) (budget s) = Ret b" using with_refill [OF inv] by metis
  let ?s = "s\<lparr>budget := rb_earn b\<rparr>" and ?t = "sub_connect_ok i ch p s"
  note e = credit_earn [OF inv r]
  have "paced ?s ?t"
    by (rule paced_goto [of _ _ i "SConnected ch p (next_id s)"])
      (use e in \<open>simp_all add: r sub_connect_ok_def rb_record_success_def with_budget_def sub_goto_def Let_def\<close>)
  with e show ?thesis by (simp add: paced_def)
qed

lemma pace_connect_err:
  assumes full: "sup_full c s" and inv: "budget_inv s" and i: "i < length (subs s)" "subs s ! i = SConnecting ch"
  shows "budget_inv (sub_connect_err i s) \<and> credit (sub_connect_err i s) + period \<le> credit s"
proof -
  obtain b where r: "rb_refill (clock s) (budget s) = Ret b" using with_refill [OF inv] by metis
  let ?t = "sub_connect_err i s"
  have f: "budget ?t = rb_spend b" "clock ?t = clock s" "watchdogs ?t = watchdogs s" "rtp_tx ?t = rtp_tx s"
    "subs ?t = (subs s)[i := SConnectFailed]"
    by (simp_all add: r sub_connect_err_def rb_record_failure_def with_budget_def sub_goto_def)
  have "all_ready ?t \<and> claims ?t = claims s"
    using i by (intro sole_subscriber [OF full i(1) _ f(5) _ f(3,4)]) simp_all
  moreover have "all_ready s \<longrightarrow> ready_by (budget s) (clock s)"
    using i(2) nth_mem [OF i(1)] by (fastforce simp: all_ready_def)
  ultimately show ?thesis by (intro credit_fail [OF inv r f(1,2)]) (simp_all add: f)
qed

lemma pace_reconnect_ok:
  assumes inv: "budget_inv s" and i: "i < length (watchdogs s)"
  shows "budget_inv (wd_reconnect_ok i s) \<and> credit (wd_reconnect_ok i s) \<le> credit s + period"
proof -
  obtain b where r: "rb_refill (clock s) (budget s) = Ret b" using with_refill [OF inv] by metis
  let ?s = "s\<lparr>budget := rb_earn b\<rparr>" and ?t = "wd_reconnect_ok i s"
  note e = credit_earn [OF inv r]
  have "paced ?s ?t"
    by (rule paced_wd [where i = i and w = "(watchdogs s ! i)\<lparr>wd_pc := WConnected (next_id s)\<rparr>" and u = 0])
      (use e i in \<open>simp_all add: r wd_reconnect_ok_def rb_record_success_def with_budget_def wd_goto_def Let_def\<close>)
  with e show ?thesis by (simp add: paced_def)
qed

lemma pace_reconnect_err:
  assumes full: "sup_full c s" and inv: "budget_inv s"
    and i: "i < length (watchdogs s)" "wd_pc (watchdogs s ! i) = WConnecting"
  shows "budget_inv (wd_reconnect_err i s) \<and> credit (wd_reconnect_err i s) + period \<le> credit s"
proof -
  obtain b where r: "rb_refill (clock s) (budget s) = Ret b" using with_refill [OF inv] by metis
  let ?t = "wd_reconnect_err i s" and ?v = "watchdogs s ! i" and ?w = "(watchdogs s ! i)\<lparr>wd_pc := WRetry\<rparr>"
  have f: "budget ?t = rb_spend b" "clock ?t = clock s" "watchdogs ?t = (watchdogs s)[i := ?w]"
    "subs ?t = subs s" "rtp_tx ?t = rtp_tx s"
    by (simp_all add: r wd_reconnect_err_def rb_record_failure_def with_budget_def wd_goto_def)
  have sc: "same_channel k ?t = same_channel k s" for k by (simp add: same_channel_def f(5))
  have claims: "claims ?t = claims s + of_bool (same_channel (wd_chan ?v) s) - 1"
    unfolding claims_def [of ?t] sc f(3) cnt_update [OF i(1) refl] by (simp add: claims_def i(2))
  have "(claims ?t \<le> claims s \<and> all_ready ?t \<and> (all_ready s \<longrightarrow> ready_by (budget s) (clock s))) \<or>
        (claims ?t + 1 \<le> claims s \<and> (rb_level b = 0 \<longrightarrow> all_ready s \<longrightarrow> all_ready ?t))"
  proof (cases "same_channel (wd_chan ?v) s")
    case True
    have "all_ready ?t"
      by (rule sole_watchdog [OF full i(1) _ True f(3) _ f(4,5)]) (simp_all add: i(2))
    moreover have "all_ready s \<longrightarrow> ready_by (budget s) (clock s)"
      using True i nth_mem [OF i(1)] by (auto simp: all_ready_def wd_ready_def)
    ultimately show ?thesis using claims by simp
  next
    case False
    have "all_ready ?t" if z: "rb_level b = 0" and s: "all_ready s"
    proof -
      have ready: "ready_by (budget s) u \<Longrightarrow> ready_by b u" for u
        using refill_ready [OF _ budget_inv_cap [OF inv] r] inv by (simp add: budget_inv_def)
      have wr: "wd_ready s v \<Longrightarrow> wd_ready ?t v" for v
        using ready by (auto simp: wd_ready_def sc f spend_zero [OF z])
      have "\<forall>v\<in>set (watchdogs ?t). wd_ready ?t v"
        unfolding f(3) by (rule ball_update) (use s wr in \<open>auto simp: all_ready_def wd_ready_def\<close>)
      with s ready show ?thesis by (auto simp: all_ready_def f spend_zero [OF z])
    qed
    with False claims show ?thesis by simp
  qed
  then show ?thesis by (intro credit_fail [OF inv r f(1,2)]) (simp_all add: f)
qed

lemma paced_frame:
  assumes "budget_inv s" "budget t = budget s" "clock t = clock s" "watchdogs t = watchdogs s"
    "rtp_tx t = rtp_tx s \<or> rtp_tx t = None" "subs t = subs s"
  shows "paced s t"
  using paced_goto [OF assms(1-5), of "length (subs s)" SDone] assms(6) by (simp add: list_update_beyond)

lemma pace_advance:
  assumes inv: "budget_inv s"
  shows "paced s (s\<lparr>clock := clock s + d\<rparr>)"
proof -
  let ?t = "s\<lparr>clock := clock s + d\<rparr>"
  have "ready_by b u \<Longrightarrow> ready_by b (u + d)" "ready_by b (max u v) \<Longrightarrow> ready_by b (max (u + d) v)" for b u v
    by (auto elim: ready_by_mono)
  then have "all_ready s \<Longrightarrow> all_ready ?t"
    by (auto simp: all_ready_def wd_ready_def same_channel_def)
  then have "credit ?t + period * 0 \<le> credit s + period * 0"
    using rb_value_later [of "clock s" "clock s + d" "budget s"]
    by (intro credit_le) (auto simp: claims_def same_channel_def)
  with inv show ?thesis by (simp add: paced_def budget_inv_def)
qed

lemma pace_snapshot:
  assumes inv: "budget_inv s"
  shows "paced s (with_budget (sup_snapshot s) (budget \<circ> snd) s (\<lambda>_ s1. s1))"
proof -
  obtain b where "rb_refill (clock s) (budget s) = Ret b" using with_refill [OF inv] by metis
  with credit_refill [OF inv this] show ?thesis
    by (simp add: with_budget_def sup_snapshot_def rb_read_tokens_def paced_def)
qed

section \<open>Runs\<close>

fun connect_failure :: "sup_label \<Rightarrow> bool" where
  "connect_failure (ConnectErr i) \<longleftrightarrow> True"
| "connect_failure (ReconnectErr i) \<longleftrightarrow> True"
| "connect_failure _ \<longleftrightarrow> False"

fun connect_success :: "sup_label \<Rightarrow> bool" where
  "connect_success (ConnectOk i p) \<longleftrightarrow> True"
| "connect_success (ReconnectOk i) \<longleftrightarrow> True"
| "connect_success _ \<longleftrightarrow> False"

fun first_connect :: "sup_label \<Rightarrow> bool" where
  "first_connect (ConnectOk i p) \<longleftrightarrow> True"
| "first_connect _ \<longleftrightarrow> False"

lemma pace_step:
  assumes full: "sup_full c s" and inv: "budget_inv s" and t: "sup_step c l s = Some t"
  shows "budget_inv t \<and>
    credit t + period * of_bool (connect_failure l) \<le> credit s + period * of_bool (connect_success l)"
proof (cases l)
  case Subscribe
  have "credit t \<le> credit s"
    using t Subscribe by (intro calm) (auto simp: subscribe_def same_channel_def)
  then show ?thesis using t Subscribe budget_inv_cong [OF inv] by (auto simp: subscribe_def)
next
  case (SubStep i)
  with t pace_sub_step [OF full inv] show ?thesis by (auto simp: paced_def split: if_splits)
next
  case (ConnectOk i p)
  with t pace_connect_ok [OF inv] show ?thesis by (auto split: if_splits sub_pc.splits)
next
  case (ConnectErr i)
  with t pace_connect_err [OF full inv] show ?thesis by (auto split: if_splits sub_pc.splits)
next
  case (DropSub i)
  with t have "t = drop_subscription i s" by (auto split: if_splits sub_pc.splits)
  then have "paced s t"
    by (intro paced_goto [OF inv, of _ i SDone]) (simp_all add: drop_subscription_def sub_goto_def send_event_def)
  with DropSub show ?thesis by (simp add: paced_def)
next
  case (WdStep i)
  with t pace_wd_step [OF inv] show ?thesis by (auto simp: paced_def split: if_splits)
next
  case (WdDelay i j)
  with t pace_wd_delay [OF inv] show ?thesis by (auto simp: paced_def split: if_splits)
next
  case (ReconnectOk i)
  with t pace_reconnect_ok [OF inv] show ?thesis by (auto split: if_splits)
next
  case (ReconnectErr i)
  with t pace_reconnect_err [OF full inv] show ?thesis by (auto split: if_splits)
next
  case (Advance d)
  with t pace_advance [OF inv] show ?thesis by (auto simp: paced_def)
next
  case Snapshot
  with t pace_snapshot [OF inv] show ?thesis by (auto simp: paced_def)
next
  case LoopRecv
  with t have "paced s t"
    by (intro paced_frame [OF inv])
      (auto simp: loop_recv_def viewer_event_def abort_timer_def arm_timer_def Let_def
        split: list.splits viewer_event_kind.splits option.splits if_splits)
  with LoopRecv show ?thesis by (simp add: paced_def)
next
  case (TimerFire k)
  with t have "paced s t"
    by (intro paced_frame [OF inv])
      (auto simp: timer_fire_def teardown_session_def split: option.splits if_splits)
  with TimerFire show ?thesis by (simp add: paced_def)
next
  case (SessionEnds sid)
  with t have "paced s t" by (intro paced_frame [OF inv]) (auto split: if_splits)
  with SessionEnds show ?thesis by (simp add: paced_def)
next
  case AuthFailed
  with t have "paced s t" by (intro paced_frame [OF inv]) auto
  with AuthFailed show ?thesis by (simp add: paced_def)
qed

text \<open>Every watchdog belongs to a session that some viewer's connect brought up.\<close>

fun brings_watchdog :: "sub_pc \<Rightarrow> bool" where
  "brings_watchdog (SConnected ch p sid) \<longleftrightarrow> True"
| "brings_watchdog (SSpawn ch sid) \<longleftrightarrow> True"
| "brings_watchdog _ \<longleftrightarrow> False"

definition brought :: "supervisor \<Rightarrow> int" where
  "brought s = int (length (watchdogs s)) + cnt brings_watchdog (subs s)"

lemma brought_sub:
  assumes i: "i < length (subs s)" "subs s ! i = pc"
    and t: "subs t = (subs s)[i := pc']" "watchdogs t = watchdogs s @ ws"
    and b: "int (length ws) + of_bool (brings_watchdog pc') \<le> of_bool (brings_watchdog pc) + of_bool d"
  shows "brought t \<le> brought s + of_bool d"
  using b unfolding brought_def t cnt_update [OF i] by simp

lemma brought_same:
  "subs t = subs s \<Longrightarrow> length (watchdogs t) = length (watchdogs s) \<Longrightarrow> brought t \<le> brought s + of_bool d"
  by (simp add: brought_def)

lemma brought_sub_step:
  assumes i: "i < length (subs s)" "subs s ! i = pc" and t: "sub_step c i pc s = Some t"
  shows "brought t \<le> brought s + of_bool False"
proof -
  have "\<exists>pc' ws. subs t = (subs s)[i := pc'] \<and> watchdogs t = watchdogs s @ ws \<and>
      int (length ws) + of_bool (brings_watchdog pc') \<le> of_bool (brings_watchdog pc) + of_bool False"
  proof (cases pc)
    case SAttached
    have same: "subs s = (subs s)[i := SAttached]" using i SAttached by (metis list_update_id)
    have "\<exists>pc'. subs (sub_acquire c i s) = (subs s)[i := pc'] \<and>
        watchdogs (sub_acquire c i s) = watchdogs s \<and> \<not> brings_watchdog pc'"
    proof (cases "rb_wait_time (clock s) (budget s)")
      case (Ret x)
      then show ?thesis
        by (cases "sst s") (auto simp: sub_acquire_def with_budget_def sub_goto_def Let_def
            split: prod.splits if_splits intro!: exI)
    next
      case Panic
      then show ?thesis
        using same by (cases "sst s") (force simp: sub_acquire_def with_budget_def sub_goto_def)+
    qed
    then obtain pc' where "subs (sub_acquire c i s) = (subs s)[i := pc']"
      "watchdogs (sub_acquire c i s) = watchdogs s" "\<not> brings_watchdog pc'" by blast
    with t SAttached show ?thesis by (intro exI [of _ pc'] exI [of _ "[]"]) simp
  qed (use t in \<open>auto simp: sub_goto_def send_event_def sub_connect_failed_def sub_connected_def sub_spawn_def
      sub_watch_def sub_join_def sub_rollback_def Let_def split: sup_state.splits option.splits if_splits intro!: exI\<close>)
  then show ?thesis using brought_sub [OF i] by blast
qed

lemma brought_step:
  assumes t: "sup_step c l s = Some t"
  shows "brought t \<le> brought s + of_bool (first_connect l)"
proof (cases l)
  case (SubStep i)
  with t brought_sub_step show ?thesis by (fastforce split: if_splits)
next
  case (ConnectOk i p)
  then obtain ch where i: "i < length (subs s)" "subs s ! i = SConnecting ch" "t = sub_connect_ok i ch p s"
    using t by (auto split: if_splits sub_pc.splits)
  show ?thesis
  proof (cases "rb_record_success (clock s) (budget s)")
    case (Ret b)
    then show ?thesis unfolding ConnectOk i(3)
      by (intro brought_sub [OF i(1,2), of _ "SConnected ch p (next_id s)" "[]"])
        (simp_all add: sub_connect_ok_def with_budget_def sub_goto_def Let_def)
  qed (simp add: i(3) sub_connect_ok_def with_budget_def brought_def ConnectOk)
next
  case (ConnectErr i)
  then obtain ch where i: "i < length (subs s)" "subs s ! i = SConnecting ch" "t = sub_connect_err i s"
    using t by (auto split: if_splits sub_pc.splits)
  show ?thesis
  proof (cases "rb_record_failure (clock s) (budget s)")
    case (Ret b)
    then show ?thesis unfolding ConnectErr i(3)
      by (intro brought_sub [OF i(1,2), of _ "SConnectFailed" "[]"])
        (simp_all add: sub_connect_err_def with_budget_def sub_goto_def)
  qed (simp add: i(3) sub_connect_err_def with_budget_def brought_def ConnectErr)
next
  case (DropSub i)
  then obtain ch p where i: "i < length (subs s)" "subs s ! i = SLive ch p" "t = drop_subscription i s"
    using t by (auto split: if_splits sub_pc.splits)
  show ?thesis unfolding DropSub i(3)
    by (intro brought_sub [OF i(1,2), of _ SDone "[]"])
      (simp_all add: drop_subscription_def sub_goto_def send_event_def)
next
  case (WdStep i)
  with t have "wd_step c i (wd_pc (watchdogs s ! i)) s = Some t" by (simp split: if_splits)
  then show ?thesis
    by (cases "wd_pc (watchdogs s ! i)"; intro brought_same)
       (auto simp: wd_goto_def wd_connected_def drop_handle_def Let_def split: if_splits)
next
  case LoopRecv
  with t show ?thesis
    by (intro brought_same) (auto simp: loop_recv_def viewer_event_def abort_timer_def arm_timer_def Let_def
        split: list.splits viewer_event_kind.splits option.splits if_splits)
next
  case (TimerFire k)
  with t show ?thesis
    by (intro brought_same) (auto simp: timer_fire_def teardown_session_def split: option.splits if_splits)
next
  case Subscribe
  with t show ?thesis by (auto simp: subscribe_def brought_def)
qed (use t in \<open>auto simp: brought_def with_budget_def wd_delay_def wd_reconnect_ok_def wd_reconnect_err_def
    wd_goto_def Let_def split: if_splits outcome.splits prod.splits\<close>)

lemma pace_run:
  assumes "sup_full c s" "budget_inv s" "sup_run c ls s = Some t"
  shows "credit t + period * cnt connect_failure ls \<le> credit s + period * cnt connect_success ls \<and>
         brought t \<le> brought s + cnt first_connect ls"
  using assms
proof (induction ls arbitrary: s)
  case (Cons l ls)
  from Cons.prems(3) obtain s1 where s1: "sup_step c l s = Some s1" "sup_run c ls s1 = Some t"
    by (auto simp: bind_eq_Some_conv)
  note st = pace_step [OF Cons.prems(1,2) s1(1)]
  show ?case
    using Cons.IH [OF sup_full_step [OF Cons.prems(1) s1(1)] _ s1(2)] st brought_step [OF s1(1)]
    by (simp add: distrib_left)
qed simp

lemma credit_new: "budget_inv (sup_new t) \<and> credit (sup_new t) = 10 * period - int t"
proof -
  have "rb_ok (budget (sup_new t))" by (simp add: sup_new_def)
  then show ?thesis
    by (simp add: budget_inv_def credit_def sup_new_def rb_default_def rb_new_def rb_value_def period_def
        default_capacity_def all_ready_def claims_def)
qed

lemma credit_lower:
  "- int (clock s) - period * int (length (watchdogs s)) \<le> credit s"
proof -
  have "0 \<le> period * (of_bool (\<not> all_ready s) + claims s)"
    by (intro mult_nonneg_nonneg) (simp_all add: period_def claims_def)
  then show ?thesis by (simp add: credit_def distrib_left right_diff_distrib)
qed

text \<open>C10. The supervisor never hammers the signaling service: in every run, however viewers, watchdogs,
  timers and outcomes interleave, the failed connects and reconnects number at most the budget's 10
  tokens, plus one per 5 minutes that have passed, plus one per successful connect or reconnect,
  plus one per session that a viewer's connect brought up (a watchdog whose session was replaced
  while it was about to reconnect makes that last attempt unchecked).\<close>

theorem connects_paced:
  assumes "sup_run c ls (sup_new t0) = Some s"
  shows "cnt connect_failure ls \<le> 10 + int ((clock s - t0) div secs 300) +
     cnt connect_success ls + cnt first_connect ls"
proof -
  let ?F = "cnt connect_failure ls" and ?S = "cnt connect_success ls" and ?O = "cnt first_connect ls"
  have P: "0 < period" "period = int (secs 300)" by (simp_all add: period_def default_refill_period_def secs_def)
  have "brought (sup_new t0) = 0" by (simp add: brought_def sup_new_def)
  then have run: "credit s + period * ?F \<le> credit (sup_new t0) + period * ?S" "brought s \<le> ?O"
    using pace_run [OF sup_full_new _ assms] credit_new by auto
  have "int (length (watchdogs s)) \<le> brought s" by (simp add: brought_def)
  with run(2) have "int (length (watchdogs s)) \<le> ?O" by linarith
  with P(1) have "period * int (length (watchdogs s)) \<le> period * ?O" by simp
  with run(1) credit_lower [of s] credit_new [of t0]
  have "period * ?F \<le> 10 * period + (int (clock s) - int t0) + period * ?S + period * ?O" by linarith
  also have "\<dots> \<le> int (clock s - t0) + (10 + ?S + ?O) * period" by (simp add: algebra_simps)
  finally have "?F \<le> (int (clock s - t0) + (10 + ?S + ?O) * period) div period"
    using P(1) by (metis nonzero_mult_div_cancel_left less_irrefl zdiv_mono1)
  also have "\<dots> = 10 + int ((clock s - t0) div secs 300) + ?S + ?O"
    using P by (simp add: zdiv_int)
  finally show ?thesis .
qed

text \<open>A connect that fails, a second one that succeeds, and a reconnect that fails.\<close>

definition failing_run :: "sup_label list" where
  "failing_run = [Subscribe, SubStep 0, SubStep 0, ConnectErr 0, SubStep 0, SubStep 0,
     Subscribe, SubStep 1, LoopRecv, LoopRecv, LoopRecv, SubStep 1, ConnectOk 1 demo_params, SubStep 1, SubStep 1,
     SubStep 1, SessionEnds 2, WdStep 0, WdStep 0, WdDelay 0 1, Advance (secs 1), WdStep 0, WdStep 0, WdStep 0,
     ReconnectErr 0]"

theorem connects_paced_witness:
  "\<exists>s. sup_run (demo_config True) failing_run (sup_new 0) = Some s \<and> cnt connect_failure failing_run = 2 \<and>
       (2 :: int) \<le> 10 + int ((clock s - 0) div secs 300) + 1 + 1"
proof -
  have "\<exists>s. sup_run (demo_config True) failing_run (sup_new 0) = Some s"
    by (simp add: failing_run_def run_defs wd_delay_demo wd_reconnect_err_def same_channel_def)
  then obtain s where s: "sup_run (demo_config True) failing_run (sup_new 0) = Some s" ..
  have n: "cnt connect_failure failing_run = 2" "cnt connect_success failing_run = 1" "cnt first_connect failing_run = 1"
    by (simp_all add: failing_run_def)
  from connects_paced [OF s] s n show ?thesis by simp
qed

end
