(* ===== verification/Viewers.thy ===== *)
theory Viewers
  imports RtspServer SupervisorProps
begin

text \<open>
  The RTSP connections (\<open>src/rtsp/server.rs\<close>) composed with the supervisor
  (\<open>src/supervisor/mod.rs\<close>). In \<open>RtspServer\<close> the stream source is an argument; here it is the
  supervisor itself: a request that needs codec parameters starts a \<open>subscribe\<close>, the connection
  task waits for it (it does not read the socket meanwhile), and every way in which the task
  returns drops the subscription it holds. A request is what the parser takes off the receive
  buffer (\<open>connection_serves_requests\<close>), and connections are numbered in the order in which
  their tasks start. Here are the steps and their invariant; \<open>ViewerProps\<close> has what follows from it.
\<close>

section \<open>State and steps\<close>

datatype phase =
    Reading
  | Subscribing nat rtsp_request            \<comment> \<open>awaits \<open>subscribe\<close>, the subscriber with this number\<close>
  | Streams                                 \<comment> \<open>in \<open>forward_rtp\<close>\<close>
  | Returning                               \<comment> \<open>about to return\<close>
  | Gone
  | Panicked nat                            \<comment> \<open>\<open>subscribe\<close> panicked, and the task with it\<close>

record viewer =
  vw_conn :: connection
  vw_id :: string
  vw_phase :: phase
  vw_held :: "nat option"                   \<comment> \<open>the subscription, as its subscriber's number\<close>

record proxy =
  px_sup :: supervisor
  px_viewers :: "viewer list"

definition viewer_new :: "nat \<Rightarrow> viewer" where
  "viewer_new n = \<lparr>vw_conn = conn_new, vw_id = connection_session_id n, vw_phase = Reading, vw_held = None\<rparr>"

definition proxy_new :: "time \<Rightarrow> proxy" where
  "proxy_new t = \<lparr>px_sup = sup_new t, px_viewers = []\<rparr>"

text \<open>The second half of the loop body, with the subscription settled.\<close>

definition viewer_answer ::
  "source_view \<Rightarrow> h264_params option \<Rightarrow> nat option \<Rightarrow> rtsp_request \<Rightarrow> viewer \<Rightarrow> viewer"
where
  "viewer_answer src sub held req v =
     (let (c, go) = conn_answer src (vw_id v) sub (vw_conn v) req
      in v\<lparr>vw_conn := c, vw_held := held,
           vw_phase := (if go then Reading else case c_end c of Forward ch \<Rightarrow> Streams | _ \<Rightarrow> Returning)\<rparr>)"

datatype proxy_label =
    Accept
  | Request nat rtsp_request                \<comment> \<open>the next request of a connection\<close>
  | Resume nat source_error                 \<comment> \<open>its \<open>subscribe\<close> has returned; the error, if it failed\<close>
  | Hangup nat                              \<comment> \<open>it returns: end of file, an error, the end of the stream\<close>
  | Internal sup_label

fun internal :: "sup_label \<Rightarrow> bool" where
  "internal Subscribe \<longleftrightarrow> False"
| "internal (DropSub i) \<longleftrightarrow> False"
| "internal _ \<longleftrightarrow> True"

definition set_viewer :: "nat \<Rightarrow> viewer \<Rightarrow> proxy \<Rightarrow> proxy" where
  "set_viewer k v y = y\<lparr>px_viewers := (px_viewers y)[k := v]\<rparr>"

definition on_request :: "source_view \<Rightarrow> nat \<Rightarrow> rtsp_request \<Rightarrow> viewer \<Rightarrow> proxy \<Rightarrow> proxy option" where
  "on_request src k req v y =
     (if vw_phase v \<noteq> Reading then None
      else if c_subscription (vw_conn v) = None \<and> needs_subscription (req_method req) then
        Some (set_viewer k (v\<lparr>vw_phase := Subscribing (length (subs (px_sup y))) req\<rparr>)
                (y\<lparr>px_sup := subscribe (px_sup y)\<rparr>))
      else Some (set_viewer k (viewer_answer src (c_subscription (vw_conn v)) (vw_held v) req v) y))"

definition on_resume :: "source_view \<Rightarrow> nat \<Rightarrow> source_error \<Rightarrow> viewer \<Rightarrow> proxy \<Rightarrow> proxy option" where
  "on_resume src k e v y =
     (case vw_phase v of
        Subscribing i req \<Rightarrow>
          (case subs (px_sup y) ! i of
             SLive ch p \<Rightarrow> Some (set_viewer k (viewer_answer src (Some p) (Some i) req v) y)
           | SDone \<Rightarrow> Some (set_viewer k
               (v\<lparr>vw_conn := (vw_conn v)\<lparr>c_end := SubscribeFailed e\<rparr>, vw_phase := Gone\<rparr>) y)
           | SPanic \<Rightarrow> Some (set_viewer k (v\<lparr>vw_phase := Panicked i\<rparr>) y)
           | _ \<Rightarrow> None)
      | _ \<Rightarrow> None)"

definition on_hangup :: "sup_config \<Rightarrow> nat \<Rightarrow> viewer \<Rightarrow> proxy \<Rightarrow> proxy option" where
  "on_hangup c k v y =
     (if vw_phase v \<in> {Reading, Streams, Returning} then
        (let gone = v\<lparr>vw_phase := Gone, vw_held := None\<rparr> in
         case vw_held v of
           None \<Rightarrow> Some (set_viewer k gone y)
         | Some i \<Rightarrow> map_option (\<lambda>s. set_viewer k gone (y\<lparr>px_sup := s\<rparr>)) (sup_step c (DropSub i) (px_sup y)))
      else None)"

fun proxy_step :: "sup_config \<Rightarrow> source_view \<Rightarrow> proxy_label \<Rightarrow> proxy \<Rightarrow> proxy option" where
  "proxy_step c src Accept y =
     Some (y\<lparr>px_viewers := px_viewers y @ [viewer_new (length (px_viewers y))]\<rparr>)"
| "proxy_step c src (Request k req) y =
     (if k < length (px_viewers y) then on_request src k req (px_viewers y ! k) y else None)"
| "proxy_step c src (Resume k e) y =
     (if k < length (px_viewers y) then on_resume src k e (px_viewers y ! k) y else None)"
| "proxy_step c src (Hangup k) y =
     (if k < length (px_viewers y) then on_hangup c k (px_viewers y ! k) y else None)"
| "proxy_step c src (Internal l) y =
     (if internal l then map_option (\<lambda>s. y\<lparr>px_sup := s\<rparr>) (sup_step c l (px_sup y)) else None)"

definition proxy_init :: "proxy \<Rightarrow> bool" where
  "proxy_init y \<longleftrightarrow> (\<exists>t. y = proxy_new t)"

inductive proxy_trans :: "sup_config \<Rightarrow> source_view \<Rightarrow> proxy \<Rightarrow> proxy_label \<Rightarrow> proxy \<Rightarrow> bool" for c src where
  proxy_trans: "proxy_step c src l y = Some y' \<Longrightarrow> proxy_trans c src y l y'"

inductive_simps proxy_trans_iff: "proxy_trans c src y l y'"

abbreviation proxy_reach :: "sup_config \<Rightarrow> source_view \<Rightarrow> proxy \<Rightarrow> bool" where
  "proxy_reach c src \<equiv> reach proxy_init (proxy_trans c src)"

fun proxy_run :: "sup_config \<Rightarrow> source_view \<Rightarrow> proxy_label list \<Rightarrow> proxy \<Rightarrow> proxy option" where
  "proxy_run c src [] y = Some y"
| "proxy_run c src (l # ls) y = Option.bind (proxy_step c src l y) (proxy_run c src ls)"

lemma reach_proxy_run: "proxy_run c src ls y = Some y' \<Longrightarrow> proxy_reach c src y \<Longrightarrow> proxy_reach c src y'"
  by (induction ls arbitrary: y) (auto simp: bind_eq_Some_conv intro: reach_step proxy_trans)

section \<open>What the supervisor does not do on its own\<close>

text \<open>The program counters at which a subscriber stays until its owner acts.\<close>

fun settled :: "sub_pc \<Rightarrow> bool" where
  "settled (SLive ch p) \<longleftrightarrow> True"
| "settled SDone \<longleftrightarrow> True"
| "settled SPanic \<longleftrightarrow> True"
| "settled _ \<longleftrightarrow> False"

lemma internal_moves:
  assumes t: "sup_step c l s = Some t" and l: "internal l"
  shows "subs t = subs s \<or> (\<exists>i pc. i < length (subs s) \<and> \<not> settled (subs s ! i) \<and> subs t = (subs s)[i := pc])"
proof (cases l)
  case (SubStep i)
  then have i: "i < length (subs s)" and t: "sub_step c i (subs s ! i) s = Some t"
    using t by (auto split: if_splits)
  have "subs t = subs s \<or> (\<exists>pc. \<not> settled (subs s ! i) \<and> subs t = (subs s)[i := pc])"
    using t
    by (cases "subs s ! i")
       (auto simp: sub_goto_def send_event_def sub_acquire_def with_budget_def sub_connect_failed_def
          sub_connected_def sub_spawn_def sub_watch_def sub_join_def sub_rollback_def Let_def
          split: sup_state.splits option.splits outcome.splits if_splits)
  with i show ?thesis by blast
next
  case (ConnectOk i p)
  then obtain ch where i: "i < length (subs s)" "subs s ! i = SConnecting ch" "t = sub_connect_ok i ch p s"
    using t by (auto split: if_splits sub_pc.splits)
  then show ?thesis
    by (auto simp: sub_connect_ok_def with_budget_def sub_goto_def Let_def split: outcome.splits
        intro!: exI [of _ i])
next
  case (ConnectErr i)
  then obtain ch where i: "i < length (subs s)" "subs s ! i = SConnecting ch" "t = sub_connect_err i s"
    using t by (auto split: if_splits sub_pc.splits)
  then show ?thesis
    by (auto simp: sub_connect_err_def with_budget_def sub_goto_def split: outcome.splits intro!: exI [of _ i])
next
  case (WdStep i)
  with t have "wd_step c i (wd_pc (watchdogs s ! i)) s = Some t" by (simp split: if_splits)
  then show ?thesis
    by (cases "wd_pc (watchdogs s ! i)")
       (auto simp: wd_goto_def wd_connected_def drop_handle_def Let_def split: if_splits)
next
  case LoopRecv
  with t show ?thesis by (auto simp: loop_recv_def split: list.splits)
next
  case (TimerFire k)
  with t show ?thesis by (auto simp: timer_fire_def teardown_session_def split: option.splits if_splits)
qed (use t l in \<open>auto simp: with_budget_def wd_delay_def wd_reconnect_ok_def wd_reconnect_err_def wd_goto_def
    Let_def split: if_splits outcome.splits prod.splits\<close>)

lemma internal_keeps:
  assumes "sup_step c l s = Some t" "internal l"
  shows "length (subs t) = length (subs s) \<and>
         (\<forall>i < length (subs s). settled (subs s ! i) \<longrightarrow> subs t ! i = subs s ! i)"
  using internal_moves [OF assms] by (auto simp: nth_list_update)

section \<open>Who owns which subscriber\<close>

text \<open>The subscriber a connection answers for: the one it awaits or the one it holds.\<close>

definition owned :: "viewer \<Rightarrow> nat option" where
  "owned v = (case vw_phase v of Subscribing i req \<Rightarrow> Some i | Panicked i \<Rightarrow> Some i | _ \<Rightarrow> vw_held v)"

definition viewer_ok :: "sub_pc list \<Rightarrow> viewer \<Rightarrow> bool" where
  "viewer_ok ps v \<longleftrightarrow>
     (case vw_phase v of
        Subscribing i req \<Rightarrow> i < length ps \<and> vw_held v = None \<and>
          c_subscription (vw_conn v) = None \<and> needs_subscription (req_method req)
      | Panicked i \<Rightarrow> i < length ps \<and> ps ! i = SPanic \<and> vw_held v = None
      | Gone \<Rightarrow> vw_held v = None
      | _ \<Rightarrow> (case vw_held v of
                None \<Rightarrow> c_subscription (vw_conn v) = None \<and> vw_phase v \<noteq> Streams
              | Some i \<Rightarrow> i < length ps \<and> (\<exists>ch p. ps ! i = SLive ch p \<and> c_subscription (vw_conn v) = Some p)))"

text \<open>Every subscriber belongs to exactly one connection until it is done.\<close>

definition owners_ok :: "sub_pc list \<Rightarrow> viewer list \<Rightarrow> bool" where
  "owners_ok ps vs \<longleftrightarrow>
     (\<forall>i < length ps. cnt (\<lambda>v. owned v = Some i) vs \<le> 1 \<and> (ps ! i \<noteq> SDone \<longrightarrow> cnt (\<lambda>v. owned v = Some i) vs = 1))"

definition proxy_inv :: "sup_config \<Rightarrow> proxy \<Rightarrow> bool" where
  "proxy_inv c y \<longleftrightarrow> sup_reach c (px_sup y) \<and>
     (\<forall>v\<in>set (px_viewers y). viewer_ok (subs (px_sup y)) v) \<and> owners_ok (subs (px_sup y)) (px_viewers y)"

lemma viewer_ok_owned: "viewer_ok ps v \<Longrightarrow> owned v = Some i \<Longrightarrow> i < length ps"
  by (auto simp: viewer_ok_def owned_def split: phase.splits option.splits)

lemma owned_fresh:
  assumes "\<forall>v\<in>set vs. viewer_ok ps v" "length ps \<le> i"
  shows "cnt (\<lambda>v. owned v = Some i) vs = 0"
proof -
  have "\<not> (owned v = Some i)" if "v \<in> set vs" for v
    using assms that viewer_ok_owned [of ps v i] by auto
  then show ?thesis by (simp add: cnt_def filter_empty_conv)
qed

text \<open>What the supervisor does on its own leaves every connection in order.\<close>

lemma viewer_ok_internal:
  assumes "length qs = length ps" "\<forall>i < length ps. settled (ps ! i) \<longrightarrow> qs ! i = ps ! i"
    and "viewer_ok ps v"
  shows "viewer_ok qs v"
  using assms by (auto simp: viewer_ok_def split: phase.splits option.splits)

lemma proxy_inv_internal:
  assumes inv: "proxy_inv c y" and l: "internal l" and t: "sup_step c l (px_sup y) = Some s"
  shows "proxy_inv c (y\<lparr>px_sup := s\<rparr>)"
proof -
  note k = internal_keeps [OF t l]
  have "sup_reach c s" using inv t by (auto simp: proxy_inv_def intro: reach_step sup_trans)
  moreover have "\<forall>v\<in>set (px_viewers y). viewer_ok (subs s) v"
    using inv k viewer_ok_internal [of "subs s" "subs (px_sup y)"] by (auto simp: proxy_inv_def)
  moreover have "owners_ok (subs s) (px_viewers y)"
    using inv k by (fastforce simp: proxy_inv_def owners_ok_def)
  ultimately show ?thesis by (simp add: proxy_inv_def)
qed

lemma viewer_ok_cong:
  assumes "viewer_ok ps v" "length ps \<le> length qs" "\<And>i. owned v = Some i \<Longrightarrow> qs ! i = ps ! i"
  shows "viewer_ok qs v"
  using assms by (auto simp: viewer_ok_def owned_def split: phase.splits option.splits)

lemma cnt_unique:
  assumes "cnt P xs \<le> 1" "k < length xs" "P (xs ! k)" "j < length xs" "j \<noteq> k"
  shows "\<not> P (xs ! j)"
proof
  assume j: "P (xs ! j)"
  have "cnt (\<lambda>z. z \<in> {True}) ((map P xs)[k := False]) = cnt (\<lambda>z. z \<in> {True}) (map P xs) - 1"
    using cnt_update [of k "map P xs" True "\<lambda>z. z \<in> {True}" False] assms by simp
  moreover have "cnt (\<lambda>z. z \<in> {True}) (map P xs) = cnt P xs" by (simp add: cnt_def filter_map o_def)
  moreover have "True \<in> set ((map P xs)[k := False])"
    using assms j by (auto simp: in_set_conv_nth nth_list_update)
  ultimately show False using assms(1) cnt_pos [of True "(map P xs)[k := False]" "\<lambda>z. z \<in> {True}"] by simp
qed

text \<open>One connection moves and may change its own subscriber, or get a new one.\<close>

lemma proxy_inv_move:
  assumes inv: "proxy_inv c y" and k: "k < length (px_viewers y)" "px_viewers y ! k = v"
    and s: "sup_reach c s" "length (subs (px_sup y)) \<le> length (subs s)"
    and keep: "\<And>i. i < length (subs (px_sup y)) \<Longrightarrow> owned v \<noteq> Some i \<Longrightarrow> subs s ! i = subs (px_sup y) ! i"
    and own: "\<And>i n. i < length (subs s) \<Longrightarrow> n = cnt (\<lambda>v. owned v = Some i) (px_viewers y) \<Longrightarrow>
        n + of_bool (owned v' = Some i) - of_bool (owned v = Some i) \<le> 1 \<and>
        (subs s ! i \<noteq> SDone \<longrightarrow> n + of_bool (owned v' = Some i) - of_bool (owned v = Some i) = 1)"
    and ok: "viewer_ok (subs s) v'"
  shows "proxy_inv c (set_viewer k v' (y\<lparr>px_sup := s\<rparr>))"
proof -
  let ?vs = "px_viewers y"
  have "viewer_ok (subs s) w" if w: "w \<in> set (?vs[k := v'])" for w
  proof -
    obtain j where j: "j < length ?vs" "w = ?vs[k := v'] ! j" using w by (auto simp: in_set_conv_nth)
    show ?thesis
    proof (cases "j = k")
      case False
      with j have w': "w = ?vs ! j" "viewer_ok (subs (px_sup y)) w" using inv by (auto simp: proxy_inv_def)
      show ?thesis
      proof (rule viewer_ok_cong [OF w'(2) s(2)])
        fix i assume i: "owned w = Some i"
        with w'(2) have l: "i < length (subs (px_sup y))" by (rule viewer_ok_owned)
        with inv have "cnt (\<lambda>v. owned v = Some i) ?vs \<le> 1" by (simp add: proxy_inv_def owners_ok_def)
        from cnt_unique [OF this j(1) _ k(1)] i w'(1) False k(2) have "owned v \<noteq> Some i" by auto
        with keep [OF l] show "subs s ! i = subs (px_sup y) ! i" by simp
      qed
    qed (use j ok in simp)
  qed
  moreover have "owners_ok (subs s) (?vs[k := v'])"
    unfolding owners_ok_def cnt_update [OF k] using own by simp
  ultimately show ?thesis using s(1) by (simp add: proxy_inv_def set_viewer_def)
qed

lemma owners_okD:
  assumes "proxy_inv c y" "i < length (subs (px_sup y))"
  shows "cnt (\<lambda>v. owned v = Some i) (px_viewers y) \<le> 1"
    "subs (px_sup y) ! i \<noteq> SDone \<Longrightarrow> cnt (\<lambda>v. owned v = Some i) (px_viewers y) = 1"
  using assms by (simp_all add: proxy_inv_def owners_ok_def)

lemma proxy_inv_ok: "proxy_inv c y \<Longrightarrow> k < length (px_viewers y) \<Longrightarrow> viewer_ok (subs (px_sup y)) (px_viewers y ! k)"
  by (simp add: proxy_inv_def)

text \<open>The supervisor stays as it is.\<close>

lemma proxy_inv_stay:
  assumes inv: "proxy_inv c y" and k: "k < length (px_viewers y)" "px_viewers y ! k = v"
    and own: "owned v' = owned v \<or> (owned v' = None \<and> (\<forall>i. owned v = Some i \<longrightarrow> subs (px_sup y) ! i = SDone))"
    and ok: "viewer_ok (subs (px_sup y)) v'"
  shows "proxy_inv c (set_viewer k v' y)"
proof -
  have "proxy_inv c (set_viewer k v' (y\<lparr>px_sup := px_sup y\<rparr>))"
    by (rule proxy_inv_move [OF inv k _ _ _ _ ok])
       (use inv own owners_okD [OF inv] in \<open>force simp: proxy_inv_def\<close>)+
  then show ?thesis by simp
qed

section \<open>The steps keep it\<close>

lemma conn_answer_subscription: "conn_answer src sid sub c req = (c', go) \<Longrightarrow> c_subscription c' = sub"
  by (auto simp: conn_answer_def Let_def split: prod.splits session_action.splits)

lemma viewer_answer_props:
  "vw_held (viewer_answer src sub held req v) = held"
  "c_subscription (vw_conn (viewer_answer src sub held req v)) = sub"
  "vw_phase (viewer_answer src sub held req v) \<in> {Reading, Streams, Returning}"
  by (auto simp: viewer_answer_def conn_answer_subscription split: prod.split conn_end.split)

lemma viewer_answer_streams: "vw_phase (viewer_answer src sub held req v) = Streams \<Longrightarrow> sub \<noteq> None"
  by (cases sub) (auto simp: viewer_answer_def conn_answer_def Let_def
      split: prod.splits session_action.splits if_splits)

lemma viewer_answer_owned [simp]: "owned (viewer_answer src sub held req v) = held"
  using viewer_answer_props(3) [of src sub held req v] by (auto simp: owned_def viewer_answer_props(1))

lemma viewer_answer_ok:
  assumes "case held of None \<Rightarrow> sub = None | Some i \<Rightarrow> i < length ps \<and> (\<exists>ch p. ps ! i = SLive ch p \<and> sub = Some p)"
  shows "viewer_ok ps (viewer_answer src sub held req v)"
  using assms viewer_answer_props(3) [of src sub held req v] viewer_answer_streams [of src sub held req v]
  by (cases held) (auto simp: viewer_ok_def viewer_answer_props(1,2))

lemma proxy_inv_accept:
  assumes "proxy_inv c y"
  shows "proxy_inv c (y\<lparr>px_viewers := px_viewers y @ [viewer_new n]\<rparr>)"
proof -
  have "viewer_ok ps (viewer_new n)" "owned (viewer_new n) = None" for ps
    by (simp_all add: viewer_ok_def owned_def viewer_new_def conn_new_def)
  with assms show ?thesis by (simp add: proxy_inv_def owners_ok_def)
qed

lemma proxy_inv_subscribe:
  assumes inv: "proxy_inv c y" and k: "k < length (px_viewers y)" "px_viewers y ! k = v"
    and r: "vw_phase v = Reading" "c_subscription (vw_conn v) = None" "needs_subscription (req_method req)"
  shows "proxy_inv c (set_viewer k (v\<lparr>vw_phase := Subscribing (length (subs (px_sup y))) req\<rparr>)
                       (y\<lparr>px_sup := subscribe (px_sup y)\<rparr>))"
proof -
  let ?n = "length (subs (px_sup y))"
  have ok: "viewer_ok (subs (px_sup y)) v" using proxy_inv_ok [OF inv k(1)] k(2) by simp
  have ch: "sup_step c Subscribe (px_sup y) = Some (subscribe (px_sup y))" by simp
  have "sup_reach c (px_sup y)" using inv by (simp add: proxy_inv_def)
  then have s: "sup_reach c (subscribe (px_sup y))" by (rule reach_step) (rule sup_trans [OF ch])
  have none: "vw_held v = None" using ok r by (auto simp: viewer_ok_def split: option.splits)
  then have own: "owned v = None" "owned (v\<lparr>vw_phase := Subscribing ?n req\<rparr>) = Some ?n"
    using r by (simp_all add: owned_def)
  have zero: "cnt (\<lambda>v. owned v = Some ?n) (px_viewers y) = 0"
    by (rule owned_fresh [of _ "subs (px_sup y)"]) (use inv in \<open>simp_all add: proxy_inv_def\<close>)
  show ?thesis
  proof (rule proxy_inv_move [OF inv k s])
    fix i n
    assume i: "i < length (subs (subscribe (px_sup y)))" "n = cnt (\<lambda>v. owned v = Some i) (px_viewers y)"
    show "n + of_bool (owned (v\<lparr>vw_phase := Subscribing ?n req\<rparr>) = Some i) - of_bool (owned v = Some i) \<le> 1 \<and>
        (subs (subscribe (px_sup y)) ! i \<noteq> SDone \<longrightarrow>
         n + of_bool (owned (v\<lparr>vw_phase := Subscribing ?n req\<rparr>) = Some i) - of_bool (owned v = Some i) = 1)"
      unfolding own using i zero owners_okD [OF inv, of i]
      by (cases "i = ?n") (auto simp: subscribe_def nth_append)
  qed (use none r in \<open>simp_all add: subscribe_def nth_append viewer_ok_def\<close>)
qed

lemma proxy_inv_request:
  assumes inv: "proxy_inv c y" and k: "k < length (px_viewers y)" "px_viewers y ! k = v"
    and y': "on_request src k req v y = Some y'"
  shows "proxy_inv c y'"
proof -
  from y' have r: "vw_phase v = Reading" by (auto simp: on_request_def split: if_splits)
  show ?thesis
  proof (cases "c_subscription (vw_conn v) = None \<and> needs_subscription (req_method req)")
    case True
    with y' r proxy_inv_subscribe [OF inv k r, of req] show ?thesis by (auto simp: on_request_def)
  next
    case False
    then have "y' = set_viewer k (viewer_answer src (c_subscription (vw_conn v)) (vw_held v) req v) y"
      using y' r by (auto simp: on_request_def)
    moreover have "viewer_ok (subs (px_sup y)) v" using proxy_inv_ok [OF inv k(1)] k(2) by simp
    then have "viewer_ok (subs (px_sup y)) (viewer_answer src (c_subscription (vw_conn v)) (vw_held v) req v)"
      using r by (intro viewer_answer_ok) (auto simp: viewer_ok_def split: option.splits)
    moreover have "owned v = vw_held v" using r by (simp add: owned_def)
    ultimately show ?thesis by (auto intro!: proxy_inv_stay [OF inv k])
  qed
qed

lemma proxy_inv_resume:
  assumes inv: "proxy_inv c y" and k: "k < length (px_viewers y)" "px_viewers y ! k = v"
    and y': "on_resume src k e v y = Some y'"
  shows "proxy_inv c y'"
proof -
  have ok: "viewer_ok (subs (px_sup y)) v" using proxy_inv_ok [OF inv k(1)] k(2) by simp
  obtain i req where p: "vw_phase v = Subscribing i req" using y' by (auto simp: on_resume_def split: phase.splits)
  with ok have i: "i < length (subs (px_sup y))" "vw_held v = None" by (simp_all add: viewer_ok_def)
  have own: "owned v = Some i" using p by (simp add: owned_def)
  show ?thesis
  proof (cases "subs (px_sup y) ! i")
    case (SLive ch q)
    with y' p have "y' = set_viewer k (viewer_answer src (Some q) (Some i) req v) y" by (simp add: on_resume_def)
    moreover have "viewer_ok (subs (px_sup y)) (viewer_answer src (Some q) (Some i) req v)"
      using SLive i by (intro viewer_answer_ok) simp
    ultimately show ?thesis using own by (auto intro!: proxy_inv_stay [OF inv k])
  next
    case SDone
    with y' p i show ?thesis
      by (auto simp: on_resume_def viewer_ok_def owned_def intro!: proxy_inv_stay [OF inv k])
  next
    case SPanic
    with y' p i show ?thesis
      by (auto simp: on_resume_def viewer_ok_def owned_def intro!: proxy_inv_stay [OF inv k])
  qed (use y' p in \<open>simp_all add: on_resume_def\<close>)
qed

lemma proxy_inv_hangup:
  assumes inv: "proxy_inv c y" and k: "k < length (px_viewers y)" "px_viewers y ! k = v"
    and y': "on_hangup c k v y = Some y'"
  shows "proxy_inv c y'"
proof -
  let ?gone = "v\<lparr>vw_phase := Gone, vw_held := None\<rparr>"
  have ok: "viewer_ok (subs (px_sup y)) v" using proxy_inv_ok [OF inv k(1)] k(2) by simp
  have p: "vw_phase v \<in> {Reading, Streams, Returning}" using y' by (auto simp: on_hangup_def split: if_splits)
  then have own: "owned v = vw_held v" by (auto simp: owned_def)
  have gone: "viewer_ok ps ?gone" "owned ?gone = None" for ps by (simp_all add: viewer_ok_def owned_def)
  show ?thesis
  proof (cases "vw_held v")
    case None
    with y' p have "y' = set_viewer k ?gone y" by (simp add: on_hangup_def Let_def)
    with own None gone show ?thesis by (auto intro!: proxy_inv_stay [OF inv k])
  next
    case (Some i)
    with ok p obtain ch q where i: "i < length (subs (px_sup y))" "subs (px_sup y) ! i = SLive ch q"
      by (auto simp: viewer_ok_def)
    let ?s = "drop_subscription i (px_sup y)"
    have st: "sup_step c (DropSub i) (px_sup y) = Some ?s" using i by simp
    have "sup_reach c (px_sup y)" using inv by (simp add: proxy_inv_def)
    then have s: "sup_reach c ?s" by (rule reach_step) (rule sup_trans [OF st])
    have ss: "subs ?s = (subs (px_sup y))[i := SDone]"
      by (simp add: drop_subscription_def sub_goto_def send_event_def)
    have "proxy_inv c (set_viewer k ?gone (y\<lparr>px_sup := ?s\<rparr>))"
      by (rule proxy_inv_move [OF inv k s _ _ _ gone(1)])
         (use own Some gone i owners_okD [OF inv] in \<open>auto simp: ss nth_list_update\<close>)
    moreover have "y' = set_viewer k ?gone (y\<lparr>px_sup := ?s\<rparr>)"
      using y' p Some st by (simp add: on_hangup_def Let_def)
    ultimately show ?thesis by simp
  qed
qed

lemma proxy_inv_new: "proxy_inv c (proxy_new t)"
  by (simp add: proxy_inv_def owners_ok_def proxy_new_def sup_new_def reach_sup_new [unfolded sup_new_def])

lemma proxy_inv_step:
  assumes "proxy_inv c y" "proxy_step c src l y = Some y'"
  shows "proxy_inv c y'"
proof (cases l)
  case (Internal m)
  with assms proxy_inv_internal [OF assms(1), of m] show ?thesis by (auto split: if_splits)
qed (use assms in \<open>auto split: if_splits simp: proxy_inv_accept
       intro: proxy_inv_request proxy_inv_resume proxy_inv_hangup\<close>)

interpretation proxy: transition_system proxy_init "proxy_trans c src" "proxy_inv c" for c src
  by unfold_locales (auto simp: proxy_init_def proxy_inv_new proxy_trans_iff intro: proxy_inv_step)

lemma reach_proxy_new: "proxy_reach c src (proxy_new t)"
  by (rule reach_init) (auto simp: proxy_init_def)

lemmas reach_proxy = proxy.inv_reach

end
