(* ===== verification/ViewerProps.thy ===== *)
theory ViewerProps
  imports Viewers
begin

text \<open>
  What the RTSP connections and the supervisor promise together (the state machine of \<open>Viewers\<close>):
  the viewer count counts connections, a session nobody is connected to is stopped, answers are
  those of a server whose source answers at once, and every description gives the
  parameters the supervisor keeps for its session.
\<close>

section \<open>Viewers and connections\<close>

text \<open>A connection that waits for its subscription or holds one; and one whose \<open>subscribe\<close> has
  panicked, which does neither and is still counted.\<close>

definition attached :: "sub_pc list \<Rightarrow> viewer \<Rightarrow> bool" where
  "attached ps v \<longleftrightarrow> (case owned v of None \<Rightarrow> False | Some i \<Rightarrow> counted (ps ! i) \<and> ps ! i \<noteq> SPanic)"

definition lost :: "sub_pc list \<Rightarrow> viewer \<Rightarrow> bool" where
  "lost ps v \<longleftrightarrow> (case owned v of None \<Rightarrow> False | Some i \<Rightarrow> ps ! i = SPanic)"

lemma cnt_sum: "cnt P xs = (\<Sum>i<length xs. of_bool (P (xs ! i)))"
  by (induction xs rule: rev_induct) (auto simp: nth_append)

lemma cnt_fibres:
  fixes n :: nat
  assumes "\<And>v i. v \<in> set vs \<Longrightarrow> f v = Some i \<Longrightarrow> i < n"
  shows "cnt (\<lambda>v. case f v of None \<Rightarrow> False | Some i \<Rightarrow> P i) vs = (\<Sum>i<n. of_bool (P i) * cnt (\<lambda>v. f v = Some i) vs)"
  using assms
proof (induction vs)
  case (Cons v vs)
  have "(\<Sum>i<n. of_bool (P i) * of_bool (f v = Some i) :: int) = of_bool (case f v of None \<Rightarrow> False | Some i \<Rightarrow> P i)"
  proof (cases "f v")
    case (Some j)
    then have "j < n" using Cons.prems [of v j] by simp
    moreover have "(\<Sum>i<n. of_bool (P i) * of_bool (f v = Some i) :: int) = (\<Sum>i<n. if j = i then of_bool (P j) else 0)"
      using Some by (intro sum.cong) auto
    ultimately show ?thesis using Some by simp
  qed simp
  moreover have "cnt (\<lambda>v. case f v of None \<Rightarrow> False | Some i \<Rightarrow> P i) vs = (\<Sum>i<n. of_bool (P i) * cnt (\<lambda>v. f v = Some i) vs)"
    by (rule Cons.IH) (use Cons.prems in auto)
  ultimately show ?case unfolding cnt_simps distrib_left sum.distrib by simp
qed simp

lemma cnt_owned:
  assumes "proxy_inv c y" "\<not> P SDone"
  shows "cnt P (subs (px_sup y)) =
         cnt (\<lambda>v. case owned v of None \<Rightarrow> False | Some i \<Rightarrow> P (subs (px_sup y) ! i)) (px_viewers y)"
proof -
  let ?ps = "subs (px_sup y)"
  have one: "of_bool (P (?ps ! i)) * cnt (\<lambda>v. owned v = Some i) (px_viewers y) = of_bool (P (?ps ! i))"
    if "i < length ?ps" for i
    using owners_okD(2) [OF assms(1) that] assms(2) by (cases "?ps ! i = SDone") simp_all
  have "cnt (\<lambda>v. case owned v of None \<Rightarrow> False | Some i \<Rightarrow> P (?ps ! i)) (px_viewers y) =
      (\<Sum>i<length ?ps. of_bool (P (?ps ! i)) * cnt (\<lambda>v. owned v = Some i) (px_viewers y))"
    by (rule cnt_fibres) (use assms(1) viewer_ok_owned in \<open>auto simp: proxy_inv_def\<close>)
  also have "\<dots> = (\<Sum>i<length ?ps. of_bool (P (?ps ! i)))" by (rule sum.cong) (simp_all add: one)
  finally show ?thesis by (simp add: cnt_sum [of P])
qed

lemma cnt_counted: "cnt counted ps = cnt (\<lambda>pc. counted pc \<and> pc \<noteq> SPanic) ps + cnt (\<lambda>pc. pc = SPanic) ps"
  by (induction ps) auto

lemma counted_attached:
  assumes "proxy_inv c y"
  shows "cnt counted (subs (px_sup y)) =
         cnt (attached (subs (px_sup y))) (px_viewers y) + cnt (lost (subs (px_sup y))) (px_viewers y)"
  unfolding attached_def lost_def cnt_counted
  using cnt_owned [OF assms, of "\<lambda>pc. counted pc \<and> pc \<noteq> SPanic"] cnt_owned [OF assms, of "\<lambda>pc. pc = SPanic"] by simp

lemma viewer_count_attached:
  assumes "proxy_reach c src y"
  shows "viewer_count (px_sup y) =
         cnt (attached (subs (px_sup y))) (px_viewers y) + cnt (lost (subs (px_sup y))) (px_viewers y) +
         cnt (\<lambda>e. e = Detached) (queue (px_sup y))"
proof -
  have inv: "proxy_inv c y" by (rule reach_proxy [OF assms])
  then have "inv_count (px_sup y)" using reach_inv [of c "px_sup y"] by (simp add: proxy_inv_def sup_inv_def)
  with counted_attached [OF inv] show ?thesis by (simp add: inv_count_def)
qed

lemma nobody_lost:
  assumes "proxy_inv c y" "\<not> panicked (px_sup y)"
  shows "cnt (lost (subs (px_sup y))) (px_viewers y) = 0"
proof -
  have "panic_noted (px_sup y)" using assms(1) panic.inv_reach unfolding proxy_inv_def by blast
  with assms(2) have "cnt (\<lambda>pc. pc = SPanic) (subs (px_sup y)) = 0"
    by (auto simp: panic_noted_def cnt_def filter_empty_conv)
  with cnt_owned [OF assms(1), of "\<lambda>pc. pc = SPanic"] show ?thesis by (simp add: lost_def [abs_def])
qed

text \<open>A connection that holds a subscription holds one of the current session.\<close>

lemma held_current:
  assumes "proxy_reach c src y" "v \<in> set (px_viewers y)" "owned v = Some i" "subs (px_sup y) ! i = SLive ch p"
  shows "sst (px_sup y) = Streaming \<and> rtp_tx (px_sup y) = Some ch \<and> h264 (px_sup y) = Some p"
proof -
  have inv: "proxy_inv c y" by (rule reach_proxy [OF assms(1)])
  then have "i < length (subs (px_sup y))" using assms(2,3) viewer_ok_owned by (auto simp: proxy_inv_def)
  then have "SLive ch p \<in> set (subs (px_sup y))" using assms(4) nth_mem by metis
  with live_session [of c "px_sup y"] inv show ?thesis by (simp add: proxy_inv_def)
qed

lemma reading_current:
  assumes "proxy_reach c src y" "v \<in> set (px_viewers y)" "vw_phase v \<in> {Reading, Streams, Returning}"
    and "c_subscription (vw_conn v) \<noteq> None \<or> vw_phase v = Streams"
  shows "\<exists>i ch p. vw_held v = Some i \<and> subs (px_sup y) ! i = SLive ch p \<and> c_subscription (vw_conn v) = Some p \<and>
           sst (px_sup y) = Streaming \<and> rtp_tx (px_sup y) = Some ch \<and> h264 (px_sup y) = Some p"
proof -
  have "viewer_ok (subs (px_sup y)) v" using reach_proxy [OF assms(1)] assms(2) by (simp add: proxy_inv_def)
  then obtain i ch p where h: "vw_held v = Some i" "subs (px_sup y) ! i = SLive ch p" "c_subscription (vw_conn v) = Some p"
    using assms(3,4) by (auto simp: viewer_ok_def split: option.splits)
  moreover have "owned v = Some i" using h(1) assms(3) by (auto simp: owned_def)
  ultimately show ?thesis using held_current [OF assms(1,2)] by blast
qed

text \<open>A connection that neither waits for a subscription nor holds one.\<close>

definition left_alone :: "viewer \<Rightarrow> bool" where
  "left_alone v \<longleftrightarrow> (case vw_phase v of Subscribing i req \<Rightarrow> False | _ \<Rightarrow> vw_held v = None)"

lemma left_alone_attached: "viewer_ok ps v \<Longrightarrow> left_alone v \<Longrightarrow> \<not> attached ps v"
  by (auto simp: left_alone_def attached_def owned_def viewer_ok_def split: phase.splits)

section \<open>The answers\<close>

text \<open>The request that a step answers, with the connection that asked.\<close>

fun answering :: "proxy \<Rightarrow> proxy_label \<Rightarrow> (nat \<times> rtsp_request) option" where
  "answering y (Request k req) =
     (if c_subscription (vw_conn (px_viewers y ! k)) = None \<and> needs_subscription (req_method req)
      then None else Some (k, req))"
| "answering y (Resume k e) =
     (case vw_phase (px_viewers y ! k) of
        Subscribing i req \<Rightarrow> (case subs (px_sup y) ! i of SLive ch p \<Rightarrow> Some (k, req) | _ \<Rightarrow> None)
      | _ \<Rightarrow> None)"
| "answering y _ = None"

text \<open>An answer concerns one connection only, and it is given with the parameters of the current
  session when the request needs any.\<close>

lemma answering_step:
  assumes "proxy_reach c src y" "proxy_step c src l y = Some y'" "answering y l = Some (k, req)"
    and "v = px_viewers y ! k"
  shows "k < length (px_viewers y) \<and> px_sup y' = px_sup y \<and>
         (\<exists>sub held. px_viewers y' = (px_viewers y)[k := viewer_answer src sub held req v] \<and>
            (if needs_subscription (req_method req)
             then sub = h264 (px_sup y) \<and> sub \<noteq> None \<and> c_subscription (vw_conn v) \<in> {None, sub}
             else sub = c_subscription (vw_conn v)))"
proof (cases l)
  case (Request j r)
  with assms(2-4) have k: "k < length (px_viewers y)" "j = k" "r = req"
    and st: "on_request src k req v y = Some y'" by (auto split: if_splits)
  with assms(3,4) Request have sub: "needs_subscription (req_method req) \<longrightarrow> c_subscription (vw_conn v) \<noteq> None"
    by (auto split: if_splits)
  with st have ph: "vw_phase v = Reading"
    and y': "y' = set_viewer k (viewer_answer src (c_subscription (vw_conn v)) (vw_held v) req v) y"
    by (auto simp: on_request_def split: if_splits)
  have "needs_subscription (req_method req) \<longrightarrow> c_subscription (vw_conn v) = h264 (px_sup y)"
    using reading_current [OF assms(1), of v] k(1) ph sub assms(4) by auto
  with sub y' k(1) show ?thesis
    by (intro conjI exI [of _ "c_subscription (vw_conn v)"] exI [of _ "vw_held v"]) (auto simp: set_viewer_def)
next
  case (Resume j e)
  with assms(2-4) obtain i ch p where k: "k < length (px_viewers y)" "j = k"
    and ph: "vw_phase v = Subscribing i req" "subs (px_sup y) ! i = SLive ch p"
    and st: "on_resume src k e v y = Some y'" by (auto split: if_splits phase.splits sub_pc.splits)
  then have y': "y' = set_viewer k (viewer_answer src (Some p) (Some i) req v) y" by (auto simp: on_resume_def)
  have "viewer_ok (subs (px_sup y)) v" using proxy_inv_ok [OF reach_proxy [OF assms(1)] k(1)] assms(4) by simp
  then have "c_subscription (vw_conn v) = None" "needs_subscription (req_method req)"
    using ph by (simp_all add: viewer_ok_def)
  moreover have "h264 (px_sup y) = Some p"
    using held_current [OF assms(1), of v i] k(1) ph assms(4) by (simp add: owned_def)
  ultimately show ?thesis using k(1) y'
    by (intro conjI exI [of _ "Some p"] exI [of _ "Some i"]) (simp_all add: set_viewer_def)
qed (use assms(3) in simp_all)

text \<open>What the source of \<open>RtspServer\<close> stands for: a \<open>subscribe\<close> that answers with the session.\<close>

definition settled_source :: "source_view \<Rightarrow> supervisor \<Rightarrow> source_view" where
  "settled_source src s =
     src\<lparr>src_subscribe := (case h264 s of None \<Rightarrow> Inl (Unavailable []) | Some p \<Rightarrow> Inr p)\<rparr>"

lemma settled_source_fields [simp]:
  "src_camera_name (settled_source src s) = src_camera_name src" "src_rtsp_path (settled_source src s) = src_rtsp_path src"
  "conn_answer (settled_source src s) = conn_answer src"
  by (simp_all add: settled_source_def fun_eq_iff conn_answer_def)

lemma answer_refines:
  assumes "proxy_reach c src y" "proxy_step c src l y = Some y'" "answering y l = Some (k, req)"
    and "v = px_viewers y ! k"
  shows "px_sup y' = px_sup y \<and> (\<forall>j. j \<noteq> k \<longrightarrow> px_viewers y' ! j = px_viewers y ! j) \<and>
         vw_conn (px_viewers y' ! k) = fst (conn_request (settled_source src (px_sup y)) (vw_id v) (vw_conn v) req) \<and>
         (needs_subscription (req_method req) \<longrightarrow> h264 (px_sup y) \<noteq> None)"
proof -
  obtain sub held where k: "k < length (px_viewers y)" "px_sup y' = px_sup y"
    and vs: "px_viewers y' = (px_viewers y)[k := viewer_answer src sub held req v]"
    and sub: "if needs_subscription (req_method req)
        then sub = h264 (px_sup y) \<and> sub \<noteq> None \<and> c_subscription (vw_conn v) \<in> {None, sub}
        else sub = c_subscription (vw_conn v)"
    using answering_step [OF assms] by blast
  have c: "vw_conn (viewer_answer src sub held req v) = fst (conn_answer src (vw_id v) sub (vw_conn v) req)"
    by (simp add: viewer_answer_def split: prod.split)
  have "conn_request (settled_source src (px_sup y)) (vw_id v) (vw_conn v) req = conn_answer src (vw_id v) sub (vw_conn v) req"
    using sub by (auto simp: conn_request_def settled_source_def [of src "px_sup y"] split: if_splits)
      (simp_all add: conn_answer_def)
  with k vs c sub show ?thesis by (auto split: if_splits)
qed

section \<open>A first viewer\<close>

definition cam_source :: source_view where
  "cam_source = \<lparr>src_camera_name = ''Cam'', src_rtsp_path = ''cam'', src_subscribe = Inl (Unavailable [])\<rparr>"

text \<open>A client connects and asks for the description; the supervisor brings the session up.\<close>

definition first_describe :: "proxy_label list" where
  "first_describe = [Accept, Request 0 (demo_request Describe)] @ map Internal (tl (first_viewer 0))"

lemma demo_method: "req_method (demo_request m) = m"
  by (simp add: demo_request_def)

lemmas proxy_run_defs = first_describe_def proxy_new_def viewer_new_def conn_new_def on_request_def
  set_viewer_def needs_subscription_def demo_method run_defs

lemma demo_described:
  "\<exists>y. proxy_run (demo_config w) cam_source first_describe (proxy_new 0) = Some y \<and>
     px_viewers y = [(viewer_new 0)\<lparr>vw_phase := Subscribing 0 (demo_request Describe)\<rparr>] \<and>
     subs (px_sup y) = [SLive 0 demo_params] \<and> h264 (px_sup y) = Some demo_params \<and> viewer_count (px_sup y) = 1"
  by (simp add: proxy_run_defs)

lemma demo_proxy_reach: "proxy_run c src ls (proxy_new 0) = Some y \<Longrightarrow> proxy_reach c src y"
  by (rule reach_proxy_run [OF _ reach_proxy_new])

text \<open>The end of the stream: the event loop drains its queue.\<close>

lemma drain_queue:
  "\<exists>t. sup_run c (replicate (length (queue s)) LoopRecv) s = Some t \<and> queue t = [] \<and>
       subs t = subs s \<and> sst t = sst s \<and> clock t = clock s \<and> stop t = stop s"
proof (induction "queue s" arbitrary: s)
  case (Cons ev q)
  let ?s = "viewer_event c ev (s\<lparr>queue := q\<rparr>)"
  have st: "sup_step c LoopRecv s = Some ?s" using Cons(2) [symmetric] by (simp add: loop_recv_def)
  have f: "queue ?s = q" "subs ?s = subs s" "sst ?s = sst s" "clock ?s = clock s" "stop ?s = stop s"
    by (simp_all add: viewer_event_def arm_timer_def Let_def split: viewer_event_kind.split)
  have "length (queue s) = Suc (length (queue ?s))" using Cons(2) [symmetric] f by simp
  with Cons(1) [of ?s] f st show ?case by simp
qed simp

lemma sup_run_append: "sup_run c (ls @ ms) s = Option.bind (sup_run c ls s) (sup_run c ms)"
proof (induction ls arbitrary: s)
  case (Cons l ls)
  then show ?case by (cases "sup_step c l s") simp_all
qed simp

lemma proxy_run_append: "proxy_run c src (ls @ ms) y = Option.bind (proxy_run c src ls y) (proxy_run c src ms)"
proof (induction ls arbitrary: y)
  case (Cons l ls)
  then show ?case by (cases "proxy_step c src l y") simp_all
qed simp

lemma proxy_run_internal:
  "\<forall>l\<in>set ls. internal l \<Longrightarrow> sup_run c ls (px_sup y) = Some s \<Longrightarrow>
   proxy_run c src (map Internal ls) y = Some (y\<lparr>px_sup := s\<rparr>)"
  by (induction ls arbitrary: y) (auto simp: bind_eq_Some_conv)

section \<open>What the composition promises\<close>

text \<open>C4. The viewer count of the supervisor is the number of connections: in every reachable state
  of the connections and the supervisor together, however they interleave, it is the number of
  connections that wait for a subscription or hold one, plus those whose \<open>subscribe\<close> has panicked
  (none under a standing receiver of the state watch), plus the departures the event loop has
  not seen yet; and a connection that streams holds a subscription to the current session, under
  the H.264 parameters it was described with.\<close>

theorem viewers_are_connections:
  assumes "proxy_reach c src y"
  shows "viewer_count (px_sup y) =
           cnt (attached (subs (px_sup y))) (px_viewers y) + cnt (lost (subs (px_sup y))) (px_viewers y) +
           cnt (\<lambda>e. e = Detached) (queue (px_sup y)) \<and>
         (standing c \<longrightarrow> cnt (lost (subs (px_sup y))) (px_viewers y) = 0) \<and>
         (\<forall>v\<in>set (px_viewers y). vw_phase v = Streams \<longrightarrow>
            (\<exists>i ch p. vw_held v = Some i \<and> subs (px_sup y) ! i = SLive ch p \<and> sst (px_sup y) = Streaming \<and>
               rtp_tx (px_sup y) = Some ch \<and> c_subscription (vw_conn v) = Some p \<and> h264 (px_sup y) = Some p))"
proof (intro conjI ballI impI)
  fix v assume "v \<in> set (px_viewers y)" "vw_phase v = Streams"
  then show "\<exists>i ch p. vw_held v = Some i \<and> subs (px_sup y) ! i = SLive ch p \<and> sst (px_sup y) = Streaming \<and>
      rtp_tx (px_sup y) = Some ch \<and> c_subscription (vw_conn v) = Some p \<and> h264 (px_sup y) = Some p"
    using reading_current [OF assms, of v] by auto
next
  assume "standing c"
  then have "\<not> panicked (px_sup y)"
    using reach_proxy [OF assms] reach_inv [of c "px_sup y"] by (simp add: proxy_inv_def sup_inv_def inv_watch_def)
  then show "cnt (lost (subs (px_sup y))) (px_viewers y) = 0" by (rule nobody_lost [OF reach_proxy [OF assms]])
qed (rule viewer_count_attached [OF assms])

theorem viewers_are_connections_witness:
  "\<exists>y :: proxy. px_viewers y = [(viewer_new 0)\<lparr>vw_phase := Subscribing 0 (demo_request Describe)\<rparr>] \<and>
     subs (px_sup y) = [SLive 0 demo_params] \<and>
     1 = cnt (attached (subs (px_sup y))) (px_viewers y) + cnt (\<lambda>e. e = Detached) (queue (px_sup y))"
proof -
  obtain y where y: "proxy_run (demo_config True) cam_source first_describe (proxy_new 0) = Some y"
    "px_viewers y = [(viewer_new 0)\<lparr>vw_phase := Subscribing 0 (demo_request Describe)\<rparr>]"
    "subs (px_sup y) = [SLive 0 demo_params]" "viewer_count (px_sup y) = 1" using demo_described [of True] by blast
  have "standing (demo_config True)" by (simp add: demo_config_def)
  with viewers_are_connections [OF demo_proxy_reach [OF y(1)]] y(4)
  have "1 = cnt (attached (subs (px_sup y))) (px_viewers y) + cnt (\<lambda>e. e = Detached) (queue (px_sup y))" by simp
  with y(2,3) show ?thesis by blast
qed

text \<open>C5. Nobody left, nothing kept: from every reachable state in which no connection waits for or
  holds a subscription any more and no \<open>subscribe\<close> has panicked (none does under a standing
  receiver of the state watch; a panicked one is counted for good and keeps the session up),
  the supervisor, left alone, drains its queue, and within the idle timeout the timer fires,
  the session is stopped and the state is \<open>Idle\<close>.\<close>

theorem last_connection_stops_session:
  assumes "proxy_reach c src y" "list_all left_alone (px_viewers y)" "\<not> panicked (px_sup y)"
    and "sst (px_sup y) = Streaming"
  shows "\<exists>h d k y'. stop (px_sup y) = Some h \<and> d \<le> idle_timeout c \<and>
           proxy_run c src (map Internal (replicate (length (queue (px_sup y))) LoopRecv @ [Advance d, TimerFire k])) y
             = Some y' \<and>
           sst (px_sup y') = Idle \<and> rtp_tx (px_sup y') = None \<and> viewer_count (px_sup y') = 0 \<and>
           h \<notin> set (handles (px_sup y'))"
proof -
  let ?s = "px_sup y" and ?ls = "replicate (length (queue (px_sup y))) LoopRecv"
  have inv: "proxy_inv c y" by (rule reach_proxy [OF assms(1)])
  then have r: "sup_reach c ?s" by (simp add: proxy_inv_def)
  have "cnt (attached (subs ?s)) (px_viewers y) = 0"
    using assms(2) left_alone_attached inv by (auto simp: cnt_def filter_empty_conv list_all_iff proxy_inv_def)
  with counted_attached [OF inv] nobody_lost [OF inv assms(3)] have none: "cnt counted (subs ?s) = 0" by simp
  obtain h where h: "stop ?s = Some h"
    using reach_inv [OF r] assms(4) by (auto simp: sup_inv_def inv_data_def)
  obtain t where t: "sup_run c ?ls ?s = Some t" "queue t = []" "subs t = subs ?s" "sst t = Streaming" "stop t = Some h"
    using drain_queue [of c ?s] assms(4) h by auto
  have ti: "sup_inv c t" using reach_sup_run [OF t(1) r] by (rule reach_inv)
  then have vc: "viewer_count t = 0" using none t by (simp add: sup_inv_def inv_count_def)
  from ti have "inv_timer c t" by (simp add: sup_inv_def)
  then obtain k due where k: "timers t = [(k, due)]" "due \<le> clock t + idle_timeout c"
    by (rule inv_timerE) (use vc t in auto)
  let ?u = "teardown_session c (t\<lparr>clock := clock t + (due - clock t), timers := []\<rparr>)"
  have "sup_run c (?ls @ [Advance (due - clock t), TimerFire k]) ?s = Some ?u"
    unfolding sup_run_append t(1) using k by (simp add: timer_fire_def)
  moreover have "\<forall>l\<in>set (?ls @ [Advance (due - clock t), TimerFire k]). internal l" by auto
  ultimately have "proxy_run c src (map Internal (?ls @ [Advance (due - clock t), TimerFire k])) y
      = Some (y\<lparr>px_sup := ?u\<rparr>)"
    by (intro proxy_run_internal)
  moreover have "sst ?u = Idle" "rtp_tx ?u = None" "viewer_count ?u = 0" "h \<notin> set (handles ?u)"
    using t vc by (simp_all add: teardown_session_def drop_stop_def drop_handle_def)
  moreover have "due - clock t \<le> idle_timeout c" using k(2) by simp
  ultimately show ?thesis using h
    by (intro exI [of _ h] exI [of _ "due - clock t"] exI [of _ k] exI [of _ "y\<lparr>px_sup := ?u\<rparr>"]) simp
qed

lemma describe_keeps_reading: "vw_phase (viewer_answer src sub held (demo_request Describe) v) = Reading"
  by (simp add: viewer_answer_def conn_answer_def session_handle_def demo_method Let_def split: prod.split)

lemma demo_hung_up:
  "\<exists>y. proxy_run (demo_config w) cam_source (first_describe @ [Resume 0 (Unavailable []), Hangup 0]) (proxy_new 0) = Some y \<and>
     list_all left_alone (px_viewers y) \<and> \<not> panicked (px_sup y) \<and> sst (px_sup y) = Streaming \<and>
     queue (px_sup y) = [Detached] \<and> stop (px_sup y) = Some 1"
  by (simp add: proxy_run_defs on_resume_def on_hangup_def describe_keeps_reading viewer_answer_props(1) left_alone_def)

theorem last_connection_stops_session_witness:
  "\<exists>(y :: proxy) y' d k. queue (px_sup y) = [Detached] \<and> stop (px_sup y) = Some 1 \<and> d \<le> secs 60 \<and>
     proxy_run (demo_config True) cam_source (map Internal [LoopRecv, Advance d, TimerFire k]) y = Some y' \<and>
     sst (px_sup y') = Idle \<and> 1 \<notin> set (handles (px_sup y'))"
proof -
  obtain y where y: "proxy_run (demo_config True) cam_source
      (first_describe @ [Resume 0 (Unavailable []), Hangup 0]) (proxy_new 0) = Some y"
    "list_all left_alone (px_viewers y)" "\<not> panicked (px_sup y)" "sst (px_sup y) = Streaming"
    "queue (px_sup y) = [Detached]" "stop (px_sup y) = Some 1" using demo_hung_up [of True] by blast
  have t: "idle_timeout (demo_config True) = secs 60" by (simp add: demo_config_def)
  from last_connection_stops_session [OF demo_proxy_reach [OF y(1)] y(2,3,4)] y(5,6) obtain d k y' where
    "d \<le> secs 60" "proxy_run (demo_config True) cam_source (map Internal [LoopRecv, Advance d, TimerFire k]) y = Some y'"
    "sst (px_sup y') = Idle" "1 \<notin> set (handles (px_sup y'))"
    unfolding t by auto
  with y(5,6) show ?thesis by blast
qed

text \<open>C15. A request is served as if the supervisor were a source that answers at once: a step that
  answers a request leaves the supervisor and every other connection alone, and does to its own
  connection exactly what the connection task of the server does with a source whose
  \<open>subscribe\<close> returns the parameters of the session that is current at that moment; a request
  that needs a subscription is never answered without one.\<close>

theorem answers_refine_server:
  assumes "proxy_reach c src y" "proxy_step c src l y = Some y'" "answering y l = Some (k, req)"
    and "v = px_viewers y ! k"
  shows "px_sup y' = px_sup y \<and> (\<forall>j. j \<noteq> k \<longrightarrow> px_viewers y' ! j = px_viewers y ! j) \<and>
         vw_conn (px_viewers y' ! k) = fst (conn_request (settled_source src (px_sup y)) (vw_id v) (vw_conn v) req) \<and>
         (needs_subscription (req_method req) \<longrightarrow> h264 (px_sup y) \<noteq> None)"
  by (rule answer_refines [OF assms])

theorem answers_refine_server_witness:
  "\<exists>y y' :: proxy. proxy_step (demo_config True) cam_source (Resume 0 (Unavailable [])) y = Some y' \<and>
     vw_conn (px_viewers y' ! 0) =
       fst (conn_request (settled_source cam_source (px_sup y)) ''BUDDY3D-0'' conn_new (demo_request Describe))"
proof -
  obtain y where y: "proxy_run (demo_config True) cam_source first_describe (proxy_new 0) = Some y"
    "px_viewers y = [(viewer_new 0)\<lparr>vw_phase := Subscribing 0 (demo_request Describe)\<rparr>]"
    "subs (px_sup y) = [SLive 0 demo_params]" using demo_described [of True] by blast
  then obtain y' where y': "proxy_step (demo_config True) cam_source (Resume 0 (Unavailable [])) y = Some y'"
    by (simp add: on_resume_def)
  have "answering y (Resume 0 (Unavailable [])) = Some (0, demo_request Describe)" using y(2,3) by simp
  moreover have "connection_session_id 0 = ''BUDDY3D-0''" by code_simp
  ultimately have "vw_conn (px_viewers y' ! 0) =
      fst (conn_request (settled_source cam_source (px_sup y)) ''BUDDY3D-0'' conn_new (demo_request Describe))"
    using answers_refine_server [OF demo_proxy_reach [OF y(1)] y' _ refl] y(2) by (simp add: viewer_new_def)
  with y' show ?thesis by blast
qed

text \<open>C13. Every DESCRIBE is answered from the supervisor's current session: whenever and in whatever
  state of the other connections one is answered, the supervisor is \<open>Streaming\<close> and the
  connection writes one response: 200 with an SDP that parses to the H.264 parameters the
  supervisor keeps when the URI is the camera's, 404 otherwise. Name and parameters are supposed
  to fit an SDP line (\<open>sdp_ok\<close>: no line feed in the name, no blanks and no semicolons in the
  parameters). The parameters kept are those of the connect that brought the session up; a
  reconnect of the watchdog throws its own away (\<open>reconnect_keeps_params\<close>), so they may be
  older than the stream.\<close>

theorem describe_current:
  assumes "proxy_reach c src y" "proxy_step c src l y = Some y'" "answering y l = Some (k, req)"
    and "req_method req = Describe"
    and "\<And>p. h264 (px_sup y) = Some p \<Longrightarrow> sdp_ok (src_camera_name src) p"
  shows "sst (px_sup y) = Streaming \<and> h264 (px_sup y) \<noteq> None \<and>
         (\<exists>resp. c_out (vw_conn (px_viewers y' ! k)) =
             c_out (vw_conn (px_viewers y ! k)) @ to_bytes (format_response resp) \<and>
           (if uri_matches (req_uri req) (src_rtsp_path src)
            then status resp = 200 \<and> (\<exists>body. resp_body resp = Some body \<and> extract_h264_params body = h264 (px_sup y))
            else status resp = 404))"
proof -
  have need: "needs_subscription (req_method req)" using assms(4) by (simp add: needs_subscription_def)
  obtain sub held where k: "k < length (px_viewers y)"
    and vs: "px_viewers y' = (px_viewers y)[k := viewer_answer src sub held req (px_viewers y ! k)]"
    and sub: "sub = h264 (px_sup y)" "sub \<noteq> None"
    using answering_step [OF assms(1-3) refl] need by auto
  then obtain p where p: "h264 (px_sup y) = Some p" "sub = Some p" by auto
  have inv: "sup_inv c (px_sup y)" using reach_proxy [OF assms(1)] reach_inv by (simp add: proxy_inv_def)
  then have str: "sst (px_sup y) = Streaming" using p(1) by (auto simp: sup_inv_def inv_data_def)
  have "extract_h264_params (build_sdp (src_camera_name src) p) = Some p"
    by (rule extract_built_sdp) (rule assms(5) [OF p(1)])
  with k vs p str assms(4) show ?thesis
    by (cases "uri_matches (req_uri req) (src_rtsp_path src)")
       (auto simp: viewer_answer_def conn_answer_def session_handle_def Let_def resp_defs split: prod.split)
qed

theorem describe_current_witness:
  "\<exists>(y' :: proxy) resp body. c_out (vw_conn (px_viewers y' ! 0)) = to_bytes (format_response resp) \<and>
     status resp = 200 \<and> resp_body resp = Some body \<and> extract_h264_params body = Some demo_params"
proof -
  obtain y where y: "proxy_run (demo_config True) cam_source first_describe (proxy_new 0) = Some y"
    "px_viewers y = [(viewer_new 0)\<lparr>vw_phase := Subscribing 0 (demo_request Describe)\<rparr>]"
    "subs (px_sup y) = [SLive 0 demo_params]" "h264 (px_sup y) = Some demo_params"
    using demo_described [of True] by blast
  then obtain y' where y': "proxy_step (demo_config True) cam_source (Resume 0 (Unavailable [])) y = Some y'"
    by (simp add: on_resume_def)
  have a: "answering y (Resume 0 (Unavailable [])) = Some (0, demo_request Describe)" using y(2,3) by simp
  have u: "uri_matches (req_uri (demo_request Describe)) (src_rtsp_path cam_source)"
    unfolding cam_source_def demo_request_def by code_simp
  have "sdp_ok (src_camera_name cam_source) p" if "h264 (px_sup y) = Some p" for p
  proof -
    have "p = demo_params" using that y(4) by simp
    then show ?thesis by (simp add: cam_source_def demo_params_def sdp_ok_def param_ok_def solid_def)
  qed
  from describe_current [OF demo_proxy_reach [OF y(1)] y' a demo_method this] y(2,4) u show ?thesis
    by (auto simp: viewer_new_def conn_new_def)
qed

section \<open>A path that is not there\<close>

text \<open>A request for a path that the server does not have wakes the camera all the same: the
  subscription is taken before the URI is looked at, so the connection that is told 404 has
  brought the session up and counts as its viewer until it hangs up.\<close>

definition stray_request :: rtsp_request where
  "stray_request = (demo_request Describe)\<lparr>req_uri := ''rtsp://h/nope''\<rparr>"

lemma stray_answer:
  "\<exists>resp. c_out (vw_conn (viewer_answer cam_source sub held stray_request (viewer_new n))) = to_bytes (format_response resp) \<and>
          status resp = 404"
  "vw_phase (viewer_answer cam_source sub held stray_request (viewer_new n)) = Reading"
proof -
  have "\<not> uri_matches ''rtsp://h/nope'' ''cam''" by code_simp
  then show "\<exists>resp. c_out (vw_conn (viewer_answer cam_source sub held stray_request (viewer_new n))) =
        to_bytes (format_response resp) \<and> status resp = 404"
    "vw_phase (viewer_answer cam_source sub held stray_request (viewer_new n)) = Reading"
    by (auto simp: viewer_answer_def conn_answer_def session_handle_def stray_request_def demo_request_def
        cam_source_def viewer_new_def conn_new_def Let_def)
qed

theorem stray_request_wakes_camera:
  "\<exists>y resp. proxy_run (demo_config w) cam_source
        ([Accept, Request 0 stray_request] @ map Internal (tl (first_viewer 0)) @ [Resume 0 (Unavailable [])]) (proxy_new 0)
        = Some y \<and>
     c_out (vw_conn (px_viewers y ! 0)) = to_bytes (format_response resp) \<and> status resp = 404 \<and>
     sst (px_sup y) = Streaming \<and> viewer_count (px_sup y) = 1 \<and> vw_held (px_viewers y ! 0) = Some 0"
proof -
  let ?v = "viewer_answer cam_source (Some demo_params) (Some 0) stray_request"
  have same: "?v (v\<lparr>vw_phase := ph\<rparr>) = ?v v" for v ph
    by (simp add: viewer_answer_def split: prod.split)
  have "req_method stray_request = Describe" by (simp add: stray_request_def demo_method)
  then have "\<exists>y. proxy_run (demo_config w) cam_source
      ([Accept, Request 0 stray_request] @ map Internal (tl (first_viewer 0)) @ [Resume 0 (Unavailable [])]) (proxy_new 0)
        = Some y \<and> px_viewers y = [?v (viewer_new 0)] \<and> sst (px_sup y) = Streaming \<and> viewer_count (px_sup y) = 1"
    using same [where v = "viewer_new 0"] by (simp add: proxy_run_defs on_resume_def)
  then show ?thesis using stray_answer(1) [of "Some demo_params" "Some 0" 0] by (auto simp: viewer_answer_props(1))
qed

end
