(* ===== verification/Progress.thy ===== *)
theory Progress
  imports ViewerProps
begin

text \<open>
  How long a connection waits in \<open>subscribe\<close> (\<open>src/supervisor/mod.rs\<close>): every schedule of the
  connections' tasks and the supervisor's has a bounded number of steps of \<open>subscribe\<close> calls,
  and where no such step is left every connection that waits can go on.
\<close>

section \<open>The work that is left\<close>

text \<open>How many steps of its own a \<open>subscribe\<close> call can still make.\<close>

fun pc_rank :: "sub_pc \<Rightarrow> nat" where
  "pc_rank SCounted = 6"
| "pc_rank SAttached = 5"
| "pc_rank (SConnecting ch) = 4"
| "pc_rank (SConnected ch p sid) = 3"
| "pc_rank SConnectFailed = 2"
| "pc_rank (SSpawn ch sid) = 2"
| "pc_rank SWatching = 3"
| "pc_rank SWatch = 2"
| "pc_rank (SRollback b) = 1"
| "pc_rank SJoin = 1"
| "pc_rank (SLive ch p) = 0"
| "pc_rank SDone = 0"
| "pc_rank SPanic = 0"

definition work :: "proxy \<Rightarrow> nat" where
  "work y = sum_list (map pc_rank (subs (px_sup y)))"

text \<open>The steps of the \<open>subscribe\<close> calls; the return of a connect is one of them.\<close>

fun subscriber_step :: "proxy_label \<Rightarrow> bool" where
  "subscriber_step (Internal (SubStep i)) \<longleftrightarrow> True"
| "subscriber_step (Internal (ConnectOk i p)) \<longleftrightarrow> True"
| "subscriber_step (Internal (ConnectErr i)) \<longleftrightarrow> True"
| "subscriber_step _ \<longleftrightarrow> False"

fun new_request :: "proxy_label \<Rightarrow> bool" where
  "new_request (Request k req) \<longleftrightarrow> True"
| "new_request _ \<longleftrightarrow> False"

fun waiting :: "viewer \<Rightarrow> bool" where
  "waiting v \<longleftrightarrow> (case vw_phase v of Subscribing i req \<Rightarrow> True | _ \<Rightarrow> False)"

section \<open>Every step of a \<open>subscribe\<close> uses some of it up\<close>

definition moves_down :: "nat \<Rightarrow> supervisor \<Rightarrow> supervisor \<Rightarrow> bool" where
  "moves_down i s t \<longleftrightarrow> i < length (subs s) \<and>
     (\<exists>pc. subs t = (subs s)[i := pc] \<and> pc_rank pc < pc_rank (subs s ! i))"

lemma acquire_down:
  assumes "sup_inv c s" "i < length (subs s)" "subs s ! i = SAttached"
  shows "moves_down i s (sub_acquire c i s)"
proof -
  obtain w b where "\<And>k. with_budget (rb_wait_time (clock s) (budget s)) snd s k = k (w, b) (s\<lparr>budget := b\<rparr>)"
    using with_budget_wait [OF assms(1)] by metis
  then show ?thesis using assms(2,3)
    by (cases "sst s") (auto simp: moves_down_def sub_acquire_def sub_goto_def Let_def)
qed

lemma connect_down:
  assumes "sup_inv c s" "i < length (subs s)" "subs s ! i = SConnecting ch"
  shows "moves_down i s (sub_connect_ok i ch p s)" "moves_down i s (sub_connect_err i s)"
proof -
  obtain b where "\<And>k. with_budget (rb_record_success (clock s) (budget s)) id s k = k b (s\<lparr>budget := b\<rparr>)"
    using with_budget_success [OF assms(1)] by metis
  then show "moves_down i s (sub_connect_ok i ch p s)" using assms(2,3)
    by (auto simp: moves_down_def sub_connect_ok_def sub_goto_def Let_def)
  obtain b where "\<And>k. with_budget (rb_record_failure (clock s) (budget s)) id s k = k b (s\<lparr>budget := b\<rparr>)"
    using with_budget_failure [OF assms(1)] by metis
  then show "moves_down i s (sub_connect_err i s)" using assms(2,3)
    by (auto simp: moves_down_def sub_connect_err_def sub_goto_def)
qed

lemma own_step_down:
  assumes "sup_inv c s" "i < length (subs s)" "sub_step c i (subs s ! i) s = Some t"
  shows "moves_down i s t"
proof (cases "subs s ! i")
  case SAttached
  with assms acquire_down [OF assms(1,2)] show ?thesis by auto
qed (use assms in \<open>auto simp: moves_down_def sub_goto_def send_event_def sub_connect_failed_def
    sub_connected_def sub_spawn_def sub_watch_def sub_join_def sub_rollback_def Let_def
    split: sup_state.splits option.splits if_splits\<close>)

lemma subscriber_down:
  assumes "sup_inv c s" "sup_step c l s = Some t" "subscriber_step (Internal l)"
  shows "\<exists>i. moves_down i s t"
proof (cases l)
  case (SubStep i)
  with assms own_step_down [OF assms(1), of i t] show ?thesis by (auto split: if_splits)
next
  case (ConnectOk i p)
  with assms connect_down(1) [OF assms(1), of i] show ?thesis by (auto split: if_splits sub_pc.splits)
next
  case (ConnectErr i)
  with assms connect_down(2) [OF assms(1), of i] show ?thesis by (auto split: if_splits sub_pc.splits)
qed (use assms(3) in simp_all)

lemma others_keep:
  assumes "sup_step c l s = Some t" "internal l" "\<not> subscriber_step (Internal l)"
  shows "subs t = subs s"
proof (cases l)
  case (WdStep i)
  with assms(1) show ?thesis using panic_wd_step by (auto split: if_splits)
next
  case LoopRecv
  with assms(1) show ?thesis by (auto simp: loop_recv_def split: list.splits)
next
  case (TimerFire k)
  with assms(1) show ?thesis by (auto simp: timer_fire_def teardown_session_def split: option.splits if_splits)
qed (use assms in \<open>auto simp: with_budget_def wd_delay_def wd_reconnect_ok_def wd_reconnect_err_def wd_goto_def
    Let_def split: if_splits outcome.splits prod.splits\<close>)

lemma moves_down_work: "moves_down i s t \<Longrightarrow> sum_list (map pc_rank (subs t)) < sum_list (map pc_rank (subs s))"
proof -
  assume "moves_down i s t"
  then obtain pc where i: "i < length (subs s)" "subs t = (subs s)[i := pc]" "pc_rank pc < pc_rank (subs s ! i)"
    by (auto simp: moves_down_def)
  have "pc_rank (subs s ! i) \<le> sum_list (map pc_rank (subs s))"
    using i(1) elem_le_sum_list [of i "map pc_rank (subs s)"] by simp
  with i show ?thesis by (simp add: map_update sum_list_update)
qed

lemma work_step:
  assumes "proxy_inv c y" "proxy_step c src l y = Some y'"
  shows "of_bool (subscriber_step l) + work y' \<le> work y + 6 * of_bool (new_request l)"
proof (cases l)
  case (Request k req)
  with assms(2) show ?thesis
    by (auto simp: work_def on_request_def set_viewer_def subscribe_def split: if_splits)
next
  case (Resume k e)
  with assms(2) show ?thesis
    by (auto simp: work_def on_resume_def set_viewer_def split: if_splits phase.splits sub_pc.splits)
next
  case (Hangup k)
  with assms(2) have "px_sup y' = px_sup y \<or> (\<exists>i ch p. i < length (subs (px_sup y)) \<and> subs (px_sup y) ! i = SLive ch p \<and>
      subs (px_sup y') = (subs (px_sup y))[i := SDone])"
    by (auto simp: on_hangup_def set_viewer_def drop_subscription_def sub_goto_def send_event_def Let_def
        split: if_splits option.splits sub_pc.splits)
  with Hangup show ?thesis by (auto simp: work_def map_update sum_list_update)
next
  case (Internal m)
  with assms(2) obtain s where s: "internal m" "sup_step c m (px_sup y) = Some s" "y' = y\<lparr>px_sup := s\<rparr>"
    by (auto split: if_splits)
  have inv: "sup_inv c (px_sup y)" using assms(1) reach_inv by (simp add: proxy_inv_def)
  show ?thesis
  proof (cases "subscriber_step l")
    case True
    with Internal subscriber_down [OF inv s(2)] obtain i where "moves_down i (px_sup y) s" by auto
    from moves_down_work [OF this] True Internal s(3) show ?thesis by (simp add: work_def)
  next
    case False
    with Internal others_keep [OF s(2,1)] s(3) show ?thesis by (simp add: work_def)
  qed
qed (use assms(2) in \<open>auto simp: work_def\<close>)

lemma work_run:
  assumes "proxy_inv c y" "proxy_run c src ls y = Some y'"
  shows "length (filter subscriber_step ls) + work y' \<le> work y + 6 * length (filter new_request ls)"
  using assms
proof (induction ls arbitrary: y)
  case (Cons l ls)
  then obtain z where z: "proxy_step c src l y = Some z" "proxy_run c src ls z = Some y'"
    by (auto simp: bind_eq_Some_conv)
  from work_step [OF Cons(2) z(1)] Cons(1) [OF proxy_inv_step [OF Cons(2) z(1)] z(2)] show ?case by auto
qed simp

text \<open>Only connections that wait have work left.\<close>

lemma rank_bound: "pc_rank pc \<le> 6 * of_bool (pc_rank pc \<noteq> 0)"
  by (cases pc) simp_all

lemma work_cnt: "int (sum_list (map pc_rank ps)) \<le> 6 * cnt (\<lambda>pc. pc_rank pc \<noteq> 0) ps"
proof (induction ps)
  case (Cons pc ps)
  with rank_bound [of pc] show ?case by (cases "pc_rank pc = 0") simp_all
qed simp

lemma work_waiting:
  assumes "proxy_inv c y"
  shows "int (work y) \<le> 6 * cnt waiting (px_viewers y)"
proof -
  let ?ps = "subs (px_sup y)"
  have "waiting v" if "v \<in> set (px_viewers y)" "owned v = Some i" "pc_rank (?ps ! i) \<noteq> 0" for v i
    using assms that by (force simp: proxy_inv_def viewer_ok_def owned_def split: phase.splits option.splits)
  then have "cnt (\<lambda>v. case owned v of None \<Rightarrow> False | Some i \<Rightarrow> pc_rank (?ps ! i) \<noteq> 0) (px_viewers y) \<le> cnt waiting (px_viewers y)"
    by (intro cnt_mono_on) (auto split: option.splits simp del: waiting.simps)
  with cnt_owned [OF assms, of "\<lambda>pc. pc_rank pc \<noteq> 0"] work_cnt [of ?ps] show ?thesis by (simp add: work_def)
qed

section \<open>As long as somebody waits there is a step\<close>

lemma step_left:
  assumes r: "sup_reach c s" and w: "standing c" and i: "i < length (subs s)" "pc_rank (subs s ! i) \<noteq> 0"
  shows "\<exists>l t. internal l \<and> subscriber_step (Internal l) \<and> sup_step c l s = Some t"
proof -
  have own: ?thesis if "j < length (subs s)" "sub_step c j (subs s ! j) s = Some t" for j t
    using that by (intro exI [of _ "SubStep j"]) simp
  have err: ?thesis if "j < length (subs s)" "subs s ! j = SConnecting ch" for j ch
    using that by (intro exI [of _ "ConnectErr j"]) simp
  show ?thesis
  proof (cases "subs s ! i")
    case SWatch
    note inv = reach_inv [OF r]
    have sst: "watched s = sst s" using inv w by (simp add: sup_inv_def inv_watch_def)
    show ?thesis
    proof (cases "sst s = Connecting")
      case True
      with inv have "cnt connector (subs s) \<noteq> 0" by (simp add: sup_inv_def inv_conn_def)
      then obtain j where "j < length (subs s)" "connector (subs s ! j)"
        by (auto simp: cnt_def filter_empty_conv in_set_conv_nth)
      then show ?thesis using own [of j] err [of j] by (cases "subs s ! j") auto
    next
      case False
      then show ?thesis using own [OF i(1)] SWatch sst by (cases "sst s") (auto simp: sub_watch_def)
    qed
  qed (use i own [OF i(1)] err [OF i(1)] in auto)
qed

lemma resumes:
  assumes "proxy_inv c y" "standing c" "k < length (px_viewers y)" "vw_phase (px_viewers y ! k) = Subscribing i req"
    and "pc_rank (subs (px_sup y) ! i) = 0"
  shows "\<exists>z. proxy_step c src (Resume k e) y = Some z \<and> vw_phase (px_viewers z ! k) \<in> {Reading, Streams, Returning, Gone}"
proof -
  have i: "i < length (subs (px_sup y))" using proxy_inv_ok [OF assms(1,3)] assms(4) by (simp add: viewer_ok_def)
  show ?thesis
  proof (cases "subs (px_sup y) ! i")
    case (SLive ch p)
    with assms(3,4) viewer_answer_props(3) [of src "Some p" "Some i" req "px_viewers y ! k"] show ?thesis
      by (auto simp: on_resume_def set_viewer_def)
  next
    case SDone
    with assms(3,4) show ?thesis by (simp add: on_resume_def set_viewer_def)
  next
    case SPanic
    with nobody_panics [OF _ assms(2) i] assms(1) show ?thesis by (simp add: proxy_inv_def)
  qed (use assms(5) in simp_all)
qed

section \<open>How long a connection waits\<close>

text \<open>C26. \<open>subscribe\<close> never gets stuck: in every schedule of connections and supervisor, under a
  standing receiver of the state watch, the \<open>subscribe\<close> calls make at most six steps (the return
  of a connect is one) for every connection that waits at the start and for every request that
  comes in; and where the schedule leaves no such step to make, every connection that waits can
  go on: its call returns, and it reads on, streams or ends. So no deadlock and no retrying
  without end: when every connect that is started returns and the calls' tasks are run as long
  as one of them can move, everybody is answered. No step of the event loop, of a watchdog or of
  a timer is needed for it, and none of those can add to the work.\<close>

theorem waiting_connections_served:
  assumes "proxy_reach c src y" "standing c" "proxy_run c src ls y = Some y'"
  shows "int (length (filter subscriber_step ls)) \<le>
           6 * (cnt waiting (px_viewers y) + int (length (filter new_request ls))) \<and>
         ((\<forall>l. subscriber_step l \<longrightarrow> proxy_step c src l y' = None) \<longrightarrow>
          (\<forall>k i req e. k < length (px_viewers y') \<longrightarrow> vw_phase (px_viewers y' ! k) = Subscribing i req \<longrightarrow>
             (\<exists>z. proxy_step c src (Resume k e) y' = Some z \<and>
                vw_phase (px_viewers z ! k) \<in> {Reading, Streams, Returning, Gone})))"
proof (intro conjI impI allI)
  have inv: "proxy_inv c y" by (rule reach_proxy [OF assms(1)])
  from work_run [OF inv assms(3)]
  have "int (length (filter subscriber_step ls) + work y') \<le> int (work y + 6 * length (filter new_request ls))"
    by (simp only: of_nat_le_iff)
  with work_waiting [OF inv] show "int (length (filter subscriber_step ls)) \<le>
      6 * (cnt waiting (px_viewers y) + int (length (filter new_request ls)))" by simp
next
  fix k i req e
  assume q: "\<forall>l. subscriber_step l \<longrightarrow> proxy_step c src l y' = None"
    and k: "k < length (px_viewers y')" "vw_phase (px_viewers y' ! k) = Subscribing i req"
  have inv: "proxy_inv c y'" by (rule reach_proxy [OF reach_proxy_run [OF assms(3,1)]])
  then have r: "sup_reach c (px_sup y')" by (simp add: proxy_inv_def)
  have i: "i < length (subs (px_sup y'))" using proxy_inv_ok [OF inv k(1)] k(2) by (simp add: viewer_ok_def)
  have "pc_rank (subs (px_sup y') ! i) = 0"
  proof (rule ccontr)
    assume "pc_rank (subs (px_sup y') ! i) \<noteq> 0"
    then obtain l t where "internal l" "subscriber_step (Internal l)" "sup_step c l (px_sup y') = Some t"
      using step_left [OF r assms(2) i] by blast
    with q [rule_format, of "Internal l"] show False by simp
  qed
  then show "\<exists>z. proxy_step c src (Resume k e) y' = Some z \<and>
      vw_phase (px_viewers z ! k) \<in> {Reading, Streams, Returning, Gone}"
    by (rule resumes [OF inv assms(2) k])
qed

lemma demo_asked:
  "\<exists>y. proxy_run (demo_config True) cam_source [Accept, Request 0 (demo_request Describe)] (proxy_new 0) = Some y \<and>
     px_viewers y = [(viewer_new 0)\<lparr>vw_phase := Subscribing 0 (demo_request Describe)\<rparr>] \<and> subs (px_sup y) = [SCounted]"
  by (simp add: proxy_run_defs)

lemma demo_described_settled:
  "px_viewers y = [v] \<Longrightarrow> subs (px_sup y) = [SLive ch p] \<Longrightarrow> subscriber_step l \<Longrightarrow> proxy_step c src l y = None"
  by (induction l rule: subscriber_step.induct) auto

theorem waiting_connections_served_witness:
  "\<exists>(y :: proxy) y' z. subs (px_sup y) = [SCounted] \<and>
     proxy_run (demo_config True) cam_source (map Internal (tl (first_viewer 0))) y = Some y' \<and>
     int (length (filter subscriber_step (map Internal (tl (first_viewer 0))))) \<le> 6 \<and>
     proxy_step (demo_config True) cam_source (Resume 0 (Unavailable ''down'')) y' = Some z \<and>
     vw_phase (px_viewers z ! 0) \<in> {Reading, Streams, Returning, Gone}"
proof -
  let ?ls = "map Internal (tl (first_viewer 0))"
  obtain y where y: "proxy_run (demo_config True) cam_source [Accept, Request 0 (demo_request Describe)] (proxy_new 0) = Some y"
    "px_viewers y = [(viewer_new 0)\<lparr>vw_phase := Subscribing 0 (demo_request Describe)\<rparr>]" "subs (px_sup y) = [SCounted]"
    using demo_asked by blast
  obtain y' where y': "proxy_run (demo_config True) cam_source ?ls y = Some y'"
    "px_viewers y' = [(viewer_new 0)\<lparr>vw_phase := Subscribing 0 (demo_request Describe)\<rparr>]"
    "subs (px_sup y') = [SLive 0 demo_params]"
    using demo_described [of True] unfolding first_describe_def proxy_run_append y(1) by auto
  have w: "standing (demo_config True)" by (simp add: demo_config_def)
  have n: "cnt waiting (px_viewers y) = 1" "filter new_request ?ls = []" using y(2) by (simp_all add: first_viewer_def)
  have "0 < length (px_viewers y')" "vw_phase (px_viewers y' ! 0) = Subscribing 0 (demo_request Describe)"
    using y'(2) by simp_all
  with waiting_connections_served [OF demo_proxy_reach [OF y(1)] w y'(1)] n
    demo_described_settled [OF y'(2,3), of _ "demo_config True" cam_source]
  show ?thesis using y(3) y'(1) by fastforce
qed

end
