(* ===== verification/MediaPath.thy ===== *)
theory MediaPath
  imports RtspServer WebRtcSession "HOL-Library.Sublist"
begin

text \<open>
  The way of a packet from the camera to a viewer: the track reader
  (\<open>src/webrtc_session.rs\<close>), the forwarder of the session
  (\<open>src/supervisor/webrtc_factory.rs\<close>) and the viewer's \<open>forward_rtp\<close> (\<open>src/rtsp/server.rs\<close>). The
  two channels between them are tokio's; what the code relies on is stated as a relation between
  what was put in and what \<open>recv\<close> returned.
\<close>

section \<open>The channels\<close>




section \<open>The forwarder\<close>




section \<open>The viewer\<close>









end
