(* ===== verification/Spec2Isabelle.thy ===== *)
theory Spec2Isabelle
  imports ReconnectBudget Backoff RateLimit RustStr H264 Commands SupervisorProps RtspServer
    RtspAnswers RtspListener Config Auth SnapshotWorker Factory LiveRegistry StartUp ReconnectPacing
    Progress MediaPath
begin

text \<open>
  buddy3d-proxy serves the camera of a Prusa Buddy3D printer as an RTSP stream. It logs in to
  Prusa Connect, opens a Socket.IO signaling connection, negotiates a WebRTC session with the
  camera while at least one RTSP viewer is attached, and forwards the RTP packets of that session
  to the viewers. Beside this it publishes state, commands and snapshots over MQTT, for Home
  Assistant. This library models that program; the code is under \<open>src/\<close> and the files named below
  are relative to its crate, \<open>src/src/\<close>.

  \<^bold>\<open>The parts and how they interact.\<close>
  A viewer's connection task (\<open>RtspServer\<close>) parses requests (\<open>RtspMessage\<close>) and drives one state
  machine (\<open>RtspSession\<close>); on DESCRIBE it subscribes at the supervisor. The supervisor
  (\<open>Supervisor\<close>) counts viewers, asks the stream factory (\<open>Factory\<close>) for a session on the first,
  reconnects it through a watchdog and drops it after the idle timeout. The factory logs in
  (\<open>Auth\<close>, over \<open>PrusaClient\<close> and \<open>RateLimit\<close>), opens the signaling session (\<open>Signaling\<close> over
  \<open>SignalingClient\<close>, \<open>SocketIo\<close> and \<open>EngineIo\<close>), runs the WebRTC negotiation (\<open>WebRtcSession\<close>) and
  registers the live connection in the registry that the MQTT commands use (\<open>Mqtt\<close>, \<open>Hub\<close>,
  \<open>Commands\<close>). \<open>Snapshot\<close> and \<open>H264\<close> turn the same RTP packets into pictures. \<open>Config\<close> and
  \<open>StartUp\<close> read the environment and spawn all of it.

  \<^bold>\<open>Theories and the code they model.\<close>
  \<^item> \<open>Prelude\<close>: the widths of the machine integers, \<open>outcome\<close> (a panic is a value), bytes, the lemma
    collections, and three interfaces: \<open>transition_system\<close> (invariants of reachable states),
    \<open>prefix_parser\<close> (a parser run on a growing receive buffer) and \<open>stream_codec\<close> (units written one
    after the other and read back). \<open>Bucket\<close>: the interface \<open>token_bucket\<close>, with the bound on what a
    bucket lets through in any time window.
  \<^item> \<open>RustStr\<close>: the functions of the Rust standard library on \<open>str\<close> (split, trim, integer parsing)
    as the sources use them; strings are lists of the bytes of their UTF-8 form. \<open>Json\<close>: the values
    that \<open>serde_json\<close> produces.
  \<^item> \<open>RtspMessage\<close>, \<open>RtspSession\<close>, \<open>Sdp\<close>, \<open>Interleaved\<close>, \<open>RtspServer\<close>, \<open>RtspListener\<close>: \<open>rtsp/message.rs\<close>
    (\<open>parse_request\<close>, \<open>format_response\<close>), \<open>rtsp/session.rs\<close> (\<open>session_handle\<close>, one branch per method),
    \<open>rtsp/sdp.rs\<close>, \<open>rtsp/interleaved.rs\<close> and \<open>rtsp/server.rs\<close> (\<open>handle_connection\<close>, \<open>forward_rtp\<close>, the
    accept loop). \<open>RtspAnswers\<close>: a reader for what the server writes.
  \<^item> \<open>Viewers\<close>: the connection tasks and the supervisor as one state machine (\<open>proxy_step\<close>); in it the
    source of \<open>RtspServer\<close> is the supervisor, a request starts a \<open>subscribe\<close> and waits for it, and
    every return of a connection task drops its subscription. \<open>MediaPath\<close>: a packet's way through the
    track reader (\<open>webrtc_session.rs\<close>), the forwarder (\<open>supervisor/webrtc_factory.rs\<close>) and \<open>forward_rtp\<close>.
  \<^item> \<open>Supervisor\<close>: \<open>supervisor/mod.rs\<close>. The record \<open>sup\<close> holds the mutex-guarded state, the lists \<open>subs\<close>
    and \<open>watchdogs\<close> hold a program counter per task, and each atomic section of a task (from lock to
    unlock, or from await to await) is one step, so that every interleaving is a run. \<open>ReconnectBudget\<close>
    (\<open>reconnect_budget.rs\<close>) and \<open>Backoff\<close> (\<open>backoff.rs\<close>) pace the connects. \<open>SupervisorHandles\<close> and
    \<open>SupervisorInv\<close> prove the invariants, \<open>SupervisorProps\<close> what follows for users, \<open>ReconnectPacing\<close> the
    bound on failed connects.
  \<^item> \<open>Factory\<close>: \<open>supervisor/webrtc_factory.rs\<close> and \<open>live_outbound.rs\<close>; \<open>LiveRegistry\<close>: the registry when
    the supervisor replaces a session. \<open>WebRtcSession\<close>: \<open>webrtc_session.rs\<close>.
  \<^item> \<open>EngineIo\<close>, \<open>SocketIo\<close>, \<open>SignalingClient\<close>, \<open>Signaling\<close>, \<open>Proto\<close>: \<open>prusa/signaling/engineio.rs\<close>,
    \<open>socketio.rs\<close>, \<open>client.rs\<close>, \<open>mod.rs\<close> and \<open>proto/buddy3d.rs\<close>, from frames to typed events.
  \<^item> \<open>RateLimit\<close>, \<open>PrusaClient\<close>, \<open>Api\<close>, \<open>Auth\<close>, \<open>Jwt\<close>, \<open>TokenStore\<close>: \<open>rate_limit.rs\<close>, \<open>prusa/client.rs\<close>,
    \<open>prusa/api.rs\<close>, \<open>prusa/auth.rs\<close>, \<open>jwt.rs\<close> and \<open>pkce.rs\<close>, \<open>token_store.rs\<close>.
  \<^item> \<open>Commands\<close> (\<open>prusa/commands.rs\<close>), \<open>Mqtt\<close> (\<open>mqtt/discovery.rs\<close>, \<open>state.rs\<close>, \<open>commands.rs\<close>,
    \<open>transient.rs\<close>) and \<open>Hub\<close> (\<open>mqtt/hub.rs\<close>).
  \<^item> \<open>H264\<close> (\<open>snapshot/h264.rs\<close>), \<open>Snapshot\<close> (\<open>snapshot/encode.rs\<close> and the consumer of
    \<open>snapshot/mod.rs\<close>), \<open>SnapshotWorker\<close> (the worker loop of \<open>snapshot/mod.rs\<close>).
  \<^item> \<open>Config\<close> (\<open>config.rs\<close>, \<open>metrics.rs\<close>, \<open>health.rs\<close>, \<open>tracing_redact.rs\<close> and the helpers of
    \<open>main.rs\<close>), \<open>StartUp\<close> (the commands of \<open>main.rs\<close>).

  \<^bold>\<open>What the lemmas show.\<close>
  \<^item> Supervisor, in every reachable state of every interleaving: an attached viewer is never cut off
    by the idle timer, the session data belongs to the state, viewers are counted exactly, an idle
    session is torn down, every stop handle is held once or dropped, stale watchdogs change
    nothing, a waiting viewer is woken, and the failed connects of a run are bounded by the budget
    (\<open>connects_paced\<close>, by a potential that every transition respects). \<open>dead_session_sticks\<close> is the
    run in which it falls short.
  \<^item> RTSP: requests survive any fragmentation of the byte stream, a session streams only what was
    negotiated, everything the server writes reads back as responses (for a reader of CR LF lines), RTP
    frames are forwarded unchanged, session numbers are distinct.
  \<^item> Connections and supervisor together (\<open>ViewerProps\<close>), in every reachable state: every subscriber
    belongs to one connection, the viewer count is the number of connections attached, a streaming
    connection is on the current session, an answer is the one of a server whose source answers at
    once, every DESCRIBE is answered from the current session (with the parameters of the connect
    that brought it up: a reconnect does not renew them), and when the last connection has gone the
    session is stopped. \<open>Progress\<close>: in every schedule the \<open>subscribe\<close> calls make at most six steps
    per waiting connection and new request, and where none is left nobody waits. \<open>MediaPath\<close>: a
    viewer decodes the camera's packets, in order and without repetition, as long as their headers
    do not meet the miscounted extension lengths.
  \<^item> Signaling: nothing but CONNECT and \<open>client_authentication\<close> is submitted before the
    acknowledgement, wherever the consumer cancels the translator; frames on the wire decode to the
    events that were meant, a peer is given up exactly after its ping timeout, the binary correlator
    equals its specification, no trickled candidate is lost, and they keep their order unless an
    offer is refused after it was stored.
  \<^item> HTTP: the two token buckets meet their contract, waiting returns, the limiter paces failing
    requests for any number of tasks, sends are accounted once,
    tokens that are handed out are not expired, a crash during a save loses no token file.
  \<^item> Snapshots: packetising and reassembly round-trip, and a picture is made only of the units received
    since the worker saw the stream go down and come up.
  \<^item> Root theory: properties across components, from a viewer's DESCRIBE to the supervisor's session
    and from an MQTT message to the bytes that the camera reads.

  \<^bold>\<open>Interfaces and where they are interpreted.\<close> \<open>transition_system\<close>: the supervisor (\<open>sup\<close>, \<open>full\<close>, \<open>panic\<close>),
  the connections with it (\<open>proxy\<close>).
  \<open>prefix_parser\<close>: the RTSP parser (\<open>rtsp\<close>). \<open>stream_codec\<close>: interleaved frames (\<open>frames\<close>), RTSP
  responses (\<open>answers\<close>), protobuf fields (\<open>wire\<close>). \<open>token_bucket\<close>: the rate limiter (\<open>limiter\<close>) and the
  reconnect budget (\<open>budget\<close>).

  \<^bold>\<open>Bounds and fuel.\<close> Bounded channels keep their capacities (32 outbound messages of the
  signaling client, 64 requests of the MQTT client, 1024 RTP packets). \<open>rl_acquire\<close> runs the waiting
  loop with fuel, and two rounds are proved to be enough without contention; the redirect chain is
  bounded by the six hops of the code, the wait for a connected peer by the polls of 100 ms that fit
  into its 15 s. Parsers recurse with a measure, the length of what is left.

  \<^bold>\<open>Parameters.\<close> What the crates compute is an argument of the definitions: \<open>serde_json\<close>'s \<open>parse\<close>
  and \<open>print\<close> (used only through the law that an array it prints parses to itself), prost's codecs,
  the URL encoder, the answers of the HTTP client, the results of the peer connection, the decoder,
  resampler and JPEG encoder, what \<open>recv\<close> of a tokio channel returns for what was sent
  (\<open>mpsc_receives\<close>, \<open>broadcast_receives\<close>), base64 and SHA-256, the random jitter and the rounding of \<open>f64\<close> products.
  Time is a natural number of milliseconds or nanoseconds that the steps receive.

  \<^bold>\<open>Not modelled.\<close> What the webrtc crate does inside its calls, the listening side of \<open>/healthz\<close>
  (axum), argument parsing (clap), logging, \<open>xtask\<close> (regenerates a file), \<open>lib.rs\<close> (module
  declarations, subscriber), the variant of \<open>write_atomic\<close> for systems other than Unix, the tests.
\<close>

section \<open>From the supervisor to the viewer\<close>

text \<open>What a viewer is told is what the session negotiated: in every reachable state in which the
  supervisor has attached a viewer, the bytes that the connection task writes for that viewer's
  DESCRIBE read back as one response, 200, whose SDP body parses to the H.264 parameters of the
  supervisor's current session.\<close>

theorem describe_names_session:
  assumes "sup_reach c s" and "SLive ch p \<in> set (subs s)"
    and "src_subscribe src = Inr p" and "sdp_ok (src_camera_name src) p"
    and "sendable_request Describe uri hs []" and "uri_matches uri (src_rtsp_path src)"
  shows "\<exists>resp body. decode_response
           (c_out (fed_state (handle_connection src n [request_bytes Describe uri hs []]))) = Some (resp, []) \<and>
         status resp = 200 \<and> resp_body resp = Some body \<and> extract_h264_params body = h264 s"
proof -
  let ?r = "(Describe, uri, hs, []) :: client_request"
  have nonempty: "request_bytes Describe uri hs [] \<noteq> []"
    by (simp add: request_bytes_def request_lines_def to_bytes_def method_as_str_def)
  have "handle_connection src n [sent_bytes ?r] =
      serve (conn_request src (connection_session_id n)) conn_new [received ?r]"
    using feed_sent [of "[?r]" "conn_request src (connection_session_id n)" conn_new] assms(5) nonempty
    by (simp add: handle_connection_feed)
  moreover define ctx where "ctx = \<lparr>camera_name = src_camera_name src, ctx_h264 = p,
      expected_path = src_rtsp_path src, new_session_id = connection_session_id n\<rparr>"
  moreover obtain resp st where h: "session_handle session_new (received ?r) ctx = (resp, NoAction, st)"
    and r: "status resp = 200" "resp_body resp = Some (build_sdp (src_camera_name src) p)"
    using assms(6) by (simp add: session_handle_def resp_defs ctx_def Let_def)
  ultimately have out: "c_out (fed_state (handle_connection src n [request_bytes Describe uri hs []])) =
      to_bytes (format_response resp)"
    using assms(3) by (simp add: conn_request_def needs_subscription_def conn_new_def conn_answer_def Let_def)
  have "no_crlf uri"
    using assms(5) solid_props by (intro no_crlf_free) (auto simp: sendable_request_def)
  then have "answer_ok resp"
    using handle_answer_ok [OF h] connection_sid_ok by (simp add: ctx_def session_id_ok_def session_new_def)
  then have "decode_response (to_bytes (format_response resp) @ []) = Some (resp, [])"
    by (intro answers.dec_enc) (simp add: answer_ok_def)
  moreover have "extract_h264_params (build_sdp (src_camera_name src) p) = h264 s"
    using extract_built_sdp [OF assms(4)] live_session [OF assms(1,2)] by simp
  ultimately show ?thesis using out r by auto
qed

definition live_source :: source_view where
  "live_source = \<lparr>src_camera_name = ''Core One'', src_rtsp_path = ''core-one'', src_subscribe = Inr demo_params\<rparr>"

theorem describe_names_session_witness:
  "\<exists>resp body. decode_response (c_out (fed_state
       (handle_connection live_source 3 [request_bytes Describe ''rtsp://h/core-one'' [] []]))) = Some (resp, []) \<and>
     status resp = 200 \<and> resp_body resp = Some body \<and> extract_h264_params body = Some demo_params"
proof -
  obtain s where s: "sup_run (demo_config True) (first_viewer 0) (sup_new 0) = Some s"
    "subs s = [SLive 0 demo_params]" using demo_run [of True] by blast
  have live: "SLive 0 demo_params \<in> set (subs s)" using s(2) by simp
  have sdp: "sdp_ok (src_camera_name live_source) demo_params"
    by (simp add: live_source_def demo_params_def sdp_ok_def param_ok_def solid_def)
  have len: "length (request_bytes Describe ''rtsp://h/core-one'' [] []) = 39" by code_simp
  have "sendable_request Describe ''rtsp://h/core-one'' [] []"
  proof -
    have "\<forall>c\<in>set ''rtsp://h/core-one''. solid c" "headers_of [] ''content-length'' = None" by code_simp+
    with len show ?thesis by (simp add: sendable_request_def)
  qed
  moreover have "uri_matches ''rtsp://h/core-one'' (src_rtsp_path live_source)"
    unfolding live_source_def by code_simp
  ultimately have "\<exists>resp body. decode_response (c_out (fed_state
       (handle_connection live_source 3 [request_bytes Describe ''rtsp://h/core-one'' [] []]))) = Some (resp, []) \<and>
     status resp = 200 \<and> resp_body resp = Some body \<and> extract_h264_params body = h264 s"
    by (intro describe_names_session [OF demo_reach [OF s(1)] live _ sdp]) (simp_all add: live_source_def)
  with live_session [OF demo_reach [OF s(1)] live] show ?thesis by simp
qed

section \<open>From Home Assistant to the camera\<close>

text \<open>What a dispatched command submits to its transport.\<close>

fun route :: "dispatched \<Rightarrow> outbound list" where
  "route (ViaLive out) = [out]"
| "route (ViaTransient outs) = outs"
| "route (DispatchFailed e) = []"

lemma route_config:
  assumes "route (dispatch token live env (SetMode m)) \<noteq> []"
  shows "route (dispatch token live env (SetMode m)) =
    (if live = Some True then [] else [OutBinary ''trigger'' (encode_camera_trigger 3 token) False]) @
    [OutBinary ''configuration'' (encode_set_mode m token) False]"
proof (cases "live = Some True")
  case True
  then show ?thesis by (simp add: dispatch_def)
next
  case False
  with assms obtain outs where "transient_send token ''configuration'' (encode_set_mode m token) env = Inr outs"
    by (cases "transient_send token ''configuration'' (encode_set_mode m token) env") (simp_all add: dispatch_def)
  then show ?thesis using False
    by (auto simp: dispatch_def transient_send_def transient_submit_def send_trigger_def send_configuration_def submit_def
        Let_def rbind_Inr_iff split: if_splits)
qed

text \<open>C12. A command of Home Assistant reaches the camera: an option of the mode entity, published on the
  advertised topic while the hub is not blocked, is dispatched, over the session's channel when one
  is registered and that channel open, and otherwise, if that succeeds, over a transient connection
  behind the trigger that opens it; where its driver's socket takes both frames of the event, a
  peer that speaks the same transport and is not in the middle of a binary event reads from them
  one \<open>configuration\<close> event, whose payload decodes as protobuf to the chosen mode and the camera's
  token; and the hub's echo shows the option on the state topic. (A live session is not always
  registered: see \<open>reconnect_unregisters\<close>.)\<close>

theorem command_reaches_camera:
  assumes "prints_array parse print (event_args ''configuration'' 1)" and "length token < 2 ^ 64"
    and "mode_name m = Some opt" and "2 \<le> capacity" and "pending (dr_correlator peer) = None"
    and "\<not> hl_blocked h" and "route (dispatch token live env (SetMode m)) \<noteq> []"
  shows "\<exists>cmd out m1 m2 payload sub.
     hl_commands (hub_step print d h
        (Incoming (text_field ''command_topic'' (mode_select d)) (to_bytes opt))) = hl_commands h @ [cmd] \<and>
     route (dispatch token live env cmd) =
       (if live = Some True then [] else [OutBinary ''trigger'' (encode_camera_trigger 3 token) False]) @ [out] \<and>
     t_written (on_submit print capacity drv out) = [m1, m2] \<and>
     st_events (drive_all parse print peer [(now, c1, Message m1), (now, c2, Message m2)]) =
       [InBinary ''configuration'' payload] \<and>
     read_message payload = Some [Len 3 sub, Len 6 (to_bytes token)] \<and>
     read_message sub = Some [Varint 4 (unat m)] \<and>
     echo d cmd = [Publish (text_field ''state_topic'' (mode_select d)) (to_bytes opt)]"
proof -
  have opt: "m = 1 \<and> opt = ''Auto'' \<or> m = 2 \<and> opt = ''Day'' \<or> m = 3 \<and> opt = ''Night''"
    using assms(3) by (auto simp: mode_name_def split: if_splits)
  let ?payload = "encode_set_mode m token"
  let ?out = "OutBinary ''configuration'' ?payload False"
  let ?m1 = "WsText (encode_message (encode_binary_event print ''configuration'' 1 None))"
  have "hl_commands (hub_step print d h
      (Incoming (text_field ''command_topic'' (mode_select d)) (to_bytes opt))) = hl_commands h @ [SetMode m]"
    using opt parse_options assms(6) by (auto simp: select_topics)
  moreover note route_config [OF assms(7)]
  moreover have "t_written (on_submit print capacity drv ?out) = [?m1, WsBinary ?payload]"
    using assms(4) by (simp add: turn_defs)
  moreover have "st_events (drive_all parse print peer [(now, c1, Message ?m1), (now, c2, Message (WsBinary ?payload))]) =
      [InBinary ''configuration'' ?payload]"
    using frames_reach_peer [OF assms(1,5)] by simp
  moreover have "read_message ?payload = Some [Len 3 (write_field (Varint 4 (unat m))), Len 6 (to_bytes token)]"
    unfolding encode_set_mode_fields
    by (rule read_message_write) (use assms(2) sub_message_valid [of 4 m] in simp)
  moreover have "read_message (write_field (Varint 4 (unat m))) = Some [Varint 4 (unat m)]"
    by (rule sub_message_valid(3)) simp
  moreover have "echo d (SetMode m) = [Publish (text_field ''state_topic'' (mode_select d)) (to_bytes opt)]"
    using opt by (auto simp: select_topics publish_mode_state_def)
  ultimately show ?thesis by blast
qed

definition hub_device :: device_identity where
  "hub_device = \<lparr>di_camera_id = ''7'', di_camera_name = ''Core One'', di_sw_version = ''0.3.1'',
     di_topic_prefix = ''buddy3d-proxy'', di_discovery_prefix = ''homeassistant''\<rparr>"

text \<open>No session is registered, and the transient connection comes up.\<close>

definition network_up :: transient_env where
  "network_up = \<lparr>te_token = Inr ''jwt'', te_config = Inr \<lparr>wc_ice_servers = [], wc_ttl_seconds = 300\<rparr>,
     te_signaling = Inr sample_session, te_open1 = True, te_open2 = True\<rparr>"

theorem command_reaches_camera_witness:
  "\<exists>out m1 m2 payload sub.
     route (dispatch ''I47hv'' None network_up (SetMode 3)) =
       [OutBinary ''trigger'' (encode_camera_trigger 3 ''I47hv'') False, out] \<and>
     t_written (on_submit (print_one ''[configuration]'') 2 (driver_new sample_open 0) out) = [m1, m2] \<and>
     st_events (drive_all (parse_one ''[configuration]'' (event_args ''configuration'' 1)) (print_one ''[configuration]'')
       (driver_new sample_open 0) [(5, 1, Message m1), (5, 1, Message m2)]) = [InBinary ''configuration'' payload] \<and>
     read_message payload = Some [Len 3 sub, Len 6 (to_bytes ''I47hv'')] \<and>
     read_message sub = Some [Varint 4 (unat (3 :: u32))]"
proof -
  have one: "prints_array (parse_one ''[configuration]'' (event_args ''configuration'' 1))
      (print_one ''[configuration]'') (event_args ''configuration'' 1)"
    by (rule prints_array_one) simp
  have "length ''I47hv'' < 2 ^ 64" "mode_name 3 = Some ''Night''" "2 \<le> (2 :: nat)"
    "pending (dr_correlator (driver_new sample_open 0)) = None" "\<not> hl_blocked hub_idle"
    "route (dispatch ''I47hv'' None network_up (SetMode 3)) \<noteq> []"
    by (simp_all add: mode_name_def driver_new_def correlator_new_def hub_idle_def network_up_def dispatch_def
        transient_send_def transient_submit_def send_trigger_def send_configuration_def submit_def Let_def)
  from command_reaches_camera [OF one this, of hub_device "driver_new sample_open 0" 5 1 1]
  obtain cmd out m1 m2 payload sub where
    c: "hl_commands (hub_step (print_one ''[configuration]'') hub_device hub_idle
      (Incoming (text_field ''command_topic'' (mode_select hub_device)) (to_bytes ''Night''))) = hl_commands hub_idle @ [cmd]"
    and r: "route (dispatch ''I47hv'' None network_up cmd) = [OutBinary ''trigger'' (encode_camera_trigger 3 ''I47hv'') False, out]"
     "t_written (on_submit (print_one ''[configuration]'') 2 (driver_new sample_open 0) out) = [m1, m2]"
     "st_events (drive_all (parse_one ''[configuration]'' (event_args ''configuration'' 1)) (print_one ''[configuration]'')
       (driver_new sample_open 0) [(5, 1, Message m1), (5, 1, Message m2)]) = [InBinary ''configuration'' payload]"
     "read_message payload = Some [Len 3 sub, Len 6 (to_bytes ''I47hv'')]"
     "read_message sub = Some [Varint 4 (unat (3 :: u32))]"
    by auto
  have "cmd = SetMode 3" using c parse_options by (simp add: hub_idle_def select_topics)
  with r show ?thesis by blast
qed

end
